(* ===== verification/Htx_Prelude.thy ===== *)
theory Htx_Prelude
  imports Main "HOL-Library.Monad_Syntax" "HOL-Library.Word" "HOL-Library.Log_Nat"
begin

text \<open>
  The vocabulary shared by the component theories: C strings and the parts of the
  C library the sources use on them (\<open>ctype.h\<close>, \<open>string.h\<close>, \<open>strtol\<close>, \<open>atoi\<close>,
  \<open>fgets\<close>, the \<open>%s\<close>, \<open>%d\<close> and \<open>%010d\<close> conversions of \<open>sprintf\<close>), undefined
  behaviour as the value \<open>None\<close>, and the generic lemmas the component proofs rest on.

  A C string is the list of its characters before the terminating NUL, and a pointer
  into it is the remaining suffix, so \<open>*p\<close> is \<open>peek p\<close> and \<open>p++\<close> is \<open>tl p\<close>.
  \<open>char\<close> is unsigned, as on PowerPC Linux, the platform HTX is built for.
  A function that can read or write outside an object returns an \<open>option\<close>:
  \<open>None\<close> is that fault, and nothing is claimed about what the machine does after it.
\<close>

named_theorems cstr_simps \<open>evaluation of the C string functions\<close>
named_theorems fault_free \<open>conditions under which an operation does not fault\<close>

type_synonym cstring = string
type_synonym 'a fault = "'a option"

subsection \<open>Characters\<close>

abbreviation (input) NL :: char where "NL \<equiv> CHR 0x0A"
abbreviation (input) NUL :: char where "NUL \<equiv> CHR 0x00"
abbreviation (input) SP :: char where "SP \<equiv> CHR '' ''"

definition code :: "char \<Rightarrow> nat" where
  "code c = of_char c"

definition peek :: "cstring \<Rightarrow> char" where
  "peek s = (case s of [] \<Rightarrow> NUL | c # _ \<Rightarrow> c)"

definition cstr :: "string \<Rightarrow> cstring" where
  "cstr bs = takeWhile (\<lambda>c. c \<noteq> NUL) bs"

definition isspace :: "char \<Rightarrow> bool" where
  "isspace c \<longleftrightarrow> code c = 32 \<or> (9 \<le> code c \<and> code c \<le> 13)"

definition isdigit :: "char \<Rightarrow> bool" where
  "isdigit c \<longleftrightarrow> 48 \<le> code c \<and> code c \<le> 57"

definition islower :: "char \<Rightarrow> bool" where
  "islower c \<longleftrightarrow> 97 \<le> code c \<and> code c \<le> 122"

definition isupper :: "char \<Rightarrow> bool" where
  "isupper c \<longleftrightarrow> 65 \<le> code c \<and> code c \<le> 90"

definition isalpha :: "char \<Rightarrow> bool" where
  "isalpha c \<longleftrightarrow> islower c \<or> isupper c"

definition toupper :: "char \<Rightarrow> char" where
  "toupper c = (if islower c then char_of (code c - 32) else c)"

subsection \<open>Strings\<close>

fun strcmp :: "cstring \<Rightarrow> cstring \<Rightarrow> int" where
  "strcmp [] [] = 0"
| "strcmp [] (_ # _) = -1"
| "strcmp (_ # _) [] = 1"
| "strcmp (x # xs) (y # ys) =
     (if x = y then strcmp xs ys else int (code x) - int (code y))"

definition strncmp :: "cstring \<Rightarrow> cstring \<Rightarrow> nat \<Rightarrow> int" where
  "strncmp s t n = strcmp (take n s) (take n t)"

definition strchr :: "cstring \<Rightarrow> char \<Rightarrow> cstring option" where
  "strchr s c = (let r = dropWhile (\<lambda>d. d \<noteq> c) s in if r = [] then None else Some r)"

text \<open>\<open>fgets (buf, n, fp)\<close> on the unread part of a file: the bytes stored before the
  terminating NUL, and the new unread part.\<close>

definition fgets :: "nat \<Rightarrow> string \<Rightarrow> (string \<times> string) option" where
  "fgets n s =
     (if s = [] then None
      else let body = take (n - 1) s;
               l = takeWhile (\<lambda>c. c \<noteq> NL) body;
               k = (if length l < length body then Suc (length l) else length l)
           in Some (take k s, drop k s))"

subsection \<open>Numbers as text\<close>

definition wrap32 :: "int \<Rightarrow> int" where
  "wrap32 i = (i + 2 ^ 31) mod 2 ^ 32 - 2 ^ 31"

definition digit_char :: "nat \<Rightarrow> char" where
  "digit_char d = char_of (48 + d)"

definition digit_val :: "char \<Rightarrow> nat" where
  "digit_val c = code c - 48"

fun dec_digits :: "nat \<Rightarrow> string" where
  "dec_digits n =
     (if n < 10 then [digit_char n] else dec_digits (n div 10) @ [digit_char (n mod 10)])"

declare dec_digits.simps [simp del]

definition dec_val :: "string \<Rightarrow> nat" where
  "dec_val ds = foldl (\<lambda>a c. 10 * a + digit_val c) 0 ds"

definition show_int :: "int \<Rightarrow> string" where
  "show_int i = (if i < 0 then CHR ''-'' # dec_digits (nat (- i)) else dec_digits (nat i))"

text \<open>\<open>strtol (s, &end, 10)\<close> for a 64-bit \<open>long\<close>: the value, saturated, and \<open>end\<close>.\<close>

definition clamp64 :: "int \<Rightarrow> int" where
  "clamp64 i = max (- (2 ^ 63)) (min (2 ^ 63 - 1) i)"

definition strtol_sign :: "cstring \<Rightarrow> bool \<times> cstring" where
  "strtol_sign s =
     (if peek s = CHR ''-'' then (True, tl s)
      else if peek s = CHR ''+'' then (False, tl s) else (False, s))"

definition strtol :: "cstring \<Rightarrow> int \<times> cstring" where
  "strtol s =
     (let (neg, t) = strtol_sign (dropWhile isspace s);
          ds = takeWhile isdigit t;
          v = int (dec_val ds)
      in if ds = [] then (0, s)
         else (clamp64 (if neg then - v else v), dropWhile isdigit t))"

definition atoi :: "cstring \<Rightarrow> int" where
  "atoi s = wrap32 (fst (strtol s))"

text \<open>The conversion \<open>%010d\<close> of an \<open>int\<close>.\<close>

definition pad0 :: "nat \<Rightarrow> string \<Rightarrow> string" where
  "pad0 n s = replicate (n - length s) (CHR ''0'') @ s"

definition fmt_010d :: "int \<Rightarrow> string" where
  "fmt_010d i =
     (if i < 0 then CHR ''-'' # pad0 9 (dec_digits (nat (- i))) else pad0 10 (dec_digits (nat i)))"


subsection \<open>Lemmas on characters and strings\<close>

lemmas ctype_simps [cstr_simps] =
  code_def isspace_def isdigit_def islower_def isupper_def isalpha_def toupper_def
  digit_char_def digit_val_def char_of_def bit_0

lemma code_inject [simp]: "code c = code d \<longleftrightarrow> c = d"
  by (simp add: code_def)

lemma code_less_256: "code c < 256"
  using of_char_mod_256 [of c, where ?'a = nat] unfolding code_def
  by (metis mod_less_divisor zero_less_numeral)

lemma peek_simps [simp]: "peek [] = NUL" "peek (c # s) = c"
  by (simp_all add: peek_def)

lemma strcmp_eq_0 [simp]: "strcmp s t = 0 \<longleftrightarrow> s = t"
  by (induction s t rule: strcmp.induct) auto

lemma strncmp_eq_0: "strncmp s t n = 0 \<longleftrightarrow> take n s = take n t"
  by (simp add: strncmp_def)

lemma strchr_Some: "strchr s c = Some r \<Longrightarrow> \<exists>p. s = p @ r \<and> c \<notin> set p \<and> (\<exists>q. r = c # q)"
proof -
  assume a: "strchr s c = Some r"
  then have r: "r = dropWhile (\<lambda>d. d \<noteq> c) s" "r \<noteq> []"
    by (auto simp: strchr_def Let_def split: if_splits)
  have "s = takeWhile (\<lambda>d. d \<noteq> c) s @ r" using r(1) by simp
  moreover have "c \<notin> set (takeWhile (\<lambda>d. d \<noteq> c) s)"
    using set_takeWhileD by fastforce
  moreover have "hd r = c" using r hd_dropWhile [of "\<lambda>d. d \<noteq> c" s] by simp
  ultimately show ?thesis using r(2) by (metis list.collapse)
qed

lemma strchr_None: "strchr s c = None \<longleftrightarrow> c \<notin> set s"
  by (auto simp: strchr_def Let_def dropWhile_eq_Nil_conv)

lemma strchr_append: "c \<notin> set p \<Longrightarrow> strchr (p @ c # q) c = Some (c # q)"
  by (induction p) (auto simp: strchr_def)

lemma takeWhile_all_append: "(\<And>x. x \<in> set xs \<Longrightarrow> P x) \<Longrightarrow> takeWhile P (xs @ ys) = xs @ takeWhile P ys"
  by (rule takeWhile_append2)

lemma takeWhile_stop: "(\<And>x. x \<in> set xs \<Longrightarrow> P x) \<Longrightarrow> \<not> P y \<Longrightarrow> takeWhile P (xs @ y # ys) = xs"
  by (simp add: takeWhile_append2)

lemma dropWhile_stop: "(\<And>x. x \<in> set xs \<Longrightarrow> P x) \<Longrightarrow> \<not> P y \<Longrightarrow> dropWhile P (xs @ y # ys) = y # ys"
  by (simp add: dropWhile_append2)

lemma length_dropWhile_less: "xs \<noteq> [] \<Longrightarrow> P (hd xs) \<Longrightarrow> length (dropWhile P xs) < length xs"
  by (cases xs) (auto simp: le_imp_less_Suc length_dropWhile_le)

lemma cstr_id [simp]: "NUL \<notin> set s \<Longrightarrow> cstr s = s"
  unfolding cstr_def by (rule takeWhile_eq_all_conv [THEN iffD2]) blast

lemma isspace_NL [simp]: "isspace NL" and isspace_SP [simp]: "isspace SP"
  and not_isspace_NUL [simp]: "\<not> isspace NUL"
  by (simp_all add: ctype_simps)

subsection \<open>Lemmas on \<open>fgets\<close>\<close>

lemma fgets_split:
  assumes "fgets n s = Some (l, r)"
  shows "s = l @ r"
  using assms by (auto simp: fgets_def Let_def split: if_splits)

lemma fgets_nonempty:
  assumes "fgets n s = Some (l, r)" and "2 \<le> n"
  shows "l \<noteq> []"
proof -
  obtain c s' m where s: "s = c # s'" and n: "n = Suc (Suc m)"
    using assms by (cases s; cases n rule: nat.exhaust) (auto simp: fgets_def not_less_eq_eq dest!: Suc_le_D)
  show ?thesis
    using assms(1) unfolding s n fgets_def
    by (auto simp: Let_def take_Cons' split: if_splits)
qed

lemma fgets_shorter:
  "fgets n s = Some (l, r) \<Longrightarrow> 2 \<le> n \<Longrightarrow> length r < length s"
  using fgets_split fgets_nonempty by fastforce

lemma fgets_line:
  assumes "NL \<notin> set l" and "length l + 2 \<le> n"
  shows "fgets n (l @ NL # r) = Some (l @ [NL], r)"
proof -
  have t: "take (n - 1) (l @ NL # r) = l @ NL # take (n - 2 - length l) r"
  proof -
    have "n - 1 - length l = Suc (n - 2 - length l)" using assms(2) by simp
    then show ?thesis using assms(2) by simp
  qed
  have "takeWhile (\<lambda>c. c \<noteq> NL) (l @ NL # take (n - 2 - length l) r) = l"
    using assms(1) by (intro takeWhile_stop) auto
  then show ?thesis unfolding fgets_def t Let_def by simp
qed

lemma fgets_last:
  assumes "NL \<notin> set l" "l \<noteq> []" and "length l + 1 \<le> n"
  shows "fgets n l = Some (l, [])"
proof -
  have "take (n - 1) l = l" using assms(3) by simp
  moreover have "takeWhile (\<lambda>c. c \<noteq> NL) l = l"
    using assms(1) by (intro takeWhile_eq_all_conv [THEN iffD2]) blast
  ultimately show ?thesis using assms(2) by (simp only: fgets_def Let_def) simp
qed

lemma fgets_Nil [simp]: "fgets n [] = None"
  by (simp add: fgets_def)

subsection \<open>Lemmas on decimal text\<close>

lemma code_digit_char [simp]: "d < 10 \<Longrightarrow> code (digit_char d) = 48 + d"
  by (simp add: code_def digit_char_def)

lemma dec_digits_nonempty [simp]: "dec_digits n \<noteq> []"
  by (subst dec_digits.simps) simp

lemma isdigit_dec_digits: "c \<in> set (dec_digits n) \<Longrightarrow> isdigit c"
proof (induction n rule: dec_digits.induct)
  case (1 n)
  show ?case
  proof (cases "n < 10")
    case True
    with "1.prems" show ?thesis by (subst (asm) dec_digits.simps) (auto simp: isdigit_def)
  next
    case False
    then have "c \<in> set (dec_digits (n div 10)) \<or> c = digit_char (n mod 10)"
      using "1.prems" by (subst (asm) dec_digits.simps) auto
    with "1.IH" False show ?thesis by (auto simp: isdigit_def)
  qed
qed

lemma dec_val_snoc: "dec_val (ds @ [c]) = 10 * dec_val ds + digit_val c"
  by (simp add: dec_val_def)

lemma dec_val_dec_digits [simp]: "dec_val (dec_digits n) = n"
proof (induction n rule: dec_digits.induct)
  case (1 n)
  show ?case
  proof (cases "n < 10")
    case True
    then show ?thesis by (subst dec_digits.simps) (simp add: dec_val_def digit_val_def)
  next
    case False
    with "1.IH" show ?thesis by (subst dec_digits.simps) (simp add: dec_val_snoc digit_val_def)
  qed
qed

lemma dec_val_zeros: "dec_val (replicate k (CHR ''0'') @ ds) = dec_val ds"
  by (induction k) (simp_all add: dec_val_def digit_val_def code_def)

lemma length_dec_digits: "n < 10 ^ k \<Longrightarrow> 0 < k \<Longrightarrow> length (dec_digits n) \<le> k"
proof (induction k arbitrary: n)
  case (Suc k)
  show ?case
  proof (cases "n < 10")
    case True
    then show ?thesis by (subst dec_digits.simps) simp
  next
    case False
    then have "k \<noteq> 0" using Suc.prems by (cases k) auto
    moreover have "n div 10 < 10 ^ k" using Suc.prems(1) by (simp add: less_mult_imp_div_less mult.commute)
    ultimately have "length (dec_digits (n div 10)) \<le> k" using Suc.IH by blast
    with False show ?thesis by (subst dec_digits.simps) simp
  qed
qed simp

lemma clamp64_id [simp]: "- (2 ^ 63) \<le> i \<Longrightarrow> i < 2 ^ 63 \<Longrightarrow> clamp64 i = i"
  by (simp add: clamp64_def)

lemma wrap32_id [simp]: "- (2 ^ 31) \<le> i \<Longrightarrow> i < 2 ^ 31 \<Longrightarrow> wrap32 i = i"
  by (simp add: wrap32_def)

lemma wrap32_range: "- (2 ^ 31) \<le> wrap32 i" "wrap32 i < 2 ^ 31"
  by (simp_all add: wrap32_def)

lemma strtol_digits:
  assumes "\<And>c. c \<in> set ds \<Longrightarrow> isdigit c" "ds \<noteq> []" "\<not> isdigit (peek r)"
  shows "strtol (ds @ r) = (clamp64 (int (dec_val ds)), r)"
    and "strtol (CHR ''-'' # ds @ r) = (clamp64 (- int (dec_val ds)), r)"
proof -
  have ns: "\<not> isspace c" "c \<noteq> CHR ''-''" "c \<noteq> CHR ''+''" if "isdigit c" for c
    using that by (auto simp: ctype_simps)
  have minus: "\<not> isspace (CHR ''-'')" by (simp add: ctype_simps)
  have dr: "takeWhile isdigit (ds @ r) = ds" "dropWhile isdigit (ds @ r) = r"
    using assms(1,3) by (cases r; simp add: takeWhile_append2 dropWhile_append2)+
  obtain d ds' where d: "ds = d # ds'" using assms(2) by (cases ds) auto
  then have "isdigit d" using assms(1) by simp
  with d ns dr assms(2) show "strtol (ds @ r) = (clamp64 (int (dec_val ds)), r)"
    by (simp add: strtol_def strtol_sign_def)
  from dr minus assms(2) show "strtol (CHR ''-'' # ds @ r) = (clamp64 (- int (dec_val ds)), r)"
    by (simp add: strtol_def strtol_sign_def)
qed

text \<open>Printing an \<open>int\<close> with \<open>%010d\<close> and reading it back with \<open>atoi\<close> is the identity,
  and the text is ten characters wide whenever the value has at most ten digits
  (nine and a sign).\<close>

lemma atoi_fmt_010d:
  assumes "- (2 ^ 31) \<le> i" and "i < 2 ^ 31" and "\<not> isdigit (peek r)"
  shows "atoi (fmt_010d i @ r) = i"
proof (cases "i < 0")
  case True
  let ?ds = "pad0 9 (dec_digits (nat (- i)))"
  have "strtol (CHR ''-'' # ?ds @ r) = (clamp64 (- int (dec_val ?ds)), r)"
    using assms(3) by (intro strtol_digits) (auto simp: pad0_def dest: isdigit_dec_digits simp: ctype_simps)
  with True assms show ?thesis
    by (simp add: atoi_def fmt_010d_def pad0_def dec_val_zeros)
next
  case False
  let ?ds = "pad0 10 (dec_digits (nat i))"
  have "strtol (?ds @ r) = (clamp64 (int (dec_val ?ds)), r)"
    using assms(3) by (intro strtol_digits) (auto simp: pad0_def dest: isdigit_dec_digits simp: ctype_simps)
  with False assms show ?thesis
    by (simp add: atoi_def fmt_010d_def pad0_def dec_val_zeros)
qed

lemma length_fmt_010d:
  assumes "- (10 ^ 9) < i" and "i < 10 ^ 10"
  shows "length (fmt_010d i) = 10"
proof (cases "i < 0")
  case True
  then have "nat (- i) < 10 ^ 9" using assms(1) by (simp add: nat_less_iff)
  then have "length (dec_digits (nat (- i))) \<le> 9" by (intro length_dec_digits) auto
  with True show ?thesis by (simp add: fmt_010d_def pad0_def)
next
  case False
  then have "nat i < 10 ^ 10" using assms(2) by (simp add: nat_less_iff)
  then have "length (dec_digits (nat i)) \<le> 10" by (intro length_dec_digits) auto
  with False show ?thesis by (simp add: fmt_010d_def pad0_def)
qed

lemma fmt_010d_chars: "c \<in> set (fmt_010d i) \<Longrightarrow> isdigit c \<or> c = CHR ''-''"
  by (auto simp: fmt_010d_def pad0_def ctype_simps split: if_splits dest: isdigit_dec_digits)

text \<open>The parsers test \<open>*cp == '\0'\<close> after skipping blanks; the test is kept as it is.\<close>

declare dropWhile_eq_Nil_conv [simp del]

end
