(* ===== verification/Htx_Err.thy ===== *)
theory Htx_Err
  imports Htx_Prelude
begin

text \<open>
  The \<open>struct htx_data\<close> an exerciser shares with the HTX library
  (\<open>inc/hxihtx.h\<close>), and the error reporting of \<open>lib/gr64\<close>: \<open>strlencpy\<close>,
  \<open>htx_err\<close> and \<open>sys_err\<close>. A variable argument list is a list of \<open>va\<close> values;
  pulling an argument at the wrong type is undefined, hence \<open>None\<close>. The texts handed
  to \<open>hxfmsg\<close> are collected in a list, newest last.
\<close>

type_synonym u64 = "64 word"
type_synonym u16 = "16 word"

record htx_data =
  sdev_id :: string
  run_type :: string
  bad_others :: u64
  bad_reads :: u64
  bad_writes :: u64
  bytes_read :: u64
  bytes_writ :: u64
  good_others :: u64
  good_reads :: u64
  good_writes :: u64
  num_instructions :: u64
  error_code :: int
  loc_code :: string
  serial_no :: string
  part_no :: string
  dev_desc :: string
  fru_no :: string
  severity_code :: int
  HE_name :: string
  msg_text :: string
  miscompare_count :: u16
  test_id :: u16
  hotplug_cpu :: int
  hotplug_mem :: int
  hotplug_io :: int

text \<open>The structure after \<open>memset (&data, 0, sizeof (data))\<close>.\<close>

definition zero_htx_data :: htx_data where
  "zero_htx_data = \<lparr>sdev_id = [], run_type = [], bad_others = 0, bad_reads = 0, bad_writes = 0,
     bytes_read = 0, bytes_writ = 0, good_others = 0, good_reads = 0, good_writes = 0,
     num_instructions = 0, error_code = 0, loc_code = [], serial_no = [], part_no = [],
     dev_desc = [], fru_no = [], severity_code = 0, HE_name = [], msg_text = [],
     miscompare_count = 0, test_id = 0, hotplug_cpu = 0, hotplug_mem = 0, hotplug_io = 0\<rparr>"

text \<open>\<open>inc/sevcodes.h\<close>.\<close>

abbreviation (input) NO_ERRNO :: int where "NO_ERRNO \<equiv> 0"
abbreviation (input) SYSERR :: int where "SYSERR \<equiv> 0"
abbreviation (input) SOFTERR :: int where "SOFTERR \<equiv> 4"

text \<open>\<open>lib/gr64/htx_exer.h\<close>.\<close>

abbreviation (input) HTX_MSG_LEN :: nat where "HTX_MSG_LEN \<equiv> 219"

definition strlencpy :: "cstring \<Rightarrow> nat \<Rightarrow> cstring" where
  "strlencpy source n_chars = take n_chars source"

subsection \<open>Variable argument lists and \<open>vsprintf\<close>\<close>

datatype va = VaHtx | VaInt int | VaStr string

fun vsprintf :: "string \<Rightarrow> va list \<Rightarrow> string fault" where
  "vsprintf [] as = Some []"
| "vsprintf (f # fs) as =
     (if f \<noteq> CHR ''%'' then map_option (Cons f) (vsprintf fs as)
      else case fs of
          [] \<Rightarrow> None
        | d # fs' \<Rightarrow>
            (case as of
               [] \<Rightarrow> None
             | VaStr s # as' \<Rightarrow>
                 (if d = CHR ''s'' then map_option (append s) (vsprintf fs' as') else None)
             | VaInt i # as' \<Rightarrow>
                 (if d = CHR ''d'' then map_option (append (show_int (wrap32 i))) (vsprintf fs' as')
                  else None)
             | VaHtx # as' \<Rightarrow> None))"

subsection \<open>\<open>htx_err\<close> and \<open>sys_err\<close>\<close>

type_synonym hmsg = "int \<times> int \<times> string"
type_synonym rep = "htx_data \<times> hmsg list"

text \<open>\<open>htx_err (num_args, ...)\<close>: the arguments after \<open>num_args\<close>. The text buffer holds
  \<open>HTX_MSG_LEN\<close> characters.\<close>

definition htx_err :: "va list \<Rightarrow> rep \<Rightarrow> rep fault" where
  "htx_err args rep =
     (case args of
        VaHtx # VaInt e # VaInt sev # VaStr fmt # rest \<Rightarrow>
          do { sbuf \<leftarrow> vsprintf fmt rest;
               if length sbuf \<le> HTX_MSG_LEN
               then Some ((fst rep)\<lparr>error_code := e, severity_code := sev,
                            msg_text := strlencpy sbuf HTX_MSG_LEN\<rparr>,
                          snd rep @ [(e, sev, sbuf)])
               else None }
      | _ \<Rightarrow> None)"

text \<open>The call \<open>htx_err (n, htx_sp, NO_ERRNO, SOFTERR, fmt, ...)\<close> all of
  \<open>pro_rdt.c\<close> makes.\<close>

definition soft_err :: "string \<Rightarrow> va list \<Rightarrow> rep \<Rightarrow> rep fault" where
  "soft_err fmt args rep = htx_err (VaHtx # VaInt NO_ERRNO # VaInt SOFTERR # VaStr fmt # args) rep"

text \<open>\<open>sys_err\<close>: \<open>sys_errlist\<close> is a local array that nothing initialises, so the text of
  an \<open>errno\<close> in range is an indeterminate pointer.\<close>

definition sys_err :: "int \<Rightarrow> int \<Rightarrow> rep \<Rightarrow> rep fault" where
  "sys_err sys_nerr err rep =
     (if 0 < err \<and> err < sys_nerr then None
      else htx_err [VaHtx, VaInt err, VaInt SYSERR, VaStr ''Undefined errno.''] rep)"

subsection \<open>What a report leaves behind\<close>

lemma htx_err_SomeD:
  assumes "htx_err args rep = Some rep'"
  obtains e sev fmt rest t where
    "args = VaHtx # VaInt e # VaInt sev # VaStr fmt # rest" "vsprintf fmt rest = Some t"
    "length t \<le> HTX_MSG_LEN"
    "rep' = ((fst rep)\<lparr>error_code := e, severity_code := sev, msg_text := t\<rparr>,
             snd rep @ [(e, sev, t)])"
  using assms
  by (auto simp: htx_err_def strlencpy_def split: list.splits va.splits bind_splits if_splits)

lemma vsprintf_no_percent: "CHR ''%'' \<notin> set f \<Longrightarrow> vsprintf f as = Some f"
  by (induction f) auto

end
