(* ===== verification/Rule_Def.thy ===== *)
theory Rule_Def
  imports Htx_Err
begin

text \<open>
  The rule definition table of an exerciser and the domain of legal values each entry
  describes (\<open>lib/gr64/pro_rdt.c\<close>, with \<open>check_long\<close> of \<open>lib/gr64/getrule.c\<close>).
  A value list is a comma separated list of values and ranges; \<open>next_arg\<close> cuts one
  element off, \<open>chk_arg\<close> parses it, \<open>chk_rdt_syntax\<close> checks a whole table and
  \<open>validate_value\<close> decides whether a value read from a rule file is legal.
  The table is a list; an entry with an empty keyword ends it, as the sentinel does.
\<close>

abbreviation (input) MAX_KEYWORD_LEN :: nat where "MAX_KEYWORD_LEN \<equiv> 14"
abbreviation (input) MAX_KEYVAL_LEN :: nat where "MAX_KEYVAL_LEN \<equiv> 78"
abbreviation (input) RSTRING_TYPE :: int where "RSTRING_TYPE \<equiv> 0"
abbreviation (input) RLONG_TYPE :: int where "RLONG_TYPE \<equiv> 1"
abbreviation (input) RANGE_DELIM :: char where "RANGE_DELIM \<equiv> CHR ''-''"

record rule_def =
  keyword :: cstring
  data_type :: int
  rlen :: int
  value_list :: cstring

text \<open>The format strings of the reports.\<close>

definition hyphen_fmt :: string where
  "hyphen_fmt = ''Illegal string <%s> in rule_def_table\<newline>for keyword %s.  Hyphen not allowed.''"

definition too_long_fmt :: string where
  "too_long_fmt = ''Value string <%s> too long in rule_def_table\<newline>for keyword %s (max = %d).''"

definition bad_long_fmt :: string where
  "bad_long_fmt = ''Illegal long <%s> in rule_def_table for keyword %s.''"

definition bad_type_fmt :: string where
  "bad_type_fmt = ''Illegal data_type %d in chk_a_value for keyword %s.''"

definition syntax_fmt :: string where
  "syntax_fmt = ''Syntax error in rule_def_table after value <%s>\<newline>for keyword %s.''"

definition syntax_why_fmt :: string where
  "syntax_why_fmt = ''Syntax error in rule_def_table after value <%s>\<newline>for keyword %s.\<newline>%s''"

definition string_range_fmt :: string where
  "string_range_fmt = ''Illegal range in rule_def_table for keyword %s.\<newline>%s > %s.''"

definition long_range_fmt :: string where
  "long_range_fmt = ''Illegal range in rule_def_table for keyword %s.\<newline>%d (string: %s) > %d (string: %s).''"

definition validate_type_fmt :: string where
  "validate_type_fmt = ''Illegal data_type %d in validate_value for keyword %s.''"

definition no_range_end :: string where
  "no_range_end = ''Missing range end value.''"

definition extra_delim :: string where
  "extra_delim = ''Encountered range delimiter after second value.''"

subsection \<open>Cutting a value list\<close>

definition next_arg :: "cstring \<Rightarrow> (cstring \<times> cstring) option" where
  "next_arg list_remainder =
     (let cp = dropWhile (\<lambda>c. isspace c \<or> c = CHR '','') list_remainder
      in if cp = [] then None
         else Some (takeWhile (\<lambda>c. c \<noteq> CHR '','') cp, dropWhile (\<lambda>c. c \<noteq> CHR '','') cp))"

text \<open>The callers copy the argument into \<open>char arg[2*MAX_KEYVAL_LEN+1]\<close>.\<close>

definition arg_buf :: "cstring \<Rightarrow> cstring fault" where
  "arg_buf arg = (if length arg \<le> 2 * MAX_KEYVAL_LEN then Some arg else None)"

lemma next_arg_shorter: "next_arg vl = Some (arg, r) \<Longrightarrow> length r < length vl"
proof -
  assume a: "next_arg vl = Some (arg, r)"
  let ?cp = "dropWhile (\<lambda>c. isspace c \<or> c = CHR '','') vl"
  have cp: "?cp \<noteq> []" "r = dropWhile (\<lambda>c. c \<noteq> CHR '','') ?cp"
    using a by (auto simp: next_arg_def Let_def split: if_splits)
  have "hd ?cp \<noteq> CHR '',''" using hd_dropWhile [OF cp(1)] by blast
  then have "length r < length ?cp" unfolding cp(2) by (rule length_dropWhile_less [OF cp(1)])
  also have "\<dots> \<le> length vl" by (rule length_dropWhile_le)
  finally show ?thesis .
qed

subsection \<open>Single values\<close>

definition check_long :: "cstring \<Rightarrow> int \<times> int" where
  "check_long v =
     (let (long_value, ptr) = strtol v
      in if ptr = v \<and> long_value = 0 then (1, long_value)
         else if \<not> isspace (peek ptr) \<and> ptr \<noteq> [] then (1, long_value)
         else (0, long_value))"

text \<open>\<open>*long_p = (double) long_value\<close>: the value is rounded to a 53-bit mantissa, ties to
  even, and converted back; a result of \<open>2 ^ 63\<close> does not fit a \<open>long\<close>.\<close>

definition round_mantissa :: "nat \<Rightarrow> nat" where
  "round_mantissa a =
     (let k = nat (bitlen (int a)) - 53; q = a div 2 ^ k; r = a mod 2 ^ k
      in if 2 * r > 2 ^ k \<or> (2 * r = 2 ^ k \<and> odd q) then Suc q * 2 ^ k else q * 2 ^ k)"

definition long_via_double :: "int \<Rightarrow> int fault" where
  "long_via_double v =
     (let d = sgn v * int (round_mantissa (nat \<bar>v\<bar>)) in if d < 2 ^ 63 then Some d else None)"

text \<open>The result is the return code, the converted value where one was stored, and the
  reports made.\<close>

definition chk_a_value :: "rule_def \<Rightarrow> cstring \<Rightarrow> rep \<Rightarrow> (int \<times> int option \<times> rep) fault" where
  "chk_a_value r v rep =
     (if data_type r = RSTRING_TYPE then
        (if peek v = RANGE_DELIM then
           do { rep \<leftarrow> soft_err hyphen_fmt [VaStr v, VaStr (keyword r), VaInt (rlen r)] rep;
                Some (1, None, rep) }
         else if int (length v) > rlen r mod 2 ^ 64 then
           do { rep \<leftarrow> soft_err too_long_fmt [VaStr v, VaStr (keyword r), VaInt (rlen r)] rep;
                Some (1, None, rep) }
         else Some (0, None, rep))
      else if data_type r = RLONG_TYPE then
        (if fst (check_long v) \<noteq> 0 then
           do { rep \<leftarrow> soft_err bad_long_fmt [VaStr v, VaStr (keyword r)] rep;
                Some (1, None, rep) }
         else do { d \<leftarrow> long_via_double (snd (check_long v)); Some (0, Some d, rep) })
      else
        do { rep \<leftarrow> soft_err bad_type_fmt [VaInt (data_type r), VaStr (keyword r)] rep;
             Some (-1, None, rep) })"

subsection \<open>Values and ranges\<close>

text \<open>The copy loop of \<open>chk_arg\<close>: hyphens before the first other character are unary
  operators, one after it ends the value.\<close>

fun scan_value :: "bool \<Rightarrow> cstring \<Rightarrow> cstring \<times> cstring" where
  "scan_value hit_non_delim [] = ([], [])"
| "scan_value hit_non_delim (c # cp) =
     (if isspace c then ([], c # cp)
      else if c = RANGE_DELIM
           then (if hit_non_delim then ([], c # cp)
                 else let (v, r) = scan_value False cp in (c # v, r))
      else let (v, r) = scan_value True cp in (c # v, r))"

definition value_buf :: "cstring \<Rightarrow> cstring fault" where
  "value_buf v = (if length v \<le> MAX_KEYVAL_LEN then Some v else None)"

text \<open>What \<open>chk_arg\<close> stores through its result pointers when it returns 0: the first
  value as text and number, and the end of the range when there is one (\<open>*v2 = '\0'\<close> is
  \<open>None\<close>). Every other return code is \<open>ChkErr\<close>.\<close>

datatype chk_result = ChkErr | ChkOk cstring int "(cstring \<times> int) option"

definition long_result :: "rule_def \<Rightarrow> int option \<Rightarrow> int" where
  "long_result r n = (if data_type r = RLONG_TYPE then (case n of Some i \<Rightarrow> i | None \<Rightarrow> 0) else 0)"

text \<open>The second half of \<open>chk_arg\<close>, from the range delimiter on.\<close>

definition chk_range_end ::
  "rule_def \<Rightarrow> cstring \<Rightarrow> int option \<Rightarrow> cstring \<Rightarrow> rep \<Rightarrow> (chk_result \<times> rep) fault" where
  "chk_range_end r value1 num_val1 after rep =
     (let cp = dropWhile isspace after in
      if cp = [] then
        do { rep \<leftarrow> soft_err syntax_why_fmt [VaStr value1, VaStr (keyword r), VaStr no_range_end] rep;
             Some (ChkErr, rep) }
      else do {
        let (v, cp) = scan_value False cp;
        value2 \<leftarrow> value_buf v;
        if peek cp = RANGE_DELIM then
          do { rep \<leftarrow> soft_err syntax_why_fmt [VaStr value2, VaStr (keyword r),
                 VaStr extra_delim] rep;
               Some (ChkErr, rep) }
        else do {
          let cp = dropWhile isspace cp;
          if peek cp \<noteq> CHR '','' \<and> cp \<noteq> [] then
            do { rep \<leftarrow> soft_err syntax_fmt [VaStr value2, VaStr (keyword r)] rep;
                 Some (ChkErr, rep) }
          else do {
            (rc, num_val2, rep) \<leftarrow> chk_a_value r value2 rep;
            if rc \<noteq> 0 then Some (ChkErr, rep)
            else if data_type r = RSTRING_TYPE then
              (if strcmp value1 value2 > 0 then
                 do { rep \<leftarrow> soft_err string_range_fmt [VaStr (keyword r), VaStr value1, VaStr value2] rep;
                      Some (ChkErr, rep) }
               else Some (ChkOk value1 (long_result r num_val1)
                            (Some (value2, long_result r num_val2)), rep))
            else
              (if long_result r num_val1 > long_result r num_val2 then
                 do { rep \<leftarrow> soft_err long_range_fmt [VaStr (keyword r), VaInt (long_result r num_val1), VaStr value1,
                        VaInt (long_result r num_val2), VaStr value2] rep;
                      Some (ChkErr, rep) }
               else Some (ChkOk value1 (long_result r num_val1)
                            (Some (value2, long_result r num_val2)), rep)) } } })"

definition chk_arg :: "rule_def \<Rightarrow> cstring \<Rightarrow> rep \<Rightarrow> (chk_result \<times> rep) fault" where
  "chk_arg r arg rep =
     do { let (v, cp) = scan_value False arg;
          value1 \<leftarrow> value_buf v;
          (rc, num_val1, rep) \<leftarrow> chk_a_value r value1 rep;
          if rc \<noteq> 0 then Some (ChkErr, rep)
          else
            (let cp = dropWhile isspace cp in
             if cp = [] then Some (ChkOk value1 (long_result r num_val1) None, rep)
             else if peek cp \<noteq> RANGE_DELIM then
               do { rep \<leftarrow> soft_err syntax_fmt [VaStr value1, VaStr (keyword r)] rep;
                    Some (ChkErr, rep) }
             else chk_range_end r value1 num_val1 (tl cp) rep) }"

subsection \<open>Whole tables\<close>

text \<open>The loop over the elements of one value list.\<close>

function chk_value_list :: "rule_def \<Rightarrow> cstring \<Rightarrow> rep \<Rightarrow> (int \<times> rep) fault" where
  "chk_value_list r vlp rep =
     (case next_arg vlp of
        None \<Rightarrow> Some (0, rep)
      | Some (a, vlp') \<Rightarrow>
          do { arg \<leftarrow> arg_buf a;
               (res, rep) \<leftarrow> chk_arg r arg rep;
               case res of ChkErr \<Rightarrow> Some (1, rep) | ChkOk _ _ _ \<Rightarrow> chk_value_list r vlp' rep })"
  by pat_completeness auto
termination
  by (relation "measure (\<lambda>(r, vlp, rep). length vlp)") (auto dest: next_arg_shorter)

declare chk_value_list.simps [simp del]

fun chk_rdt_syntax :: "rule_def list \<Rightarrow> rep \<Rightarrow> (int \<times> rep) fault" where
  "chk_rdt_syntax [] rep = Some (0, rep)"
| "chk_rdt_syntax (r # rs) rep =
     (if keyword r = [] then Some (0, rep)
      else do { (rc, rep) \<leftarrow> chk_value_list r (value_list r) rep;
                if rc \<noteq> 0 then Some (1, rep) else chk_rdt_syntax rs rep })"

subsection \<open>Deciding whether a value is legal\<close>

text \<open>The two comparisons of \<open>validate_value\<close> for the element just parsed.\<close>

definition string_matches :: "cstring \<Rightarrow> (cstring \<times> int) option \<Rightarrow> cstring \<Rightarrow> bool" where
  "string_matches v1 v2 v =
     (case v2 of
        None \<Rightarrow> strcmp v1 v = 0
      | Some (s2, _) \<Rightarrow> strcmp v1 v \<le> 0 \<and> strcmp v s2 \<le> 0)"

definition long_matches :: "int \<Rightarrow> (cstring \<times> int) option \<Rightarrow> int \<Rightarrow> bool" where
  "long_matches l1 v2 lvalue =
     (case v2 of None \<Rightarrow> l1 = lvalue | Some (_, l2) \<Rightarrow> l1 \<le> lvalue \<and> lvalue \<le> l2)"

function validate_loop ::
  "rule_def \<Rightarrow> cstring \<Rightarrow> int \<Rightarrow> cstring \<Rightarrow> rep \<Rightarrow> (int \<times> rep) fault" where
  "validate_loop r v lvalue vlp rep =
     (case next_arg vlp of
        None \<Rightarrow> Some (1, rep)
      | Some (a, vlp') \<Rightarrow>
          do { arg \<leftarrow> arg_buf a;
               (res, rep) \<leftarrow> chk_arg r arg rep;
               case res of
                 ChkErr \<Rightarrow> Some (1, rep)
               | ChkOk v1 l1 v2 \<Rightarrow>
                   (if data_type r = RSTRING_TYPE then
                      (if string_matches v1 v2 v then Some (0, rep)
                       else validate_loop r v lvalue vlp' rep)
                    else if data_type r = RLONG_TYPE then
                      (if long_matches l1 v2 lvalue then Some (0, rep)
                       else validate_loop r v lvalue vlp' rep)
                    else
                      do { rep \<leftarrow> soft_err validate_type_fmt [VaInt (data_type r), VaStr (keyword r)] rep;
                           Some (-1, rep) }) })"
  by pat_completeness auto
termination
  by (relation "measure (\<lambda>(r, v, l, vlp, rep). length vlp)") (auto dest: next_arg_shorter)

declare validate_loop.simps [simp del]

definition validate_value :: "rule_def \<Rightarrow> cstring \<Rightarrow> int \<Rightarrow> rep \<Rightarrow> (int \<times> rep) fault" where
  "validate_value master_ptr v lvalue rep = validate_loop master_ptr v lvalue (value_list master_ptr) rep"


subsection \<open>The elements of a value list\<close>

text \<open>The arguments the loops see, and their description as a comma split.\<close>

function value_args :: "cstring \<Rightarrow> cstring list" where
  "value_args vlp =
     (case next_arg vlp of None \<Rightarrow> [] | Some (a, vlp') \<Rightarrow> a # value_args vlp')"
  by pat_completeness auto
termination
  by (relation "measure length") (auto dest: next_arg_shorter)

declare value_args.simps [simp del]

fun comma_split :: "cstring \<Rightarrow> cstring list" where
  "comma_split [] = [[]]"
| "comma_split (c # s) =
     (if c = CHR '','' then [] # comma_split s
      else (c # hd (comma_split s)) # tl (comma_split s))"

definition join :: "cstring list \<Rightarrow> cstring" where
  "join xs = (case xs of [] \<Rightarrow> [] | y # ys \<Rightarrow> y @ concat (map (Cons (CHR '','')) ys))"

lemma comma_not_space [simp]: "\<not> isspace (CHR '','')"
  by (simp add: ctype_simps)

lemma next_arg_skip: "isspace c \<or> c = CHR '','' \<Longrightarrow> next_arg (c # s) = next_arg s"
  by (auto simp: next_arg_def)

lemma value_args_skip: "isspace c \<or> c = CHR '','' \<Longrightarrow> value_args (c # s) = value_args s"
  by (simp add: value_args.simps next_arg_skip)

lemma value_args_Nil [simp]: "value_args [] = []"
  by (simp add: value_args.simps next_arg_def)

lemma value_args_take:
  assumes "\<not> isspace c" "c \<noteq> CHR '',''"
  shows "value_args (c # s) =
    (c # takeWhile (\<lambda>c. c \<noteq> CHR '','') s) # value_args (dropWhile (\<lambda>c. c \<noteq> CHR '','') s)"
  using assms by (subst value_args.simps) (simp add: next_arg_def)

lemma comma_split_nonempty [simp]: "comma_split s \<noteq> []"
  by (cases s) simp_all

lemma comma_split_hd: "hd (comma_split s) = takeWhile (\<lambda>c. c \<noteq> CHR '','') s"
  by (induction s) auto

lemma comma_split_tl:
  "tl (comma_split s) =
     (case dropWhile (\<lambda>c. c \<noteq> CHR '','') s of [] \<Rightarrow> [] | _ # r \<Rightarrow> comma_split r)"
  by (induction s) auto

lemma value_args_split:
  "value_args s = filter (\<lambda>a. a \<noteq> []) (map (dropWhile isspace) (comma_split s))"
proof (induction "length s" arbitrary: s rule: less_induct)
  case less
  show ?case
  proof (cases s)
    case (Cons c t)
    let ?d = "dropWhile (\<lambda>c. c \<noteq> CHR '','') t"
    consider "c = CHR '',''" | "isspace c" "c \<noteq> CHR '',''" | "\<not> isspace c" "c \<noteq> CHR '',''"
      by blast
    then show ?thesis
    proof cases
      case 1
      then show ?thesis using less [of t] Cons by (simp add: value_args_skip)
    next
      case 2
      then show ?thesis using less [of t] Cons
        by (cases "comma_split t") (simp_all add: value_args_skip)
    next
      case 3
      have "length ?d < length s" using Cons by (simp add: le_imp_less_Suc length_dropWhile_le)
      then have "value_args ?d = filter (\<lambda>a. a \<noteq> []) (map (dropWhile isspace) (comma_split ?d))"
        by (rule less)
      moreover have "?d = [] \<or> hd ?d = CHR '',''"
        using hd_dropWhile [of "\<lambda>c. c \<noteq> CHR '',''" t] by blast
      moreover have "comma_split s = (c # takeWhile (\<lambda>c. c \<noteq> CHR '','') t) #
          (case ?d of [] \<Rightarrow> [] | _ # r \<Rightarrow> comma_split r)"
        using 3(2) Cons by (simp only: comma_split.simps if_False comma_split_hd comma_split_tl)
      moreover have "value_args s = (c # takeWhile (\<lambda>c. c \<noteq> CHR '','') t) # value_args ?d"
        using value_args_take [OF 3] Cons by simp
      ultimately show ?thesis using 3(1) by (cases ?d) simp_all
    qed
  qed simp
qed

subsection \<open>Parsing one element\<close>

lemma chk_a_value_ok:
  assumes "chk_a_value r v rep = Some (0, n, rep')"
  shows "rep' = rep \<and> chk_a_value r v rep2 = Some (0, n, rep2)"
proof (cases "data_type r = RLONG_TYPE")
  case True
  with assms show ?thesis
    by (auto simp: chk_a_value_def bind_eq_Some_conv split: if_splits)
next
  case False
  with assms show ?thesis
    by (auto simp: chk_a_value_def bind_eq_Some_conv split: if_splits)
qed

lemma chk_range_end_okD:
  assumes "chk_range_end r v1 n1 after rep = Some (ChkOk a b c, rep')"
  obtains v cp n2 where
    "scan_value False (dropWhile isspace after) = (v, cp)" "dropWhile isspace after \<noteq> []"
    "length v \<le> MAX_KEYVAL_LEN" "peek cp \<noteq> RANGE_DELIM"
    "dropWhile isspace cp = [] \<or> peek (dropWhile isspace cp) = CHR '',''"
    "chk_a_value r v rep = Some (0, n2, rep)"
    "if data_type r = RSTRING_TYPE then strcmp v1 v \<le> 0 else long_result r n1 \<le> long_result r n2"
    "a = v1" "b = long_result r n1" "c = Some (v, long_result r n2)" "rep' = rep"
proof -
  obtain v cp where sv: "scan_value False (dropWhile isspace after) = (v, cp)" by fastforce
  note a = assms [unfolded chk_range_end_def Let_def sv prod.case]
  have ne: "dropWhile isspace after \<noteq> []"
    using a by (auto simp: bind_eq_Some_conv split: if_splits)
  note a = a [unfolded if_not_P [OF ne]]
  have vb: "length v \<le> MAX_KEYVAL_LEN"
    using a by (auto simp: value_buf_def bind_eq_Some_conv split: if_splits)
  then have vb': "value_buf v = Some v" by (simp add: value_buf_def)
  note a = a [unfolded vb' bind.bind_lunit]
  have nd: "peek cp \<noteq> RANGE_DELIM"
    using a by (auto simp: bind_eq_Some_conv split: if_splits)
  note a = a [unfolded if_not_P [OF nd]]
  have cm: "\<not> (peek (dropWhile isspace cp) \<noteq> CHR '','' \<and> dropWhile isspace cp \<noteq> [])"
    using a by (auto simp: bind_eq_Some_conv simp del: not_imp split: if_splits)
  note a = a [unfolded if_not_P [OF cm]]
  obtain rc n2 rep1 where c: "chk_a_value r v rep = Some (rc, n2, rep1)" and rc: "rc = 0"
    using a by (fastforce simp: bind_eq_Some_conv split: if_splits)
  have r1: "rep1 = rep" using chk_a_value_ok [of r v rep n2 rep1 rep] c rc by simp
  note a = a [unfolded c rc r1 bind.bind_lunit prod.case]
  show thesis
    by (rule that [OF sv ne vb nd])
      (use cm c rc r1 a in \<open>auto simp: bind_eq_Some_conv split: if_splits\<close>)
qed

lemma chk_range_end_okI:
  assumes "scan_value False (dropWhile isspace after) = (v, cp)" "dropWhile isspace after \<noteq> []"
    "length v \<le> MAX_KEYVAL_LEN" "peek cp \<noteq> RANGE_DELIM"
    "dropWhile isspace cp = [] \<or> peek (dropWhile isspace cp) = CHR '',''"
    "chk_a_value r v rep = Some (0, n2, rep)"
    "if data_type r = RSTRING_TYPE then strcmp v1 v \<le> 0 else long_result r n1 \<le> long_result r n2"
  shows "chk_range_end r v1 n1 after rep =
    Some (ChkOk v1 (long_result r n1) (Some (v, long_result r n2)), rep)"
  using assms by (auto simp: chk_range_end_def value_buf_def)

lemma chk_arg_okD:
  assumes "chk_arg r arg rep = Some (ChkOk a b c, rep')"
  obtains v cp n1 where
    "scan_value False arg = (v, cp)" "length v \<le> MAX_KEYVAL_LEN"
    "chk_a_value r v rep = Some (0, n1, rep)"
    "if dropWhile isspace cp = [] then a = v \<and> b = long_result r n1 \<and> c = None \<and> rep' = rep
     else peek (dropWhile isspace cp) = RANGE_DELIM \<and>
       chk_range_end r v n1 (tl (dropWhile isspace cp)) rep = Some (ChkOk a b c, rep')"
proof -
  obtain v cp where sv: "scan_value False arg = (v, cp)" by fastforce
  note a = assms [unfolded chk_arg_def Let_def sv prod.case]
  have vb: "length v \<le> MAX_KEYVAL_LEN"
    using a by (auto simp: value_buf_def bind_eq_Some_conv split: if_splits)
  then have vb': "value_buf v = Some v" by (simp add: value_buf_def)
  note a = a [unfolded vb' bind.bind_lunit]
  obtain rc n1 rep1 where c: "chk_a_value r v rep = Some (rc, n1, rep1)" and rc: "rc = 0"
    using a by (fastforce simp: bind_eq_Some_conv split: if_splits)
  have r1: "rep1 = rep" using chk_a_value_ok [of r v rep n1 rep1 rep] c rc by simp
  note a = a [unfolded c rc r1 bind.bind_lunit prod.case]
  show thesis
    by (rule that [OF sv vb]) (use c rc r1 a in \<open>auto simp: bind_eq_Some_conv split: if_splits\<close>)
qed

lemma chk_arg_single:
  assumes "scan_value False arg = (v, cp)" "length v \<le> MAX_KEYVAL_LEN"
    "chk_a_value r v rep = Some (0, n1, rep)" "dropWhile isspace cp = []"
  shows "chk_arg r arg rep = Some (ChkOk v (long_result r n1) None, rep)"
  using assms by (simp add: chk_arg_def value_buf_def)

lemma chk_arg_range:
  assumes "scan_value False arg = (v, cp)" "length v \<le> MAX_KEYVAL_LEN"
    "chk_a_value r v rep = Some (0, n1, rep)" "dropWhile isspace cp = RANGE_DELIM # cp'"
  shows "chk_arg r arg rep = chk_range_end r v n1 cp' rep"
  using assms by (simp add: chk_arg_def value_buf_def)

lemma chk_arg_ok:
  assumes "chk_arg r arg rep = Some (ChkOk a b c, rep')"
  shows "rep' = rep \<and> chk_arg r arg rep2 = Some (ChkOk a b c, rep2)"
  using assms
proof (rule chk_arg_okD)
  fix v cp n1
  assume s: "scan_value False arg = (v, cp)" "length v \<le> MAX_KEYVAL_LEN"
    and c: "chk_a_value r v rep = Some (0, n1, rep)"
    and i: "if dropWhile isspace cp = [] then a = v \<and> b = long_result r n1 \<and> c = None \<and> rep' = rep
      else peek (dropWhile isspace cp) = RANGE_DELIM \<and>
        chk_range_end r v n1 (tl (dropWhile isspace cp)) rep = Some (ChkOk a b c, rep')"
  have c2: "chk_a_value r v rep2 = Some (0, n1, rep2)" using chk_a_value_ok [OF c] by blast
  show ?thesis
  proof (cases "dropWhile isspace cp")
    case Nil
    then show ?thesis using chk_arg_single [OF s c2] i by simp
  next
    case (Cons d cp')
    then have e: "chk_range_end r v n1 cp' rep = Some (ChkOk a b c, rep')" and d: "d = RANGE_DELIM"
      using i by simp_all
    from e have "rep' = rep \<and> chk_range_end r v n1 cp' rep2 = Some (ChkOk a b c, rep2)"
    proof (rule chk_range_end_okD)
      fix v2 cp2 n2
      assume *: "scan_value False (dropWhile isspace cp') = (v2, cp2)" "dropWhile isspace cp' \<noteq> []"
        "length v2 \<le> MAX_KEYVAL_LEN" "peek cp2 \<noteq> RANGE_DELIM"
        "dropWhile isspace cp2 = [] \<or> peek (dropWhile isspace cp2) = CHR '',''"
        and c1: "chk_a_value r v2 rep = Some (0, n2, rep)"
        and o: "if data_type r = RSTRING_TYPE then strcmp v v2 \<le> 0
                else long_result r n1 \<le> long_result r n2"
        and eq: "a = v" "b = long_result r n1" "c = Some (v2, long_result r n2)" "rep' = rep"
      have "chk_a_value r v2 rep2 = Some (0, n2, rep2)" using chk_a_value_ok [OF c1] by blast
      with chk_range_end_okI [OF * _ o] eq show ?thesis by simp
    qed
    then show ?thesis using chk_arg_range [OF s c2] Cons d by simp
  qed
qed

text \<open>A range that parses has its bounds in order.\<close>

lemma chk_arg_ordered:
  assumes "chk_arg r arg rep = Some (ChkOk v1 l1 (Some (v2, l2)), rep')"
  shows "if data_type r = RSTRING_TYPE then strcmp v1 v2 \<le> 0 else l1 \<le> l2"
  using assms by (elim chk_arg_okD) (auto split: if_splits elim!: chk_range_end_okD)

subsection \<open>The domain a value list describes\<close>

definition elem_matches :: "rule_def \<Rightarrow> cstring \<Rightarrow> int \<Rightarrow> cstring \<Rightarrow> bool" where
  "elem_matches r v lvalue arg \<longleftrightarrow>
     (\<exists>v1 l1 v2. (\<forall>rep. chk_arg r arg rep = Some (ChkOk v1 l1 v2, rep)) \<and>
       (if data_type r = RSTRING_TYPE then string_matches v1 v2 v else long_matches l1 v2 lvalue))"

definition legal_value :: "rule_def \<Rightarrow> cstring \<Rightarrow> int \<Rightarrow> bool" where
  "legal_value r v lvalue \<longleftrightarrow> (\<exists>arg \<in> set (value_args (value_list r)). elem_matches r v lvalue arg)"

lemma elem_matchesI:
  assumes "chk_arg r arg rep = Some (ChkOk v1 l1 v2, rep)"
  shows "elem_matches r v lvalue arg \<longleftrightarrow>
    (if data_type r = RSTRING_TYPE then string_matches v1 v2 v else long_matches l1 v2 lvalue)"
proof -
  have "\<forall>rep. chk_arg r arg rep = Some (ChkOk v1 l1 v2, rep)"
    using chk_arg_ok [OF assms] by blast
  then show ?thesis by (auto simp: elem_matches_def)
qed

lemma chk_value_list_okD:
  assumes "chk_value_list r vlp rep = Some (0, rep')" "next_arg vlp = Some (a, vlp')"
  shows "\<exists>v1 l1 v2. arg_buf a = Some a \<and> (\<forall>rep. chk_arg r a rep = Some (ChkOk v1 l1 v2, rep)) \<and>
    chk_value_list r vlp' rep = Some (0, rep')"
proof -
  have ab: "arg_buf a = Some a"
    using assms by (auto simp: chk_value_list.simps [of r vlp] arg_buf_def split: if_splits)
  obtain res rep1 where c: "chk_arg r a rep = Some (res, rep1)"
    and res: "(case res of ChkErr \<Rightarrow> Some (1, rep1) | ChkOk _ _ _ \<Rightarrow> chk_value_list r vlp' rep1) =
      Some (0, rep')"
    using assms ab by (auto simp: chk_value_list.simps [of r vlp] bind_eq_Some_conv)
  obtain v1 l1 v2 where r: "res = ChkOk v1 l1 v2" using res by (cases res) auto
  note c = c [unfolded r]
  have rest: "chk_value_list r vlp' rep1 = Some (0, rep')" using res r by simp
  have "rep1 = rep" "\<forall>rep. chk_arg r a rep = Some (ChkOk v1 l1 v2, rep)"
    using chk_arg_ok [OF c] by blast+
  with ab rest show ?thesis by blast
qed

lemma chk_a_value_type: "chk_a_value r v rep = Some (0, n, rep') \<Longrightarrow> data_type r \<in> {RSTRING_TYPE, RLONG_TYPE}"
  by (auto simp: chk_a_value_def bind_eq_Some_conv split: if_splits)

lemma validate_loop_decides:
  assumes "chk_value_list r vlp rep = Some (0, rep')"
  shows "validate_loop r v lvalue vlp rep2 =
    Some (if \<exists>arg \<in> set (value_args vlp). elem_matches r v lvalue arg then 0 else 1, rep2)"
  using assms
proof (induction "length vlp" arbitrary: vlp rule: less_induct)
  case less
  show ?case
  proof (cases "next_arg vlp")
    case None
    then show ?thesis by (simp add: validate_loop.simps [of r v lvalue vlp] value_args.simps [of vlp])
  next
    case (Some p)
    obtain a vlp' where p: "p = (a, vlp')" by fastforce
    note na = Some [unfolded p]
    obtain v1 l1 v2 where ab: "arg_buf a = Some a"
      and c: "\<And>rep. chk_arg r a rep = Some (ChkOk v1 l1 v2, rep)"
      and rest: "chk_value_list r vlp' rep = Some (0, rep')"
      using chk_value_list_okD [OF less.prems na] by auto
    have ty: "data_type r \<in> {RSTRING_TYPE, RLONG_TYPE}"
      using c [of rep] by (elim chk_arg_okD) (rule chk_a_value_type)
    have va: "value_args vlp = a # value_args vlp'" by (simp add: value_args.simps [of vlp] na)
    note IH = less.hyps [OF next_arg_shorter [OF na] rest]
    show ?thesis using ty IH elem_matchesI [OF c]
      by (auto simp: validate_loop.simps [of r v lvalue vlp] na ab c va)
  qed
qed

subsection \<open>Value lists of numbers\<close>

text \<open>A list of integers and integer ranges, written with blanks \<open>ws\<close> around every token.\<close>

datatype elem = Single int | Range int int

fun show_elem :: "cstring \<Rightarrow> elem \<Rightarrow> cstring" where
  "show_elem ws (Single a) = show_int a @ ws"
| "show_elem ws (Range a b) = show_int a @ ws @ RANGE_DELIM # ws @ show_int b @ ws"

fun elem_mem :: "int \<Rightarrow> elem \<Rightarrow> bool" where
  "elem_mem i (Single a) \<longleftrightarrow> i = a"
| "elem_mem i (Range a b) \<longleftrightarrow> a \<le> i \<and> i \<le> b"

fun elem_ok :: "elem \<Rightarrow> bool" where
  "elem_ok (Single a) \<longleftrightarrow> \<bar>a\<bar> < 2 ^ 53"
| "elem_ok (Range a b) \<longleftrightarrow> \<bar>a\<bar> < 2 ^ 53 \<and> \<bar>b\<bar> < 2 ^ 53 \<and> a \<le> b"

definition show_elems :: "cstring \<Rightarrow> elem list \<Rightarrow> cstring" where
  "show_elems ws es = join (map (\<lambda>e. ws @ show_elem ws e) es)"

lemma show_int_chars: "c \<in> set (show_int i) \<Longrightarrow> isdigit c \<or> c = RANGE_DELIM"
  by (auto simp: show_int_def dest: isdigit_dec_digits split: if_splits)

lemma digit_char_cases: "isdigit c \<Longrightarrow> \<not> isspace c \<and> c \<noteq> RANGE_DELIM \<and> c \<noteq> CHR '',''"
  by (auto simp: ctype_simps)

lemma check_long_show_int:
  assumes "\<bar>i\<bar> < 2 ^ 53"
  shows "check_long (show_int i) = (0, i)"
proof -
  have "strtol (show_int i @ []) = (i, [])"
  proof (cases "i < 0")
    case True
    have "strtol (CHR ''-'' # dec_digits (nat (- i)) @ []) = (clamp64 (- int (dec_val (dec_digits (nat (- i))))), [])"
      by (rule strtol_digits(2)) (auto dest: isdigit_dec_digits simp: ctype_simps)
    with True assms show ?thesis by (simp add: show_int_def)
  next
    case False
    have "strtol (dec_digits (nat i) @ []) = (clamp64 (int (dec_val (dec_digits (nat i)))), [])"
      by (rule strtol_digits(1)) (auto dest: isdigit_dec_digits simp: ctype_simps)
    with False assms show ?thesis by (simp add: show_int_def)
  qed
  moreover have "show_int i \<noteq> []" by (simp add: show_int_def)
  ultimately show ?thesis by (simp add: check_long_def)
qed

text \<open>Below \<open>2 ^ 53\<close> the passage through \<open>double\<close> is the identity.\<close>

lemma long_via_double_small:
  assumes "\<bar>v\<bar> < 2 ^ 53"
  shows "long_via_double v = Some v"
proof -
  have "bitlen (int (nat \<bar>v\<bar>)) \<le> 53" using assms by (simp add: bitlen_le_iff_power)
  then have "round_mantissa (nat \<bar>v\<bar>) = nat \<bar>v\<bar>" by (simp add: round_mantissa_def)
  with assms show ?thesis by (simp add: long_via_double_def sgn_mult_abs)
qed

lemma chk_a_value_show_int:
  assumes "data_type r = RLONG_TYPE" "\<bar>i\<bar> < 2 ^ 53"
  shows "chk_a_value r (show_int i) rep = Some (0, Some i, rep)"
  using assms by (simp add: chk_a_value_def check_long_show_int long_via_double_small)

lemma length_show_int: "\<bar>i\<bar> < 2 ^ 53 \<Longrightarrow> length (show_int i) \<le> 17"
proof -
  assume a: "\<bar>i\<bar> < 2 ^ 53"
  have "nat \<bar>i\<bar> < 10 ^ 16" using a by simp
  then have "length (dec_digits (nat \<bar>i\<bar>)) \<le> 16" by (intro length_dec_digits) auto
  then show ?thesis by (cases "i < 0") (auto simp: show_int_def)
qed

lemma scan_value_digits:
  assumes "\<forall>c \<in> set ds. isdigit c" "r = [] \<or> isspace (peek r) \<or> peek r = RANGE_DELIM"
  shows "scan_value True (ds @ r) = (ds, r)"
  using assms
proof (induction ds)
  case Nil
  then show ?case by (cases r) auto
next
  case (Cons d ds)
  then show ?case using digit_char_cases [of d] by simp
qed

lemma scan_value_show_int:
  assumes "r = [] \<or> isspace (peek r) \<or> peek r = RANGE_DELIM"
  shows "scan_value False (show_int i @ r) = (show_int i, r)"
proof -
  have dd: "scan_value False (dec_digits n @ r) = (dec_digits n, r)" for n
  proof (cases "dec_digits n")
    case (Cons d ds)
    then have d: "isdigit d" "\<forall>c \<in> set ds. isdigit c"
      using isdigit_dec_digits [of _ n] by auto
    with scan_value_digits [OF d(2) assms] show ?thesis
      using Cons digit_char_cases [of d] by simp
  qed simp
  have m: "\<not> isspace RANGE_DELIM" by (simp add: ctype_simps)
  show ?thesis using dd m by (simp add: show_int_def)
qed

lemma isspace_prefix: "\<forall>c \<in> set ws. isspace c \<Longrightarrow> ws = [] \<or> isspace (peek (ws @ r))"
  by (cases ws) auto

lemma dropWhile_ws: "\<forall>c \<in> set ws. isspace c \<Longrightarrow> dropWhile isspace (ws @ r) = dropWhile isspace r"
  by (simp add: dropWhile_append2)

lemma show_int_Cons: "\<exists>c cs. show_int i = c # cs \<and> \<not> isspace c \<and> c \<noteq> CHR '',''"
proof (cases "show_int i")
  case Nil
  then show ?thesis by (simp add: show_int_def split: if_splits)
next
  case (Cons c cs)
  then have "isdigit c \<or> c = RANGE_DELIM" using show_int_chars [of c i] by simp
  then show ?thesis using Cons digit_char_cases by (auto simp: ctype_simps)
qed

lemma dropWhile_show_int: "dropWhile isspace (show_int i @ r) = show_int i @ r"
  using show_int_Cons [of i] by auto

lemma chk_arg_show_elem:
  assumes ty: "data_type r = RLONG_TYPE" and ws: "\<forall>c \<in> set ws. isspace c" and ok: "elem_ok e"
  shows "chk_arg r (show_elem ws e) rep =
    Some (case e of Single a \<Rightarrow> ChkOk (show_int a) a None
          | Range a b \<Rightarrow> ChkOk (show_int a) a (Some (show_int b, b)), rep)"
proof (cases e)
  case (Single a)
  have len: "length (show_int a) \<le> MAX_KEYVAL_LEN" using length_show_int [of a] ok Single by simp
  have sc: "scan_value False (show_int a @ ws) = (show_int a, ws)"
    using isspace_prefix [OF ws, of "[]"] by (intro scan_value_show_int) auto
  show ?thesis
    using chk_arg_single [OF sc len chk_a_value_show_int [OF ty]] ok Single ty dropWhile_ws [OF ws, of "[]"]
    by (simp add: long_result_def)
next
  case (Range a b)
  let ?cp = "ws @ show_int b @ ws"
  have len: "length (show_int a) \<le> MAX_KEYVAL_LEN" "length (show_int b) \<le> MAX_KEYVAL_LEN"
    using length_show_int [of a] length_show_int [of b] ok Range by simp_all
  have d: "\<not> isspace RANGE_DELIM" by (simp add: ctype_simps)
  have sc1: "scan_value False (show_int a @ ws @ RANGE_DELIM # ?cp) = (show_int a, ws @ RANGE_DELIM # ?cp)"
    using isspace_prefix [OF ws, of "RANGE_DELIM # ?cp"] by (intro scan_value_show_int) auto
  have sc2: "scan_value False (dropWhile isspace ?cp) = (show_int b, ws)"
    unfolding dropWhile_ws [OF ws] dropWhile_show_int
    using isspace_prefix [OF ws, of "[]"] by (intro scan_value_show_int) auto
  have "chk_arg r (show_elem ws e) rep = chk_range_end r (show_int a) (Some a) ?cp rep"
    unfolding Range show_elem.simps
    by (rule chk_arg_range [OF sc1 len(1)])
      (use ok Range ty d in \<open>simp_all add: chk_a_value_show_int dropWhile_ws [OF ws]\<close>)
  also have "\<dots> = Some (ChkOk (show_int a) (long_result r (Some a)) (Some (show_int b, long_result r (Some b))), rep)"
    by (rule chk_range_end_okI [OF sc2 _ len(2)])
      (use ok Range ty show_int_Cons [of b] ws d dropWhile_ws [OF ws, of "[]"] in
        \<open>auto simp: chk_a_value_show_int dropWhile_ws [OF ws] dropWhile_show_int long_result_def
          intro: chk_a_value_show_int dest: isspace_prefix [where r = "[]"]\<close>)
  finally show ?thesis using Range ty by (simp add: long_result_def)
qed

lemma length_show_elem:
  assumes "elem_ok e" "length ws \<le> 40"
  shows "length (show_elem ws e) \<le> 2 * MAX_KEYVAL_LEN"
proof (cases e)
  case (Single a)
  then show ?thesis using assms length_show_int [of a] by simp
next
  case (Range a b)
  then show ?thesis using assms length_show_int [of a] length_show_int [of b] by simp
qed

lemma value_args_append:
  assumes "CHR '','' \<notin> set xs"
  shows "value_args (xs @ CHR '','' # ys) =
    (if dropWhile isspace xs = [] then [] else [dropWhile isspace xs]) @ value_args ys"
proof -
  have "comma_split (xs @ CHR '','' # ys) = xs # comma_split ys"
    using assms by (induction xs) auto
  then show ?thesis by (simp add: value_args_split)
qed

lemma value_args_last:
  assumes "CHR '','' \<notin> set xs"
  shows "value_args xs = (if dropWhile isspace xs = [] then [] else [dropWhile isspace xs])"
proof -
  have "comma_split xs = [xs]" using assms by (induction xs) auto
  then show ?thesis by (simp add: value_args_split)
qed

lemma show_elem_no_comma: "\<forall>c \<in> set ws. isspace c \<Longrightarrow> CHR '','' \<notin> set (show_elem ws e)"
  using digit_char_cases [of "CHR '',''"] by (cases e) (auto dest!: show_int_chars)

lemma value_args_join:
  assumes "\<And>x. x \<in> set xs \<Longrightarrow> CHR '','' \<notin> set x"
  shows "value_args (join xs) = filter (\<lambda>a. a \<noteq> []) (map (dropWhile isspace) xs)"
  using assms
proof (induction xs)
  case (Cons x xs)
  show ?case
  proof (cases xs)
    case Nil
    then show ?thesis using Cons.prems by (simp add: join_def value_args_last)
  next
    case (Cons y ys)
    then have "join (x # xs) = x @ CHR '','' # join xs" by (simp add: join_def)
    then show ?thesis using Cons.IH Cons.prems by (simp add: value_args_append)
  qed
qed (simp add: join_def)

lemma value_args_show_elems:
  assumes "\<forall>c \<in> set ws. isspace c"
  shows "value_args (show_elems ws es) = map (show_elem ws) es"
proof -
  have nc: "CHR '','' \<notin> set (ws @ show_elem ws e)" for e
    using show_elem_no_comma [OF assms] assms by auto
  have dw: "dropWhile isspace (ws @ show_elem ws e) = show_elem ws e" for e
    unfolding dropWhile_ws [OF assms] by (cases e) (simp_all add: dropWhile_show_int)
  have ne: "show_elem ws e \<noteq> []" for e
    by (cases e) (simp_all add: show_int_def)
  have "value_args (show_elems ws es) =
      filter (\<lambda>a. a \<noteq> []) (map (dropWhile isspace) (map (\<lambda>e. ws @ show_elem ws e) es))"
    unfolding show_elems_def using nc by (intro value_args_join) auto
  also have "\<dots> = filter (\<lambda>a. a \<noteq> []) (map (show_elem ws) es)"
    by (simp add: comp_def dw)
  also have "\<dots> = map (show_elem ws) es" using ne by (simp add: filter_True)
  finally show ?thesis .
qed

lemma chk_value_list_all:
  assumes "\<And>a. a \<in> set (value_args vlp) \<Longrightarrow> length a \<le> 2 * MAX_KEYVAL_LEN \<and>
    (\<exists>v1 l1 v2. chk_arg r a rep = Some (ChkOk v1 l1 v2, rep))"
  shows "chk_value_list r vlp rep = Some (0, rep)"
  using assms
proof (induction "length vlp" arbitrary: vlp rule: less_induct)
  case less
  show ?case
  proof (cases "next_arg vlp")
    case None
    then show ?thesis by (simp add: chk_value_list.simps [of r vlp])
  next
    case (Some p)
    obtain a vlp' where p: "p = (a, vlp')" by fastforce
    note na = Some [unfolded p]
    have va: "value_args vlp = a # value_args vlp'" by (simp add: value_args.simps [of vlp] na)
    have "chk_value_list r vlp' rep = Some (0, rep)"
      by (rule less.hyps [OF next_arg_shorter [OF na]]) (use less.prems va in auto)
    then show ?thesis using less.prems [of a] va
      by (auto simp: chk_value_list.simps [of r vlp] na arg_buf_def)
  qed
qed

text \<open>
  on a value list that passes the syntax check made when the rule file is opened,
  \<open>validate_value\<close> does not fault, reports nothing, and accepts exactly the values that
  match one of the comma separated elements of the list: it returns 0 for those and 1 for
  all others, whatever the state of the report area.
\<close>

theorem validate_value_decides:
  assumes "chk_value_list r (value_list r) rep = Some (0, rep')"
  shows "validate_value r v lvalue rep2 = Some (if legal_value r v lvalue then 0 else 1, rep2)"
  unfolding validate_value_def legal_value_def by (rule validate_loop_decides [OF assms])

lemmas rule_def_eval = cstr_simps next_arg_def arg_buf_def value_buf_def chk_a_value_def
  chk_arg_def chk_range_end_def long_result_def validate_loop.simps chk_value_list.simps

theorem validate_value_decides_witness:
  "validate_value \<lparr>keyword = ''W'', data_type = 0, rlen = 8, value_list = ''AB, CA-CZ''\<rparr>
     ''CQ'' 0 (zero_htx_data, []) =
     Some (if legal_value \<lparr>keyword = ''W'', data_type = 0, rlen = 8, value_list = ''AB, CA-CZ''\<rparr> ''CQ'' 0
           then 0 else 1, zero_htx_data, [])"
proof (rule validate_value_decides)
  show "chk_value_list \<lparr>keyword = ''W'', data_type = 0, rlen = 8, value_list = ''AB, CA-CZ''\<rparr>
      (value_list \<lparr>keyword = ''W'', data_type = 0, rlen = 8, value_list = ''AB, CA-CZ''\<rparr>)
      (zero_htx_data, []) = Some (0, zero_htx_data, [])"
    by (simp add: rule_def_eval)
qed

lemma chk_value_list_show_elems:
  assumes "data_type r = RLONG_TYPE" "\<forall>c \<in> set ws. isspace c" "length ws \<le> 40"
    and "\<forall>e \<in> set es. elem_ok e"
  shows "chk_value_list r (show_elems ws es) rep = Some (0, rep)"
proof (rule chk_value_list_all, goal_cases)
  case (1 a)
  then obtain e where e: "e \<in> set es" "a = show_elem ws e"
    using value_args_show_elems [OF assms(2)] by auto
  then have ok: "elem_ok e" using assms(4) by blast
  show ?case using chk_arg_show_elem [OF assms(1,2) ok, of rep] length_show_elem [OF ok assms(3)] e
    by (cases e) auto
qed

lemma elem_matches_show_elem:
  assumes "data_type r = RLONG_TYPE" "\<forall>c \<in> set ws. isspace c" "elem_ok e"
  shows "elem_matches r v i (show_elem ws e) \<longleftrightarrow> elem_mem i e"
proof (cases e)
  case (Single a)
  have "chk_arg r (show_elem ws e) rep = Some (ChkOk (show_int a) a None, rep)" for rep
    using chk_arg_show_elem [OF assms, of rep] Single by simp
  from elem_matchesI [OF this] show ?thesis using Single assms(1) by (auto simp: long_matches_def)
next
  case (Range a b)
  have "chk_arg r (show_elem ws e) rep = Some (ChkOk (show_int a) a (Some (show_int b, b)), rep)" for rep
    using chk_arg_show_elem [OF assms, of rep] Range by simp
  from elem_matchesI [OF this] show ?thesis using Range assms(1) by (auto simp: long_matches_def)
qed

text \<open>
  C11: a value list written as integers and integer ranges (negative bounds included,
  with any blanks around the tokens, all numbers below \<open>2 ^ 53\<close> in absolute value and each
  range in order) passes the syntax check, and \<open>validate_value\<close> then returns 0 exactly for
  the numbers in the union of the elements, and 1 otherwise.
\<close>

theorem numeric_value_list:
  assumes "data_type r = RLONG_TYPE" "value_list r = show_elems ws es"
    and "\<forall>c \<in> set ws. isspace c" "length ws \<le> 40" "\<forall>e \<in> set es. elem_ok e"
  shows "chk_value_list r (value_list r) rep = Some (0, rep) \<and>
    validate_value r v i rep = Some (if \<exists>e \<in> set es. elem_mem i e then 0 else 1, rep)"
proof -
  have ok: "chk_value_list r (value_list r) rep = Some (0, rep)"
    using chk_value_list_show_elems assms by simp
  have "(\<exists>arg \<in> set (value_args (show_elems ws es)). elem_matches r v i arg) \<longleftrightarrow> (\<exists>e \<in> set es. elem_mem i e)"
    using elem_matches_show_elem [OF assms(1,3)] assms(5) value_args_show_elems [OF assms(3)] by auto
  with validate_loop_decides [OF ok, of v i rep] ok show ?thesis
    using assms(2) by (simp add: validate_value_def)
qed

theorem numeric_value_list_witness:
  "validate_value \<lparr>keyword = ''N'', data_type = 1, rlen = 0, value_list = '' -10 - -1 , 7 ''\<rparr>
     ''-3'' (-3) (zero_htx_data, []) = Some (0, zero_htx_data, [])"
proof -
  let ?r = "\<lparr>keyword = ''N'', data_type = 1, rlen = 0, value_list = '' -10 - -1 , 7 ''\<rparr>"
  have "value_list ?r = show_elems '' '' [Range (-10) (-1), Single 7]"
    by (simp add: show_elems_def join_def show_int_def dec_digits.simps cstr_simps)
  from numeric_value_list [OF _ this, of "(zero_htx_data, [])" "''-3''" "-3"] show ?thesis by simp
qed

end
