(* ===== verification/Rule_File.thy ===== *)
theory Rule_File
  imports Rule_Def
begin

text \<open>
  Reading a rule file (\<open>lib/gr64/getrule.c\<close> and \<open>lib/gr64/rule_file.c\<close>): the line
  reader and its syntax check, the lookup and validation of one \<open>KEYWORD = value\<close>
  line, the stanza loop \<open>getrule\<close>, the binding of variables and their defaults, and the
  open, close, rewind and read operations over the static file pointer.

  A file is the list of its bytes and the open file is its unread suffix. The variables
  the exerciser binds are a list, one value per keyword of the table, in table order;
  a NULL \<open>bind_table\<close> is \<open>None\<close>. Allocation is taken to succeed.
\<close>

abbreviation (input) BUFF :: nat where "BUFF \<equiv> 1023"

abbreviation (input) RULE_SYN_ERR :: int where "RULE_SYN_ERR \<equiv> 2"
abbreviation (input) RULE_NOBLANK_ERR :: int where "RULE_NOBLANK_ERR \<equiv> 4"
abbreviation (input) RULE_BADKW_ERR :: int where "RULE_BADKW_ERR \<equiv> 5"
abbreviation (input) RULE_BADVAL_ERR :: int where "RULE_BADVAL_ERR \<equiv> 6"
abbreviation (input) RULE_TYPE_ERR :: int where "RULE_TYPE_ERR \<equiv> 8"

datatype rval = RStr cstring | RLong int

subsection \<open>Reporting an error in the rule file\<close>

definition rule_err_prefix :: "int \<Rightarrow> string" where
  "rule_err_prefix err_code =
     (if err_code = 1 then ''Line number:  %d.  Read error occurred in rules file.\<newline>''
      else if err_code = 2 then ''Line number:  %d.  Syntax error in rules file.\<newline>''
      else if err_code = 3 then ''Line number:  %d.  No rule id specified before keyword.\<newline>''
      else if err_code = 4 then ''Line number:  %d.  Missing blank line between rule stanzas.\<newline>''
      else if err_code = 5 then ''Line number:  %d.  Illegal or undefined keyword in rules file.\<newline>''
      else if err_code = 6 then ''Line number:  %d.  Illegal VALUE in rules file.\<newline>''
      else if err_code = 7 then ''Line number:  %d.  VALUE out of range in rules file.\<newline>''
      else if err_code = 8 then ''Line number:  %d.  Illegal data type in rules definition table.\<newline>''
      else if err_code = 10 then ''Line number:  %d.  WARNING - Keyword redefined within stanza.\<newline>''
      else ''Unknown rule error code %d.'')"

definition rule_err :: "int \<Rightarrow> int \<Rightarrow> string option \<Rightarrow> va list \<Rightarrow> rep \<Rightarrow> rep fault" where
  "rule_err err_code rule_file_lineno fmtstring args rep =
     do { buf \<leftarrow> vsprintf (rule_err_prefix err_code)
            [VaInt (if err_code \<in> {1, 2, 3, 4, 5, 6, 7, 8, 10} then rule_file_lineno else err_code)];
          buf \<leftarrow> (case fmtstring of None \<Rightarrow> Some buf | Some f \<Rightarrow> map_option (append buf) (vsprintf f args));
          if length buf < BUFF
          then htx_err [VaStr ''%p%d%d%p'', VaHtx, VaInt NO_ERRNO, VaInt SYSERR, VaStr buf] rep
          else None }"

subsection \<open>Lines\<close>

lemma fgets_BUFF_shorter: "fgets BUFF s = Some (l, r) \<Longrightarrow> length r < length s"
  by (rule fgets_shorter) auto

function skip_to_end :: "string \<Rightarrow> int \<Rightarrow> string \<times> int" where
  "skip_to_end s lineno =
     (case fgets BUFF s of
        None \<Rightarrow> (s, lineno)
      | Some (line, s') \<Rightarrow>
          (if dropWhile isspace (cstr line) = [] then (s', lineno + 1)
           else skip_to_end s' (lineno + 1)))"
  by pat_completeness auto
termination
  by (relation "measure (\<lambda>(s, l). length s)") (auto dest: fgets_BUFF_shorter)

text \<open>The reading loop of \<open>get_fmt_line\<close>: the line it leaves in \<open>buf\<close>, or \<open>None\<close> when
  the function returns \<open>-1\<close>.\<close>

function next_line :: "bool \<Rightarrow> string \<Rightarrow> int \<Rightarrow> cstring option \<times> string \<times> int" where
  "next_line new_rule_flag s lineno =
     (case fgets BUFF s of
        None \<Rightarrow> (None, s, lineno)
      | Some (line, s') \<Rightarrow>
          (let buf = cstr line; cp = dropWhile isspace buf in
           if new_rule_flag then
             (if cp \<noteq> [] \<and> peek cp \<noteq> CHR ''*'' then (Some buf, s', lineno + 1)
              else next_line new_rule_flag s' (lineno + 1))
           else if cp = [] then (None, s', lineno + 1)
           else if peek cp \<noteq> CHR ''*'' then (Some buf, s', lineno + 1)
           else next_line new_rule_flag s' (lineno + 1)))"
  by pat_completeness auto
termination
  by (relation "measure (\<lambda>(b, s, l). length s)") (auto dest: fgets_BUFF_shorter)

declare skip_to_end.simps [simp del] next_line.simps [simp del]

definition non_alpha_fmt :: string where
  "non_alpha_fmt = ''Keyword began with non-alpha character (dec.= %d).''"

definition no_assign_fmt :: string where
  "no_assign_fmt = ''Missing assignment operator '' @ [CHR 0x27, CHR ''='', CHR 0x27, CHR ''.'']"

definition no_value_fmt :: string where
  "no_value_fmt = ''No keyword value found on line.''"

text \<open>The syntax check of one line: the edited line, or the report to make.\<close>

definition fmt_line_syntax :: "cstring \<Rightarrow> (string \<times> va list) + cstring" where
  "fmt_line_syntax buf =
     (let pre = takeWhile isspace buf; cp = dropWhile isspace buf;
          in_kw = (\<lambda>c. \<not> isspace c \<and> c \<noteq> CHR ''='');
          kw = map (\<lambda>c. if isalpha c then toupper c else c) (takeWhile in_kw cp);
          cp1 = dropWhile in_kw cp;
          blanks = takeWhile isspace cp1; cp2 = dropWhile isspace cp1
      in if \<not> isalpha (peek cp) then Inl (non_alpha_fmt, [VaInt (int (code (peek cp)))])
         else if cp1 = [] then Inl (no_assign_fmt, [])
         else if peek cp2 \<noteq> CHR ''='' then Inl (no_assign_fmt, [])
         else if dropWhile isspace (tl cp2) = [] then Inl (no_value_fmt, [])
         else Inr (pre @ kw @ blanks @ SP # tl cp2))"

definition get_fmt_line ::
  "bool \<Rightarrow> string \<Rightarrow> int \<Rightarrow> rep \<Rightarrow> (int \<times> cstring \<times> string \<times> int \<times> rep) fault" where
  "get_fmt_line new_rule_flag s lineno rep =
     (case next_line new_rule_flag s lineno of
        (None, s', lineno') \<Rightarrow> Some (-1, [], s', lineno', rep)
      | (Some line, s', lineno') \<Rightarrow>
          (case fmt_line_syntax line of
             Inl (fmt, args) \<Rightarrow>
               do { rep \<leftarrow> rule_err RULE_SYN_ERR lineno' (Some fmt) args rep;
                    let (s'', lineno'') = skip_to_end s' lineno';
                    Some (RULE_SYN_ERR, line, s'', lineno'', rep) }
           | Inr buf \<Rightarrow> Some (0, buf, s', lineno', rep)))"

subsection \<open>One keyword line\<close>

fun lookup_rule :: "rule_def list \<Rightarrow> cstring \<Rightarrow> nat option" where
  "lookup_rule [] kw = None"
| "lookup_rule (r # rs) kw =
     (if keyword r = [] then None
      else if strcmp (keyword r) kw = 0 then Some 0 else map_option Suc (lookup_rule rs kw))"

text \<open>\<open>while (!isspace(*cp2)) cp2++\<close>: nothing stops the scan at the end of the string.\<close>

definition scan_token :: "cstring \<Rightarrow> cstring fault" where
  "scan_token cp =
     (if \<exists>c \<in> set cp. isspace c then Some (takeWhile (\<lambda>c. \<not> isspace c) cp) else None)"

text \<open>Reporting an error and skipping the rest of the stanza.\<close>

type_synonym 'a rf_result = "(int \<times> 'a \<times> string \<times> int \<times> rep) fault"

definition rule_fail ::
  "'a \<Rightarrow> int \<Rightarrow> int \<Rightarrow> string option \<Rightarrow> va list \<Rightarrow> string \<Rightarrow> int \<Rightarrow> rep \<Rightarrow> 'a rf_result" where
  "rule_fail x rc err fmt args s lineno rep =
     do { rep \<leftarrow> rule_err err lineno fmt args rep;
          let (s', lineno') = skip_to_end s lineno;
          Some (rc, x, s', lineno', rep) }"

definition bad_keyword_fmt :: string where
  "bad_keyword_fmt = ''Invalid keyword:  <%s>.\<newline>''"

definition bad_len_fmt :: string where
  "bad_len_fmt = ''Bad value:  %s.\<newline>Length of value (%d) greater than allowed (%d).''"

definition bad_number_fmt :: string where
  "bad_number_fmt = ''Bad long:  <%s>.''"

definition unknown_type_fmt :: string where
  "unknown_type_fmt = ''Unknown data type (dec. = %d)''"

definition bad_value_fmt :: string where
  "bad_value_fmt = ''Bad value:  %s.\<newline>Legal values defined include:  %s.''"

text \<open>The value half of \<open>check_keyword_value\<close>, once the table entry \<open>i\<close> is known. The results
  beside the return code are the value and the position of the entry.\<close>

definition check_value ::
  "rule_def list \<Rightarrow> nat \<Rightarrow> int \<Rightarrow> cstring \<Rightarrow> string \<Rightarrow> int \<Rightarrow> rep \<Rightarrow>
   (cstring \<times> nat \<times> int) rf_result" where
  "check_value rdt i ruleid_count cp s lineno rep =
     (let m = rdt ! i; fail = rule_fail ([], i, ruleid_count) in
      if cp = [] then fail RULE_SYN_ERR RULE_SYN_ERR None [] s lineno rep
      else do {
        v \<leftarrow> scan_token cp;
        let len = length v;
        if len > MAX_KEYVAL_LEN then fail RULE_BADVAL_ERR RULE_BADVAL_ERR None [] s lineno rep
        else if data_type m = RSTRING_TYPE \<and> int len > rlen m then
          fail RULE_BADVAL_ERR RULE_BADVAL_ERR (Some bad_len_fmt)
            [VaStr v, VaInt (int len), VaInt (rlen m)] s lineno rep
        else if \<not> isspace (peek (drop len cp)) \<and> drop len cp \<noteq> [] then
          fail RULE_BADVAL_ERR RULE_BADVAL_ERR None [] s lineno rep
        else if data_type m = RLONG_TYPE \<and> fst (check_long v) \<noteq> 0 then
          fail RULE_BADVAL_ERR RULE_BADVAL_ERR (Some bad_number_fmt) [VaStr v] s lineno rep
        else if data_type m \<notin> {RSTRING_TYPE, RLONG_TYPE} then
          fail RULE_TYPE_ERR RULE_BADVAL_ERR (Some unknown_type_fmt) [VaInt (data_type m)] s lineno rep
        else do {
          let long_value = (if data_type m = RLONG_TYPE then snd (check_long v) else 0);
          (rc, rep) \<leftarrow> validate_value m v long_value rep;
          if rc \<noteq> 0 then
            do { rep \<leftarrow> rule_err RULE_BADVAL_ERR lineno (Some bad_value_fmt)
                   [VaStr v, VaStr (value_list m)] rep;
                 Some (RULE_BADVAL_ERR, ([], i, ruleid_count), s, lineno, rep) }
          else Some (0, (v, i, ruleid_count), s, lineno, rep) } })"

definition check_keyword_value ::
  "rule_def list \<Rightarrow> int \<Rightarrow> cstring \<Rightarrow> string \<Rightarrow> int \<Rightarrow> rep \<Rightarrow> (cstring \<times> nat \<times> int) rf_result" where
  "check_keyword_value rdt ruleid_count buf s lineno rep =
     (let cp = dropWhile isspace buf; fail = rule_fail ([], 0, ruleid_count) in
      do { kw \<leftarrow> scan_token cp;
           if length kw > MAX_KEYWORD_LEN then fail RULE_BADKW_ERR RULE_BADKW_ERR None [] s lineno rep
           else
             let cp = drop (length kw) cp in
             if \<not> isspace (peek cp) then fail RULE_BADKW_ERR RULE_BADKW_ERR None [] s lineno rep
             else
               case lookup_rule rdt kw of
                 None \<Rightarrow> fail RULE_BADKW_ERR RULE_BADKW_ERR (Some bad_keyword_fmt) [VaStr kw] s lineno rep
               | Some i \<Rightarrow>
                   check_value rdt i
                     (if strcmp (keyword (rdt ! i)) ''RULE_ID'' = 0 then ruleid_count + 1 else ruleid_count)
                     (dropWhile isspace cp) s lineno rep })"

definition assign_value :: "rule_def list \<Rightarrow> nat \<Rightarrow> cstring \<Rightarrow> rval list \<Rightarrow> int \<times> rval list" where
  "assign_value rdt i v bind_table =
     (if data_type (rdt ! i) = RSTRING_TYPE then (0, bind_table[i := RStr v])
      else if data_type (rdt ! i) = RLONG_TYPE then (0, bind_table[i := RLong (fst (strtol v))])
      else (1, bind_table))"

subsection \<open>One stanza\<close>

lemma next_line_shorter: "next_line b s l = (Some line, s', l') \<Longrightarrow> length s' < length s"
proof (induction b s l rule: next_line.induct)
  case (1 b s l)
  show ?case
  proof (cases "fgets BUFF s")
    case None
    then show ?thesis using "1.prems" by (simp add: next_line.simps [of b s])
  next
    case (Some p)
    obtain ln r where p: "p = (ln, r)" by fastforce
    note fg = Some [unfolded p]
    have "length r < length s" by (rule fgets_BUFF_shorter [OF fg])
    moreover have "next_line b r (l + 1) = (Some line, s', l') \<Longrightarrow> length s' < length r"
      if "if b then \<not> (dropWhile isspace (cstr ln) \<noteq> [] \<and> peek (dropWhile isspace (cstr ln)) \<noteq> CHR ''*'')
          else dropWhile isspace (cstr ln) \<noteq> [] \<and> peek (dropWhile isspace (cstr ln)) = CHR ''*''"
      using "1.IH" [OF fg refl refl refl] that by (auto split: if_splits)
    ultimately show ?thesis using "1.prems"
      by (fastforce simp: next_line.simps [of b s] fg Let_def split: if_splits)
  qed
qed

lemma get_fmt_line_okD:
  assumes "get_fmt_line b s l rep = Some (0, buf, s', l', rep')"
  obtains line where "next_line b s l = (Some line, s', l')" "fmt_line_syntax line = Inr buf" "rep' = rep"
  using assms
  by (auto simp: get_fmt_line_def bind_eq_Some_conv split: prod.splits option.splits sum.splits)

lemma get_fmt_line_shorter: "get_fmt_line b s l rep = Some (0, buf, s', l', rep') \<Longrightarrow> length s' < length s"
  by (elim get_fmt_line_okD) (rule next_line_shorter)

text \<open>Whatever follows the line reader leaves the unread part alone when it returns 0.\<close>

lemma check_value_ok:
  assumes "check_value rdt i c cp s l rep = Some (0, x, s', l', rep')"
  shows "s' = s \<and> l' = l"
proof -
  have f: "rule_fail y rc e fmt args s l rep \<noteq> Some (0, x, s', l', rep')" if "rc \<noteq> 0" for y rc e fmt args
    using that by (auto simp: rule_fail_def bind_eq_Some_conv split: prod.splits)
  show ?thesis using assms f
    by (auto simp: check_value_def Let_def bind_eq_Some_conv split: if_splits)
qed

lemma check_keyword_value_ok:
  assumes "check_keyword_value rdt c buf s l rep = Some (0, x, s', l', rep')"
  shows "s' = s \<and> l' = l"
proof -
  have f: "rule_fail y rc e fmt args s l rep \<noteq> Some (0, x, s', l', rep')" if "rc \<noteq> 0" for y rc e fmt args
    using that by (auto simp: rule_fail_def bind_eq_Some_conv split: prod.splits)
  show ?thesis using assms f
    by (auto simp: check_keyword_value_def Let_def bind_eq_Some_conv dest: check_value_ok
        split: if_splits option.splits)
qed

text \<open>The loop of \<open>getrule\<close>. \<open>binds\<close> is what \<open>bind_table\<close> points to. The result is the return
  code, the unread part, the line number, the reports and the variables.\<close>

function getrule_loop ::
  "rule_def list \<Rightarrow> bool \<Rightarrow> int \<Rightarrow> string \<Rightarrow> int \<Rightarrow> rep \<Rightarrow> rval list option \<Rightarrow>
   (int \<times> string \<times> int \<times> rep \<times> rval list option) fault" where
  "getrule_loop rdt new_rule_flag ruleid_count s lineno rep binds =
     (case get_fmt_line new_rule_flag s lineno rep of
        None \<Rightarrow> None
      | Some (cc, buf, s, lineno, rep) \<Rightarrow>
          (if cc < 0 then Some (if new_rule_flag then -1 else 0, s, lineno, rep, binds)
           else if cc \<noteq> 0 then Some (1, s, lineno, rep, binds)
           else case check_keyword_value rdt ruleid_count buf s lineno rep of
               None \<Rightarrow> None
             | Some (cc, (v, i, ruleid_count), s, lineno, rep) \<Rightarrow>
                 (if cc \<noteq> 0 then Some (1, s, lineno, rep, binds)
                  else if ruleid_count \<noteq> 1 then
                    do { (_, _, s, lineno, rep) \<leftarrow> rule_fail () 1 RULE_NOBLANK_ERR None [] s lineno rep;
                         Some (1, s, lineno, rep, binds) }
                  else case binds of
                      None \<Rightarrow> getrule_loop rdt False ruleid_count s lineno rep None
                    | Some bt \<Rightarrow>
                        (case assign_value rdt i v bt of
                           (cc, bt') \<Rightarrow>
                             (if cc \<noteq> 0 then
                                do { (_, _, s, lineno, rep) \<leftarrow> rule_fail () 1 cc None [] s lineno rep;
                                     Some (1, s, lineno, rep, Some bt') }
                              else getrule_loop rdt False ruleid_count s lineno rep (Some bt'))))))"
  by pat_completeness auto
termination
  by (relation "measure (\<lambda>(t, b, c, s, l, r, bt). length s)")
    (auto dest!: get_fmt_line_shorter dest: check_keyword_value_ok)

declare getrule_loop.simps [simp del]

definition getrule ::
  "rule_def list \<Rightarrow> string \<Rightarrow> int \<Rightarrow> rep \<Rightarrow> rval list option \<Rightarrow>
   (int \<times> string \<times> int \<times> rep \<times> rval list option) fault" where
  "getrule rdt s lineno rep binds = getrule_loop rdt True 0 s lineno rep binds"

subsection \<open>Binding variables\<close>

text \<open>The number of keywords, and the loop that pulls one pointer per keyword off the
  argument list. The bound variables are the first ones of the list passed.\<close>

definition rule_count :: "rule_def list \<Rightarrow> nat" where
  "rule_count rdt = length (takeWhile (\<lambda>r. keyword r \<noteq> []) rdt)"

definition bind_ptrs :: "rule_def list \<Rightarrow> rval list \<Rightarrow> (int \<times> rval list) fault" where
  "bind_ptrs rdt var_stack =
     (let n = rule_count rdt;
          good = length (takeWhile (\<lambda>r. data_type r = RSTRING_TYPE \<or> data_type r = RLONG_TYPE) (take n rdt))
      in if length var_stack < good then None
         else if good < n then Some (1, [])
         else Some (0, take n var_stack))"

fun set_default_var :: "rule_def list \<Rightarrow> rep \<Rightarrow> rval list \<Rightarrow> (int \<times> rep \<times> rval list) fault" where
  "set_default_var [] rep bu = Some (0, rep, bu)"
| "set_default_var (r # rs) rep bu =
     (if keyword r = [] then Some (0, rep, bu)
      else case next_arg (value_list r) of
          None \<Rightarrow> Some (1, rep, bu)
        | Some (a, _) \<Rightarrow>
            do { arg \<leftarrow> arg_buf a;
                 (res, rep) \<leftarrow> chk_arg r arg rep;
                 case res of
                   ChkErr \<Rightarrow> Some (1, rep, bu)
                 | ChkOk v l _ \<Rightarrow>
                     (if bu = [] then None
                      else if data_type r = RSTRING_TYPE then
                        (if rlen r < 0 then None
                         else do { (rc, rep, bu') \<leftarrow> set_default_var rs rep (tl bu);
                                   Some (rc, rep, RStr (strlencpy v (nat (rlen r))) # bu') })
                      else if data_type r = RLONG_TYPE then
                        do { (rc, rep, bu') \<leftarrow> set_default_var rs rep (tl bu);
                             Some (rc, rep, RLong l # bu') }
                      else Some (1, rep, bu)) })"

subsection \<open>How \<open>getrule\<close> moves through the file\<close>

lemma rule_err_None [simp]: "rule_err e l fmt args rep = None"
proof -
  have "htx_err (VaStr f # as) rep = None" for f as by (simp add: htx_err_def)
  then show ?thesis by (auto simp: rule_err_def bind_eq_None_conv)
qed

lemma rule_fail_None [simp]: "rule_fail x rc e fmt args s l rep = None"
  by (simp add: rule_fail_def)

lemma next_line_None: "next_line b s l = (None, s', l') \<Longrightarrow> length s' \<le> length s"
proof (induction b s l rule: next_line.induct)
  case (1 b s l)
  show ?case
  proof (cases "fgets BUFF s")
    case None
    then show ?thesis using "1.prems" by (simp add: next_line.simps [of b s])
  next
    case (Some p)
    obtain ln r where p: "p = (ln, r)" by fastforce
    note fg = Some [unfolded p]
    have "length r < length s" by (rule fgets_BUFF_shorter [OF fg])
    moreover have "next_line b r (l + 1) = (None, s', l') \<Longrightarrow> length s' \<le> length r"
      if "if b then \<not> (dropWhile isspace (cstr ln) \<noteq> [] \<and> peek (dropWhile isspace (cstr ln)) \<noteq> CHR ''*'')
          else dropWhile isspace (cstr ln) \<noteq> [] \<and> peek (dropWhile isspace (cstr ln)) = CHR ''*''"
      using "1.IH" [OF fg refl refl refl] that by (auto split: if_splits)
    ultimately show ?thesis using "1.prems"
      by (fastforce simp: next_line.simps [of b s] fg Let_def split: if_splits)
  qed
qed

lemma get_fmt_line_cases:
  assumes "get_fmt_line b s l rep = Some (cc, buf, s', l', rep')"
  shows "cc = -1 \<and> next_line b s l = (None, s', l') \<and> rep' = rep \<or>
    cc = 0 \<and> (\<exists>line. next_line b s l = (Some line, s', l') \<and> fmt_line_syntax line = Inr buf) \<and> rep' = rep"
  using assms by (auto simp: get_fmt_line_def split: prod.splits option.splits sum.splits)

lemma check_value_cases:
  "check_value rdt i c cp s l rep = Some (cc, (v, j, c'), s', l', rep') \<Longrightarrow>
     cc = 0 \<and> s' = s \<and> l' = l \<and> j = i \<and> c' = c \<and> data_type (rdt ! i) \<in> {RSTRING_TYPE, RLONG_TYPE}"
  by (auto simp: check_value_def Let_def bind_eq_Some_conv split: if_splits)

lemma check_keyword_value_cases:
  "check_keyword_value rdt c buf s l rep = Some (cc, (v, i, c'), s', l', rep') \<Longrightarrow>
     cc = 0 \<and> s' = s \<and> l' = l \<and> data_type (rdt ! i) \<in> {RSTRING_TYPE, RLONG_TYPE}"
  by (auto simp: check_keyword_value_def Let_def bind_eq_Some_conv
      dest: check_value_cases split: if_splits option.splits)

definition assign_opt :: "rule_def list \<Rightarrow> nat \<Rightarrow> cstring \<Rightarrow> rval list option \<Rightarrow> rval list option" where
  "assign_opt rdt i v binds = map_option (\<lambda>bt. snd (assign_value rdt i v bt)) binds"

text \<open>One turn of the loop, given that an error report never comes back.\<close>

lemma getrule_loop_step:
  assumes "getrule_loop rdt b c s l rep bt = Some (rc, s', l', rep', bt')"
  shows "next_line b s l = (None, s', l') \<and> rc = (if b then -1 else 0) \<and> rep' = rep \<and> bt' = bt \<or>
    (\<exists>buf s1 l1 v i rep1. get_fmt_line b s l rep = Some (0, buf, s1, l1, rep) \<and>
       check_keyword_value rdt c buf s1 l1 rep = Some (0, (v, i, 1), s1, l1, rep1) \<and>
       getrule_loop rdt False 1 s1 l1 rep1 (assign_opt rdt i v bt) = Some (rc, s', l', rep', bt'))"
proof -
  obtain cc buf s1 l1 rep0 where g: "get_fmt_line b s l rep = Some (cc, buf, s1, l1, rep0)"
    using assms by (auto simp: getrule_loop.simps [of rdt b c s] split: option.splits)
  consider "cc = -1" "next_line b s l = (None, s1, l1)" "rep0 = rep" | "cc = 0" "rep0 = rep"
    using get_fmt_line_cases [OF g] by auto
  then show ?thesis
  proof cases
    case 1
    then show ?thesis using assms g by (simp add: getrule_loop.simps [of rdt b c s])
  next
    case 2
    obtain cc2 v i c2 s2 l2 rep1 where
      k: "check_keyword_value rdt c buf s1 l1 rep = Some (cc2, (v, i, c2), s2, l2, rep1)"
      using assms g 2 by (auto simp: getrule_loop.simps [of rdt b c s] split: option.splits)
    note kc = check_keyword_value_cases [OF k]
    have av: "\<exists>bt2. assign_value rdt i v bt1 = (0, bt2)" for bt1
      using kc by (auto simp: assign_value_def)
    have c2: "c2 = 1"
      using assms g 2 k kc by (auto simp: getrule_loop.simps [of rdt b c s] split: if_splits)
    have "getrule_loop rdt False 1 s1 l1 rep1 (assign_opt rdt i v bt) = Some (rc, s', l', rep', bt')"
    proof (cases bt)
      case None
      then show ?thesis using assms g 2 k kc c2
        by (simp add: getrule_loop.simps [of rdt b c s] assign_opt_def)
    next
      case (Some bt0)
      obtain bt2 where "assign_value rdt i v bt0 = (0, bt2)" using av by blast
      then show ?thesis using assms g 2 k kc c2 Some
        by (simp add: getrule_loop.simps [of rdt b c s] assign_opt_def)
    qed
    then show ?thesis using g 2 k kc c2 by blast
  qed
qed

lemma getrule_loop_progress:
  "getrule_loop rdt b c s l rep bt = Some (rc, s', l', rep', bt') \<Longrightarrow>
     (rc = 0 \<or> rc = -1 \<and> b) \<and> length s' \<le> length s \<and> (rc = 0 \<and> b \<longrightarrow> length s' < length s)"
proof (induction "length s" arbitrary: b c s l rep bt rule: less_induct)
  case less
  from getrule_loop_step [OF less.prems] show ?case
  proof (elim disjE conjE exE)
    assume "next_line b s l = (None, s', l')" "rc = (if b then -1 else 0)"
    then show ?thesis by (auto dest: next_line_None)
  next
    fix buf s1 l1 v i rep1
    assume g: "get_fmt_line b s l rep = Some (0, buf, s1, l1, rep)"
      and r: "getrule_loop rdt False 1 s1 l1 rep1 (assign_opt rdt i v bt) = Some (rc, s', l', rep', bt')"
    have "length s1 < length s" by (rule get_fmt_line_shorter [OF g])
    with less.hyps [OF this r] show ?thesis by auto
  qed
qed

subsection \<open>The driver and its operations\<close>

record rule_state =
  rule_fp :: "(string \<times> string) option"
  rule_file_lineno :: int

abbreviation (input) ROPEN_ERR :: int where "ROPEN_ERR \<equiv> -98"

definition rule_init :: rule_state where
  "rule_init = \<lparr>rule_fp = None, rule_file_lineno = 0\<rparr>"

text \<open>The syntax pass over a whole file made by \<open>ROPEN\<close>.\<close>

function check_rules :: "rule_def list \<Rightarrow> string \<Rightarrow> int \<Rightarrow> rep \<Rightarrow> (int \<times> rep) fault" where
  "check_rules rdt s lineno rep =
     (case getrule rdt s lineno rep None of
        None \<Rightarrow> None
      | Some (rc, s', lineno', rep', _) \<Rightarrow>
          (if rc = 0 then check_rules rdt s' lineno' rep' else Some (rc, rep')))"
  by pat_completeness auto
termination
  by (relation "measure (\<lambda>(t, s, l, r). length s)") (auto simp: getrule_def dest!: getrule_loop_progress)

declare check_rules.simps [simp del]

text \<open>\<open>rule_file\<close>. An operation carries what its callers pass; \<open>ROPEN\<close> has the outcome of
  \<open>fopen\<close>, the bytes of the file or \<open>None\<close>. The result is the return code, the bound
  variables, the reports and the new static state.\<close>

datatype rule_op = ROPEN "rule_def list" "string option" | RCLOSE | RREWIND | RREAD "rule_def list"
  | ROTHER int

fun rule_file :: "rule_op \<Rightarrow> rval list \<Rightarrow> rep \<Rightarrow> rule_state \<Rightarrow> (int \<times> rval list \<times> rep \<times> rule_state) fault" where
  "rule_file (ROPEN rdt file) vars rep st =
     (if rule_fp st \<noteq> None then Some (ROPEN_ERR, vars, rep, st)
      else case file of
          None \<Rightarrow> Some (1, vars, rep, st)
        | Some contents \<Rightarrow>
            do { (rc, rep) \<leftarrow> chk_rdt_syntax rdt rep;
                 if rc \<noteq> 0 then Some (1, vars, rep, st\<lparr>rule_fp := Some (contents, contents)\<rparr>)
                 else do {
                   (rc, rep) \<leftarrow> check_rules rdt contents 0 rep;
                   if rc > 0 then Some (rc, vars, rep, \<lparr>rule_fp = None, rule_file_lineno = 0\<rparr>)
                   else Some (0, vars, rep,
                          \<lparr>rule_fp = Some (contents, contents), rule_file_lineno = 0\<rparr>) } })"
| "rule_file RCLOSE vars rep st =
     (if rule_fp st = None then Some (1, vars, rep, st)
      else Some (0, vars, rep, \<lparr>rule_fp = None, rule_file_lineno = 0\<rparr>))"
| "rule_file RREWIND vars rep st =
     (case rule_fp st of
        None \<Rightarrow> Some (1, vars, rep, st)
      | Some (contents, _) \<Rightarrow>
          Some (0, vars, rep, \<lparr>rule_fp = Some (contents, contents), rule_file_lineno = 0\<rparr>))"
| "rule_file (RREAD rdt) vars rep st =
     (case rule_fp st of
        None \<Rightarrow> Some (1, vars, rep, st)
      | Some (contents, s) \<Rightarrow>
          do { (rc, bt) \<leftarrow> bind_ptrs rdt vars;
               if rc \<noteq> 0 then Some (1, vars, rep, st)
               else do {
                 (_, rep, bt) \<leftarrow> set_default_var rdt rep bt;
                 (rc, s', lineno, rep, bt') \<leftarrow> getrule rdt s (rule_file_lineno st) rep (Some bt);
                 Some (rc, the bt' @ drop (rule_count rdt) vars, rep,
                       \<lparr>rule_fp = Some (contents, s'), rule_file_lineno = lineno\<rparr>) } })"
| "rule_file (ROTHER _) vars rep st =
     (if rule_fp st = None then Some (1, vars, rep, st) else Some (-97, vars, rep, st))"

definition zero_one :: "int \<times> 'a \<Rightarrow> int \<times> 'a" where
  "zero_one p = (if fst p \<noteq> 0 then 1 else 0, snd p)"

definition open_rf ::
  "rule_def list \<Rightarrow> string option \<Rightarrow> rep \<Rightarrow> rule_state \<Rightarrow> (int \<times> rval list \<times> rep \<times> rule_state) fault" where
  "open_rf rdt file rep st = map_option zero_one (rule_file (ROPEN rdt file) [] rep st)"

definition close_rf :: "rep \<Rightarrow> rule_state \<Rightarrow> (int \<times> rval list \<times> rep \<times> rule_state) fault" where
  "close_rf rep st = map_option zero_one (rule_file RCLOSE [] rep st)"

definition rewind_rf :: "rep \<Rightarrow> rule_state \<Rightarrow> (int \<times> rval list \<times> rep \<times> rule_state) fault" where
  "rewind_rf rep st = map_option zero_one (rule_file RREWIND [] rep st)"

definition read_rf ::
  "rule_def list \<Rightarrow> rval list \<Rightarrow> rep \<Rightarrow> rule_state \<Rightarrow> (int \<times> rval list \<times> rep \<times> rule_state) fault" where
  "read_rf rdt vars rep st = rule_file (RREAD rdt) vars rep st"

subsection \<open>The text of a stanza\<close>

text \<open>What the authors of rule files write: assignments, comment lines starting with a star,
  and a blank line at the end. Keywords may be in any case, blanks may surround every
  token, and anything after the value on its line is ignored.\<close>

definition upcase :: "cstring \<Rightarrow> cstring" where
  "upcase k = map (\<lambda>c. if isalpha c then toupper c else c) k"

definition blank_text :: "string \<Rightarrow> bool" where
  "blank_text w \<longleftrightarrow> (\<forall>c \<in> set w. isspace c \<and> c \<noteq> NL)"

definition line_text :: "string \<Rightarrow> bool" where
  "line_text l \<longleftrightarrow> NL \<notin> set l \<and> NUL \<notin> set l \<and> length l + 2 \<le> BUFF"

definition key_text :: "cstring \<Rightarrow> bool" where
  "key_text k \<longleftrightarrow> k \<noteq> [] \<and> isalpha (hd k) \<and> (\<forall>c \<in> set k. \<not> isspace c \<and> c \<noteq> CHR ''='')"

definition value_text :: "cstring \<Rightarrow> cstring \<Rightarrow> bool" where
  "value_text v tail \<longleftrightarrow> v \<noteq> [] \<and> (\<forall>c \<in> set v. \<not> isspace c) \<and> (tail = [] \<or> isspace (hd tail))"

inductive stanza :: "(cstring \<times> cstring) list \<Rightarrow> string \<Rightarrow> int \<Rightarrow> bool" where
  stanza_end: "blank_text w \<Longrightarrow> line_text w \<Longrightarrow> stanza [] (w @ [NL]) 1"
| stanza_comment: "stanza as t n \<Longrightarrow> blank_text w \<Longrightarrow> line_text (w @ CHR ''*'' # c) \<Longrightarrow>
    stanza as ((w @ CHR ''*'' # c) @ NL # t) (n + 1)"
| stanza_key: "stanza as t n \<Longrightarrow> blank_text w1 \<Longrightarrow> key_text k \<Longrightarrow> blank_text w2 \<Longrightarrow> blank_text w3 \<Longrightarrow>
    value_text v tail \<Longrightarrow> line_text (w1 @ k @ w2 @ CHR ''='' # w3 @ v @ tail) \<Longrightarrow>
    stanza ((upcase k, v) # as) ((w1 @ k @ w2 @ CHR ''='' # w3 @ v @ tail) @ NL # t) (n + 1)"

definition checked :: "rule_def \<Rightarrow> bool" where
  "checked r \<longleftrightarrow> (\<forall>rep. chk_value_list r (value_list r) rep = Some (0, rep))"

definition value_num :: "rule_def \<Rightarrow> cstring \<Rightarrow> int" where
  "value_num m v = (if data_type m = RLONG_TYPE then fst (strtol v) else 0)"

definition valid_assign :: "rule_def list \<Rightarrow> cstring \<times> cstring \<Rightarrow> bool" where
  "valid_assign rdt a \<longleftrightarrow>
     (case lookup_rule rdt (fst a) of
        None \<Rightarrow> False
      | Some i \<Rightarrow>
          length (fst a) \<le> MAX_KEYWORD_LEN \<and> length (snd a) \<le> MAX_KEYVAL_LEN \<and> checked (rdt ! i) \<and>
          (data_type (rdt ! i) = RSTRING_TYPE \<and> int (length (snd a)) \<le> rlen (rdt ! i) \<or>
           data_type (rdt ! i) = RLONG_TYPE \<and> fst (check_long (snd a)) = 0) \<and>
          legal_value (rdt ! i) (snd a) (value_num (rdt ! i) (snd a)))"

definition assign_all :: "rule_def list \<Rightarrow> (cstring \<times> cstring) list \<Rightarrow> rval list option \<Rightarrow> rval list option" where
  "assign_all rdt as bt = fold (\<lambda>a. assign_opt rdt (the (lookup_rule rdt (fst a))) (snd a)) as bt"

lemma snd_check_long: "snd (check_long v) = fst (strtol v)"
  by (simp add: check_long_def split: prod.split)

lemma code_toupper: "islower c \<Longrightarrow> code (toupper c) = code c - 32"
proof -
  assume a: "islower c"
  then have "(code c - 32) mod 256 = code c - 32" by (intro mod_less) (auto simp: islower_def)
  with a show ?thesis by (simp add: toupper_def code_def)
qed

lemma isspace_upcase: "\<not> isspace c \<Longrightarrow> \<not> isspace (if isalpha c then toupper c else c)"
proof (cases "islower c")
  case True
  then have "code (toupper c) = code c - 32" by (rule code_toupper)
  with True show "\<not> isspace c \<Longrightarrow> ?thesis" by (auto simp: isspace_def islower_def)
next
  case False
  then show "\<not> isspace c \<Longrightarrow> ?thesis" by (simp add: toupper_def)
qed

lemma upcase_nonspace: "\<forall>c \<in> set k. \<not> isspace c \<Longrightarrow> \<forall>c \<in> set (upcase k). \<not> isspace c"
  unfolding upcase_def set_map ball_simps(9) using isspace_upcase by blast

lemma upcase_Nil [simp]: "upcase k = [] \<longleftrightarrow> k = []"
  by (simp add: upcase_def)

lemma blank_text_dropWhile: "blank_text w \<Longrightarrow> dropWhile isspace (w @ r) = dropWhile isspace r"
  by (simp add: blank_text_def dropWhile_append2)

lemma blank_text_takeWhile: "blank_text w \<Longrightarrow> takeWhile isspace (w @ r) = w @ takeWhile isspace r"
  by (simp add: blank_text_def takeWhile_append2)

lemma line_text_fgets: "line_text l \<Longrightarrow> fgets BUFF (l @ NL # r) = Some (l @ [NL], r)"
  by (simp add: line_text_def fgets_line)

lemma line_text_cstr: "line_text l \<Longrightarrow> cstr (l @ [NL]) = l @ [NL]"
  by (rule cstr_id) (simp add: line_text_def)

lemma alpha_facts: "isalpha c \<Longrightarrow> \<not> isspace c \<and> c \<noteq> CHR ''*'' \<and> c \<noteq> CHR ''=''"
  by (auto simp: ctype_simps)

lemma key_text_dropWhile: "key_text k \<Longrightarrow> dropWhile isspace (k @ r) = k @ r"
  by (cases k) (auto simp: key_text_def)

lemma key_text_peek: "key_text k \<Longrightarrow> peek (k @ r) = hd k"
  by (cases k) (auto simp: key_text_def)

lemma next_line_end:
  assumes "blank_text w" "line_text w"
  shows "next_line False (w @ NL # r) l = (None, r, l + 1)"
  using assms
  by (simp add: next_line.simps [of False "w @ NL # r"] line_text_fgets line_text_cstr blank_text_dropWhile)

lemma next_line_comment:
  assumes "blank_text w" "line_text (w @ CHR ''*'' # c)"
  shows "next_line b ((w @ CHR ''*'' # c) @ NL # r) l = next_line b r (l + 1)"
proof -
  have "\<not> isspace (CHR ''*'')" by (simp add: ctype_simps)
  then have "dropWhile isspace ((w @ CHR ''*'' # c) @ [NL]) = CHR ''*'' # c @ [NL]"
    using assms(1) by (simp add: blank_text_dropWhile)
  then show ?thesis
    using line_text_fgets [OF assms(2)] line_text_cstr [OF assms(2)]
    by (subst next_line.simps) (simp add: Let_def)
qed

lemma next_line_key:
  assumes "blank_text w1" "key_text k" "line_text (w1 @ k @ t)"
  shows "next_line b ((w1 @ k @ t) @ NL # r) l = (Some ((w1 @ k @ t) @ [NL]), r, l + 1)"
proof -
  have cp: "dropWhile isspace ((w1 @ k @ t) @ [NL]) = k @ t @ [NL]"
    using assms(1,2) by (simp add: blank_text_dropWhile key_text_dropWhile)
  have "k @ t @ [NL] \<noteq> []" "peek (k @ t @ [NL]) \<noteq> CHR ''*''"
    using assms(2) key_text_peek [OF assms(2), of "t @ [NL]"] alpha_facts [of "hd k"]
    by (simp_all add: key_text_def)
  then show ?thesis
    using line_text_fgets [OF assms(3)] line_text_cstr [OF assms(3)] cp
    by (subst next_line.simps) (simp add: Let_def)
qed

lemma fmt_line_key:
  assumes "blank_text w1" "key_text k" "blank_text w2" "blank_text w3" "value_text v tail"
  shows "fmt_line_syntax ((w1 @ k @ w2 @ CHR ''='' # w3 @ v @ tail) @ [NL]) =
    Inr (w1 @ upcase k @ w2 @ SP # w3 @ v @ tail @ [NL])"
proof -
  let ?in_kw = "\<lambda>c. \<not> isspace c \<and> c \<noteq> CHR ''=''"
  let ?r = "CHR ''='' # w3 @ v @ tail @ [NL]"
  have eq: "\<not> isspace (CHR ''='')" by (simp add: ctype_simps)
  have pre: "takeWhile isspace (w1 @ k @ w2 @ ?r) = w1" "dropWhile isspace (w1 @ k @ w2 @ ?r) = k @ w2 @ ?r"
    using assms(1,2) key_text_dropWhile [OF assms(2)]
    by (cases k; simp add: blank_text_takeWhile blank_text_dropWhile key_text_def)+
  have stop: "\<not> ?in_kw (peek (w2 @ ?r))"
    using assms(3) by (cases w2) (auto simp: blank_text_def)
  have kw: "takeWhile ?in_kw (k @ w2 @ ?r) = k" "dropWhile ?in_kw (k @ w2 @ ?r) = w2 @ ?r"
  proof -
    have "takeWhile ?in_kw (w2 @ ?r) = []" "dropWhile ?in_kw (w2 @ ?r) = w2 @ ?r"
      using stop by (cases w2; auto)+
    then show "takeWhile ?in_kw (k @ w2 @ ?r) = k" "dropWhile ?in_kw (k @ w2 @ ?r) = w2 @ ?r"
      using assms(2) unfolding key_text_def by (simp_all add: takeWhile_append2 dropWhile_append2)
  qed
  have bl: "takeWhile isspace (w2 @ ?r) = w2" "dropWhile isspace (w2 @ ?r) = ?r"
    using assms(3) eq by (simp_all add: blank_text_takeWhile blank_text_dropWhile)
  have val: "dropWhile isspace (w3 @ v @ tail @ [NL]) \<noteq> []"
    using assms(4,5) by (cases v) (auto simp: blank_text_dropWhile value_text_def)
  have al: "isalpha (peek (k @ w2 @ ?r))" using key_text_peek [OF assms(2)] assms(2) by (simp add: key_text_def)
  show ?thesis
    using pre kw bl val al by (simp add: fmt_line_syntax_def Let_def upcase_def)
qed

lemma scan_token_stop: "\<forall>c \<in> set k. \<not> isspace c \<Longrightarrow> isspace d \<Longrightarrow> scan_token (k @ d # r) = Some k"
  by (simp add: scan_token_def takeWhile_append2)

lemma check_value_valid:
  assumes va: "valid_assign rdt (kw, v)" and lk: "lookup_rule rdt kw = Some i" and vt: "value_text v tail"
  shows "check_value rdt i c (v @ tail @ [NL]) s l rep = Some (0, (v, i, c), s, l, rep)"
proof -
  let ?m = "rdt ! i"
  obtain d r where d: "tail @ [NL] = d # r" "isspace d" using vt by (cases tail) (auto simp: value_text_def)
  have st: "scan_token (v @ d # r) = Some v" using vt d(2) by (intro scan_token_stop) (simp_all add: value_text_def)
  have ne: "v \<noteq> []" using vt by (simp add: value_text_def)
  have ck: "checked ?m"
    and lg: "legal_value ?m v (value_num ?m v)" and lv: "length v \<le> MAX_KEYVAL_LEN"
    and ty: "data_type ?m = RSTRING_TYPE \<and> int (length v) \<le> rlen ?m \<or>
      data_type ?m = RLONG_TYPE \<and> fst (check_long v) = 0"
    using va lk by (auto simp: valid_assign_def)
  have ch: "chk_value_list ?m (value_list ?m) rep = Some (0, rep)"
    using ck unfolding checked_def by blast
  have vv: "validate_value ?m v (value_num ?m v) rep = Some (0, rep)"
    using validate_loop_decides [OF ch, of v "value_num ?m v" rep] lg
    by (simp add: validate_value_def legal_value_def)
  show ?thesis
    unfolding d(1) using st ne lv ty vv d(2)
    by (auto simp: check_value_def Let_def value_num_def snd_check_long)
qed

definition id_count :: "rule_def list \<Rightarrow> nat \<Rightarrow> int \<Rightarrow> int" where
  "id_count rdt i c = (if keyword (rdt ! i) = ''RULE_ID'' then c + 1 else c)"

lemma lookup_rule_keyword: "lookup_rule rdt kw = Some i \<Longrightarrow> i < length rdt \<and> keyword (rdt ! i) = kw"
  by (induction rdt kw arbitrary: i rule: lookup_rule.induct) (auto split: if_splits)

lemma check_keyword_value_valid:
  assumes va: "valid_assign rdt (upcase k, v)" and lk: "lookup_rule rdt (upcase k) = Some i"
    and w: "blank_text w1" "key_text k" "blank_text w2" "blank_text w3" and vt: "value_text v tail"
  shows "check_keyword_value rdt c (w1 @ upcase k @ w2 @ SP # w3 @ v @ tail @ [NL]) s l rep =
    Some (0, (v, i, id_count rdt i c), s, l, rep)"
proof -
  let ?r = "w3 @ v @ tail @ [NL]"
  have ku: "\<forall>c \<in> set (upcase k). \<not> isspace c" "upcase k \<noteq> []"
    using w(2) upcase_nonspace [of k] upcase_Nil [of k] unfolding key_text_def by blast+
  have k1: "dropWhile isspace (upcase k @ x) = upcase k @ x" for x
    using ku by (cases "upcase k") simp_all
  have cp: "dropWhile isspace (w1 @ upcase k @ w2 @ SP # ?r) = upcase k @ w2 @ SP # ?r"
    by (simp only: blank_text_dropWhile [OF w(1)] k1)
  have d: "\<exists>d r. w2 @ SP # x = d # r \<and> isspace d" for x
    using w(3) by (cases w2) (simp_all add: blank_text_def)
  have st: "scan_token (upcase k @ w2 @ SP # ?r) = Some (upcase k)"
    using d [of ?r] scan_token_stop [OF ku(1)] by metis
  have v1: "dropWhile isspace (v @ x) = v @ x" for x
    using vt by (cases v) (simp_all add: value_text_def)
  have dw: "dropWhile isspace (w2 @ SP # ?r) = v @ tail @ [NL]"
    by (simp add: blank_text_dropWhile [OF w(3)] blank_text_dropWhile [OF w(4)] v1)
  have pk: "isspace (peek (w2 @ SP # ?r))" using d [of ?r] by (metis peek_simps(2))
  have len: "length (upcase k) \<le> MAX_KEYWORD_LEN" using va lk by (simp add: valid_assign_def)
  show ?thesis
  proof -
    have "check_keyword_value rdt c (w1 @ upcase k @ w2 @ SP # ?r) s l rep =
        check_value rdt i (id_count rdt i c) (dropWhile isspace (w2 @ SP # ?r)) s l rep"
      unfolding check_keyword_value_def cp Let_def st bind.bind_lunit
      using len pk lk by (simp add: id_count_def del: dropWhile.simps)
    also have "\<dots> = Some (0, (v, i, id_count rdt i c), s, l, rep)"
      unfolding dw by (rule check_value_valid [OF va lk vt])
    finally show ?thesis .
  qed
qed

lemma getrule_loop_turn:
  assumes "get_fmt_line b s l rep = Some (0, buf, t, l', rep)"
    and "check_keyword_value rdt c buf t l' rep = Some (0, (v, i, 1), t, l', rep)"
    and "data_type (rdt ! i) = RSTRING_TYPE \<or> data_type (rdt ! i) = RLONG_TYPE"
  shows "getrule_loop rdt b c s l rep bt = getrule_loop rdt False 1 t l' rep (assign_opt rdt i v bt)"
proof (cases bt)
  case None
  then show ?thesis using assms by (subst getrule_loop.simps) (simp add: assign_opt_def)
next
  case (Some bt1)
  obtain bt2 where "assign_value rdt i v bt1 = (0, bt2)"
    using assms(3) by (auto simp: assign_value_def)
  with Some show ?thesis using assms(1,2) by (subst getrule_loop.simps) (simp add: assign_opt_def)
qed

lemma getrule_loop_same_line:
  "get_fmt_line b s l rep = get_fmt_line b t l' rep \<Longrightarrow>
     getrule_loop rdt b c s l rep bt = getrule_loop rdt b c t l' rep bt"
  by (simp add: getrule_loop.simps [of rdt b c s] getrule_loop.simps [of rdt b c t])

lemma getrule_loop_key:
  assumes va: "valid_assign rdt (upcase k, v)" and lk: "lookup_rule rdt (upcase k) = Some i"
    and w: "blank_text w1" "key_text k" "blank_text w2" "blank_text w3" and vt: "value_text v tail"
    and lt: "line_text (w1 @ k @ w2 @ CHR ''='' # w3 @ v @ tail)" and one: "id_count rdt i c = 1"
  shows "getrule_loop rdt b c ((w1 @ k @ w2 @ CHR ''='' # w3 @ v @ tail) @ NL # t) l rep bt =
    getrule_loop rdt False 1 t (l + 1) rep (assign_opt rdt i v bt)"
proof -
  let ?s = "(w1 @ k @ w2 @ CHR ''='' # w3 @ v @ tail) @ NL # t"
  have g: "get_fmt_line b ?s l rep = Some (0, w1 @ upcase k @ w2 @ SP # w3 @ v @ tail @ [NL], t, l + 1, rep)"
    using next_line_key [OF w(1,2) lt] fmt_line_key [OF w vt] by (simp add: get_fmt_line_def)
  show ?thesis
    by (rule getrule_loop_turn [OF g])
      (use va lk check_keyword_value_valid [OF va lk w vt] one in \<open>auto simp: valid_assign_def\<close>)
qed

lemma getrule_loop_comment:
  assumes "blank_text w" "line_text (w @ CHR ''*'' # c)"
  shows "getrule_loop rdt b n ((w @ CHR ''*'' # c) @ NL # t) l rep bt = getrule_loop rdt b n t (l + 1) rep bt"
proof -
  have "get_fmt_line b ((w @ CHR ''*'' # c) @ NL # t) l rep = get_fmt_line b t (l + 1) rep"
    unfolding get_fmt_line_def next_line_comment [OF assms] ..
  then show ?thesis by (rule getrule_loop_same_line)
qed

text \<open>The rest of a stanza, and a stanza from its first line on.\<close>

lemma getrule_loop_stanza_rest:
  assumes "stanza as t n" "\<forall>a \<in> set as. valid_assign rdt a \<and> fst a \<noteq> ''RULE_ID''"
  shows "getrule_loop rdt False 1 (t @ rest) l rep bt = Some (0, rest, l + n, rep, assign_all rdt as bt)"
  using assms
proof (induction arbitrary: l bt rule: stanza.induct)
  case (stanza_end w)
  then have "get_fmt_line False (w @ NL # rest) l rep = Some (-1, [], rest, l + 1, rep)"
    by (simp add: get_fmt_line_def next_line_end)
  then show ?case by (simp add: getrule_loop.simps [of rdt False 1 "w @ NL # rest"] assign_all_def)
next
  case (stanza_comment as t n w c)
  then show ?case using getrule_loop_comment [OF stanza_comment(2,3), of rdt False 1 "t @ rest" l rep bt]
    by (simp add: add.commute add.left_commute)
next
  case (stanza_key as t n w1 k w2 w3 v tail)
  obtain i where lk: "lookup_rule rdt (upcase k) = Some i"
    using stanza_key.prems by (auto simp: valid_assign_def split: option.splits)
  then have "id_count rdt i 1 = 1"
    using stanza_key.prems lookup_rule_keyword by (auto simp: id_count_def)
  with lk stanza_key show ?case
    using getrule_loop_key [OF _ lk stanza_key(2-7), of 1 False "t @ rest" l rep bt]
    by (simp add: assign_all_def add.commute add.left_commute)
qed

lemma getrule_loop_stanza:
  assumes "stanza as t n" "as = (''RULE_ID'', v) # as'" "valid_assign rdt (''RULE_ID'', v)"
    "\<forall>a \<in> set as'. valid_assign rdt a \<and> fst a \<noteq> ''RULE_ID''"
  shows "getrule_loop rdt True 0 (t @ rest) l rep bt = Some (0, rest, l + n, rep, assign_all rdt as bt)"
  using assms
proof (induction arbitrary: l rule: stanza.induct)
  case (stanza_comment as t n w c)
  then show ?case using getrule_loop_comment [OF stanza_comment(2,3), of rdt True 0 "t @ rest" l rep bt]
    by (simp add: add.commute add.left_commute)
next
  case (stanza_key as t n w1 k w2 w3 v' tail)
  have v: "upcase k = ''RULE_ID''" "v' = v" "as = as'" using stanza_key.prems(1) by auto
  obtain i where lk: "lookup_rule rdt (upcase k) = Some i"
    using stanza_key.prems(2) v by (auto simp: valid_assign_def split: option.splits)
  then have one: "id_count rdt i 0 = 1"
    using v lookup_rule_keyword by (auto simp: id_count_def)
  have "getrule_loop rdt False 1 (t @ rest) (l + 1) rep (assign_opt rdt i v bt) =
      Some (0, rest, l + 1 + n, rep, assign_all rdt as (assign_opt rdt i v bt))"
    using stanza_key.hyps(1) stanza_key.prems(3) v(3) by (intro getrule_loop_stanza_rest) auto
  with lk one v stanza_key.prems(2) show ?case
    using getrule_loop_key [OF _ lk stanza_key(2-7), of 0 True "t @ rest" l rep bt]
    by (simp add: assign_all_def add.commute add.left_commute)
qed simp

subsection \<open>Rule files\<close>

text \<open>Blank and comment lines before a stanza, and a whole rule file as a sequence of stanzas.\<close>

inductive filler :: "string \<Rightarrow> int \<Rightarrow> bool" where
  filler_Nil: "filler [] 0"
| filler_blank: "filler f n \<Longrightarrow> blank_text w \<Longrightarrow> line_text w \<Longrightarrow> filler (w @ NL # f) (n + 1)"
| filler_comment: "filler f n \<Longrightarrow> blank_text w \<Longrightarrow> line_text (w @ CHR ''*'' # c) \<Longrightarrow>
    filler ((w @ CHR ''*'' # c) @ NL # f) (n + 1)"

inductive rule_text :: "(cstring \<times> cstring) list list \<Rightarrow> string \<Rightarrow> bool" where
  rule_text_Nil: "filler f n \<Longrightarrow> rule_text [] f"
| rule_text_Cons: "filler f m \<Longrightarrow> stanza as t n \<Longrightarrow> rule_text ass r \<Longrightarrow> rule_text (as # ass) (f @ t @ r)"

inductive_cases rule_text_ConsE: "rule_text (as # ass) t"
inductive_cases rule_text_NilE: "rule_text [] t"

definition valid_stanza :: "rule_def list \<Rightarrow> (cstring \<times> cstring) list \<Rightarrow> bool" where
  "valid_stanza rdt as \<longleftrightarrow>
     (case as of [] \<Rightarrow> False
      | a # as' \<Rightarrow> fst a = ''RULE_ID'' \<and> valid_assign rdt a \<and>
          (\<forall>a \<in> set as'. valid_assign rdt a \<and> fst a \<noteq> ''RULE_ID''))"

lemma next_line_blank:
  assumes "blank_text w" "line_text w"
  shows "next_line True (w @ NL # r) l = next_line True r (l + 1)"
  using line_text_fgets [OF assms(2)] line_text_cstr [OF assms(2)] assms(1)
  by (subst next_line.simps) (simp add: Let_def blank_text_dropWhile)

lemma next_line_filler:
  "filler f n \<Longrightarrow> next_line True (f @ t) l = next_line True t (l + n)"
proof (induction arbitrary: l rule: filler.induct)
  case (filler_blank f n w)
  then show ?case using next_line_blank [of w "f @ t" l] by (simp add: add.commute add.left_commute)
next
  case (filler_comment f n w c)
  then show ?case using next_line_comment [of w c True "f @ t" l] by (simp add: add.commute add.left_commute)
qed simp

lemma getrule_filler: "filler f n \<Longrightarrow> getrule rdt (f @ t) l rep bt = getrule rdt t (l + n) rep bt"
  unfolding getrule_def by (rule getrule_loop_same_line) (simp add: get_fmt_line_def next_line_filler)

lemma getrule_stanza:
  assumes "stanza as t n" "valid_stanza rdt as"
  shows "getrule rdt (t @ r) l rep bt = Some (0, r, l + n, rep, assign_all rdt as bt)"
proof -
  obtain v as' where "as = (''RULE_ID'', v) # as'" using assms(2) by (auto simp: valid_stanza_def split: list.splits)
  then show ?thesis unfolding getrule_def
    using assms by (intro getrule_loop_stanza) (auto simp: valid_stanza_def)
qed

lemma getrule_eof: "filler f n \<Longrightarrow> getrule rdt f l rep bt = Some (-1, [], l + n, rep, bt)"
  using getrule_filler [of f n rdt "[]" l rep bt]
  by (simp add: getrule_def getrule_loop.simps [of rdt True 0 "[]"] get_fmt_line_def next_line.simps [of True "[]"])

lemma check_rules_text:
  assumes "rule_text ass t" "\<forall>as \<in> set ass. valid_stanza rdt as"
  shows "check_rules rdt t l rep = Some (-1, rep)"
  using assms
proof (induction arbitrary: l rule: rule_text.induct)
  case (rule_text_Nil f n)
  then show ?case by (simp add: check_rules.simps [of rdt f] getrule_eof)
next
  case (rule_text_Cons f m as t n ass r)
  then have "getrule rdt (f @ t @ r) l rep None = Some (0, r, l + m + n, rep, assign_all rdt as None)"
    by (simp add: getrule_filler getrule_stanza)
  then show ?case using rule_text_Cons
    by (simp add: check_rules.simps [of rdt "f @ t @ r"] split: option.splits)
qed

subsection \<open>Defaults\<close>

definition default_of :: "rule_def \<Rightarrow> rval" where
  "default_of r =
     (case value_args (value_list r) of
        [] \<Rightarrow> RLong 0
      | a # _ \<Rightarrow>
          (case chk_arg r a (zero_htx_data, []) of
             Some (ChkOk v l _, _) \<Rightarrow> (if data_type r = RSTRING_TYPE then RStr v else RLong l)
           | _ \<Rightarrow> RLong 0))"

definition good_entry :: "rule_def \<Rightarrow> bool" where
  "good_entry r \<longleftrightarrow> keyword r \<noteq> [] \<and> (data_type r = RSTRING_TYPE \<or> data_type r = RLONG_TYPE) \<and>
     checked r \<and> value_args (value_list r) \<noteq> [] \<and> 0 \<le> rlen r \<and> rlen r < 2 ^ 31"

lemma chk_arg_string_length:
  assumes "chk_arg r a rep = Some (ChkOk v l v2, rep')" "data_type r = RSTRING_TYPE" "0 \<le> rlen r" "rlen r < 2 ^ 31"
  shows "int (length v) \<le> rlen r"
  using assms(1)
proof (rule chk_arg_okD)
  fix v' cp n1
  assume c: "chk_a_value r v' rep = Some (0, n1, rep)"
    and i: "if dropWhile isspace cp = [] then v = v' \<and> l = long_result r n1 \<and> v2 = None \<and> rep' = rep
      else peek (dropWhile isspace cp) = RANGE_DELIM \<and>
        chk_range_end r v' n1 (tl (dropWhile isspace cp)) rep = Some (ChkOk v l v2, rep')"
  have "v = v'" using i by (auto split: if_splits elim: chk_range_end_okD)
  moreover have "int (length v') \<le> rlen r mod 2 ^ 64"
    using c assms(2) by (auto simp: chk_a_value_def bind_eq_Some_conv split: if_splits)
  ultimately show ?thesis using assms(3,4) by simp
qed

lemma good_entry_default:
  assumes "good_entry r"
  obtains a vlp v l v2 where "next_arg (value_list r) = Some (a, vlp)" "arg_buf a = Some a"
    "\<And>rep. chk_arg r a rep = Some (ChkOk v l v2, rep)"
    "default_of r = (if data_type r = RSTRING_TYPE then RStr v else RLong l)"
    "data_type r = RSTRING_TYPE \<longrightarrow> length v \<le> nat (rlen r)"
proof -
  obtain a vlp where na: "next_arg (value_list r) = Some (a, vlp)"
    using assms by (auto simp: good_entry_def value_args.simps [of "value_list r"] split: option.splits)
  have "chk_value_list r (value_list r) (zero_htx_data, []) = Some (0, (zero_htx_data, []))"
    using assms unfolding good_entry_def checked_def by blast
  from chk_value_list_okD [OF this na] obtain v l v2 where ab: "arg_buf a = Some a"
    and c: "\<And>rep. chk_arg r a rep = Some (ChkOk v l v2, rep)" by blast
  have va: "value_args (value_list r) = a # value_args vlp" by (simp add: value_args.simps [of "value_list r"] na)
  have "data_type r = RSTRING_TYPE \<longrightarrow> length v \<le> nat (rlen r)"
    using chk_arg_string_length [OF c] assms by (auto simp: good_entry_def)
  with that [OF na ab c] va c show thesis by (simp add: default_of_def)
qed

lemma set_default_var_good:
  assumes "\<forall>r \<in> set rdt. good_entry r" "length bu = length rdt"
  shows "set_default_var rdt rep bu = Some (0, rep, map default_of rdt)"
  using assms
proof (induction rdt arbitrary: bu)
  case (Cons r rs)
  have g: "good_entry r" using Cons.prems by simp
  obtain b bu' where bu: "bu = b # bu'" "length bu' = length rs" using Cons.prems(2) by (cases bu) auto
  have IH: "set_default_var rs rep bu' = Some (0, rep, map default_of rs)"
    using Cons.IH Cons.prems(1) bu(2) by simp
  show ?case using g
  proof (rule good_entry_default)
    fix a vlp v l v2
    assume "next_arg (value_list r) = Some (a, vlp)" "arg_buf a = Some a"
      "\<And>rep. chk_arg r a rep = Some (ChkOk v l v2, rep)"
      "default_of r = (if data_type r = RSTRING_TYPE then RStr v else RLong l)"
      "data_type r = RSTRING_TYPE \<longrightarrow> length v \<le> nat (rlen r)"
    with g IH bu show ?thesis by (auto simp: good_entry_def strlencpy_def)
  qed
qed simp

lemma bind_ptrs_good:
  assumes "\<forall>r \<in> set rdt. good_entry r" "length vars = length rdt"
  shows "bind_ptrs rdt vars = Some (0, vars)"
proof -
  have k: "takeWhile (\<lambda>r. keyword r \<noteq> []) rdt = rdt"
    using assms(1) by (simp add: takeWhile_eq_all_conv good_entry_def)
  have t: "takeWhile (\<lambda>r. data_type r = RSTRING_TYPE \<or> data_type r = RLONG_TYPE) rdt = rdt"
    using assms(1) by (simp add: takeWhile_eq_all_conv good_entry_def)
  have "rule_count rdt = length rdt" unfolding rule_count_def k ..
  then show ?thesis using assms(2) t by (simp add: bind_ptrs_def Let_def del: takeWhile_eq_all_conv)
qed

lemma chk_rdt_syntax_good: "\<forall>r \<in> set rdt. checked r \<Longrightarrow> chk_rdt_syntax rdt rep = Some (0, rep)"
proof (induction rdt)
  case (Cons r rs)
  have "chk_value_list r (value_list r) rep = Some (0, rep)"
    using Cons.prems unfolding checked_def by (metis list.set_intros(1))
  with Cons show ?case by simp
qed simp

subsection \<open>Properties of reading rule files\<close>

lemma rule_count_good: "\<forall>r \<in> set rdt. good_entry r \<Longrightarrow> rule_count rdt = length rdt"
proof -
  assume "\<forall>r \<in> set rdt. good_entry r"
  then have "takeWhile (\<lambda>r. keyword r \<noteq> []) rdt = rdt" by (simp add: takeWhile_eq_all_conv good_entry_def)
  then show ?thesis by (simp only: rule_count_def)
qed

lemma assign_all_Some: "\<exists>bt. assign_all rdt as (Some ds) = Some bt"
  by (induction as arbitrary: ds) (auto simp: assign_all_def assign_opt_def)


text \<open>The table and the file used by the witnesses below.\<close>

definition sample_id :: rule_def where
  "sample_id = \<lparr>keyword = ''RULE_ID'', data_type = 0, rlen = 8, value_list = ''A-z''\<rparr>"

definition sample_n :: rule_def where
  "sample_n = \<lparr>keyword = ''N'', data_type = 1, rlen = 0, value_list = ''1-9''\<rparr>"

definition sample_table :: "rule_def list" where
  "sample_table = [sample_id, sample_n]"

definition sample_stanza :: "(cstring \<times> cstring) list" where
  "sample_stanza = [(''RULE_ID'', ''T1''), (''N'', ''5'')]"

definition sample_text :: string where
  "sample_text = ''rule_id = T1 first\<newline>* remark\<newline>n=5\<newline>\<newline>''"

lemmas long_eval = check_long_def strtol_def strtol_sign_def dec_val_def long_via_double_small

lemma sample_checked: "checked sample_id" "checked sample_n"
  by (auto simp: checked_def sample_id_def sample_n_def rule_def_eval long_eval)

lemma sample_good: "\<forall>r \<in> set sample_table. good_entry r"
  using sample_checked
  by (auto simp: good_entry_def sample_table_def sample_id_def sample_n_def value_args.simps next_arg_def cstr_simps)

lemma sample_stanza_text: "stanza sample_stanza sample_text 4"
proof -
  note t = cstr_simps blank_text_def line_text_def key_text_def value_text_def
  have 1: "stanza [] ([] @ [NL]) 1" by (rule stanza_end) (simp_all add: t)
  have 2: "stanza [(upcase ''n'', ''5'')] (([] @ ''n'' @ [] @ CHR ''='' # [] @ ''5'' @ []) @ NL # ([] @ [NL])) (1 + 1)"
    by (rule stanza_key [OF 1]) (simp_all add: t)
  have 3: "stanza [(upcase ''n'', ''5'')]
      (([] @ CHR ''*'' # '' remark'') @ NL # (([] @ ''n'' @ [] @ CHR ''='' # [] @ ''5'' @ []) @ NL # ([] @ [NL]))) (1 + 1 + 1)"
    by (rule stanza_comment [OF 2]) (simp_all add: t)
  have 4: "stanza ((upcase ''rule_id'', ''T1'') # [(upcase ''n'', ''5'')])
      (([] @ ''rule_id'' @ '' '' @ CHR ''='' # '' '' @ ''T1'' @ '' first'') @ NL #
       (([] @ CHR ''*'' # '' remark'') @ NL # (([] @ ''n'' @ [] @ CHR ''='' # [] @ ''5'' @ []) @ NL # ([] @ [NL]))))
      (1 + 1 + 1 + 1)"
    by (rule stanza_key [OF 3]) (simp_all add: t)
  then show ?thesis by (simp add: sample_stanza_def sample_text_def upcase_def cstr_simps)
qed

lemma legal_value_eval:
  assumes "checked r"
  shows "legal_value r v i \<longleftrightarrow> validate_value r v i (zero_htx_data, []) = Some (0, (zero_htx_data, []))"
proof -
  have "chk_value_list r (value_list r) (zero_htx_data, []) = Some (0, (zero_htx_data, []))"
    using assms unfolding checked_def by blast
  from validate_loop_decides [OF this] show ?thesis
    by (simp add: validate_value_def legal_value_def)
qed

lemma sample_valid: "valid_stanza sample_table sample_stanza"
proof -
  have "legal_value sample_id ''T1'' 0"
    unfolding legal_value_eval [OF sample_checked(1)]
    by (simp add: sample_id_def validate_value_def rule_def_eval string_matches_def)
  then have "valid_assign sample_table (''RULE_ID'', ''T1'')"
    using sample_checked by (simp add: valid_assign_def value_num_def sample_table_def) (simp add: sample_id_def)
  moreover have "legal_value sample_n ''5'' 5"
    unfolding legal_value_eval [OF sample_checked(2)]
    by (simp add: sample_n_def validate_value_def rule_def_eval long_matches_def long_eval)
  then have "valid_assign sample_table (''N'', ''5'')"
    using sample_checked
    by (simp add: valid_assign_def value_num_def sample_table_def)
      (simp add: sample_id_def sample_n_def cstr_simps long_eval)
  ultimately show ?thesis by (simp add: valid_stanza_def sample_stanza_def)
qed


text \<open>
  C13: opening a rule file that is a sequence of valid stanzas (with blank and comment
  lines between them) while no rule file is open. The table passes the syntax check, the
  whole file is read once, and \<open>open_rf\<close> returns 0 with the file rewound to its first byte
  and the line number 0, ready for the first \<open>read_rf\<close>. No report is made.
\<close>

theorem open_rf_valid_file:
  assumes "\<forall>r \<in> set rdt. checked r" "rule_text ass contents" "\<forall>as \<in> set ass. valid_stanza rdt as"
    and "rule_fp st = None"
  shows "open_rf rdt (Some contents) rep st =
    Some (0, [], rep, \<lparr>rule_fp = Some (contents, contents), rule_file_lineno = 0\<rparr>)"
  using assms chk_rdt_syntax_good [OF assms(1)] check_rules_text [OF assms(2,3)]
  by (simp add: open_rf_def zero_one_def)

theorem open_rf_valid_file_witness:
  "open_rf sample_table (Some ([] @ sample_text @ [])) (zero_htx_data, []) rule_init =
     Some (0, [], (zero_htx_data, []), \<lparr>rule_fp = Some ([] @ sample_text @ [], [] @ sample_text @ []), rule_file_lineno = 0\<rparr>)"
proof (rule open_rf_valid_file)
  show "rule_text [sample_stanza] ([] @ sample_text @ [])"
    using filler_Nil sample_stanza_text rule_text_Nil [OF filler_Nil] by (rule rule_text_Cons)
  show "\<forall>as \<in> set [sample_stanza]. valid_stanza sample_table as" using sample_valid by simp
  show "\<forall>r \<in> set sample_table. checked r" using sample_good by (simp add: good_entry_def)
qed (simp add: rule_init_def)

text \<open>
  What \<open>getrule\<close> can return: whenever it comes back at all, the result is 0 (a
  stanza was read, and at least one line was consumed) or -1 (end of file before any keyword):
  the documented result 1 for a faulty rule file is never delivered, because every error
  report of \<open>getrule.c\<close> passes a format string where \<open>htx_err\<close> expects the
  \<open>htx_data\<close> pointer. It never moves backwards in the file.
\<close>

theorem getrule_results:
  assumes "getrule rdt s l rep bt = Some (rc, s', l', rep', bt')"
  shows "(rc = 0 \<and> length s' < length s) \<or> (rc = -1 \<and> length s' \<le> length s)"
  using getrule_loop_progress [OF assms [unfolded getrule_def]] by auto

theorem getrule_results_witness:
  "(0 = (0 :: int) \<and> length ([] :: string) < length (sample_text @ [])) \<or>
   (0 = (-1 :: int) \<and> length ([] :: string) \<le> length (sample_text @ []))"
  by (rule getrule_results [OF getrule_stanza [OF sample_stanza_text sample_valid,
        of "[]" 0 "(zero_htx_data, [])" None]])

text \<open>
  a rule file whose last line is an assignment that is not ended by a newline or
  blank makes \<open>getrule\<close> run off the end of its line buffer: the scan over the value stops only at
  a blank, and the terminating NUL is not one.
\<close>

theorem last_line_without_newline:
  assumes "key_text k" "valid_assign rdt (upcase k, v)" "v \<noteq> []" "\<forall>c \<in> set v. \<not> isspace c"
    and "line_text (k @ CHR ''='' # v)"
  shows "getrule rdt (k @ CHR ''='' # v) l rep bt = None"
proof -
  let ?s = "k @ CHR ''='' # v"
  have cs: "cstr ?s = ?s" using assms(5) by (intro cstr_id) (simp add: line_text_def)
  have fg: "fgets BUFF ?s = Some (?s, [])"
    using assms(5) by (intro fgets_last) (simp_all add: line_text_def)
  have cp: "dropWhile isspace ?s = ?s" by (rule key_text_dropWhile [OF assms(1)])
  have pk: "peek ?s = hd k" by (rule key_text_peek [OF assms(1)])
  have ha: "isalpha (hd k)" using assms(1) by (simp add: key_text_def)
  have nl: "next_line True ?s l = (Some ?s, [], l + 1)"
    using fg cs cp pk alpha_facts [OF ha] by (subst next_line.simps) (simp add: Let_def)
  have eq: "\<not> isspace (CHR ''='')" by (simp add: ctype_simps)
  let ?in_kw = "\<lambda>c. \<not> isspace c \<and> c \<noteq> CHR ''=''"
  have kw: "takeWhile ?in_kw ?s = k" "dropWhile ?in_kw ?s = CHR ''='' # v"
    using assms(1) unfolding key_text_def by (simp_all add: takeWhile_append2 dropWhile_append2)
  have ts: "takeWhile isspace ?s = []" using pk alpha_facts [OF ha] by (cases k) auto
  have dv: "dropWhile isspace v = v" using assms(3,4) by (cases v) auto
  have fm: "fmt_line_syntax ?s = Inr (upcase k @ SP # v)"
    unfolding fmt_line_syntax_def Let_def cp pk kw ts using ha eq dv assms(3) by (simp add: upcase_def)
  have ku: "\<forall>c \<in> set (upcase k). \<not> isspace c" "upcase k \<noteq> []"
    using assms(1) upcase_nonspace [of k] unfolding key_text_def by auto
  have dk: "dropWhile isspace (upcase k @ SP # v) = upcase k @ SP # v" using ku by (cases "upcase k") auto
  have st: "scan_token (upcase k @ SP # v) = Some (upcase k)" using ku(1) by (rule scan_token_stop) simp
  have sv: "scan_token v = None" using assms(4) by (auto simp: scan_token_def)
  obtain i where lk: "lookup_rule rdt (upcase k) = Some i" and len: "length (upcase k) \<le> MAX_KEYWORD_LEN"
    using assms(2) by (auto simp: valid_assign_def split: option.splits)
  have "check_keyword_value rdt 0 (upcase k @ SP # v) [] (l + 1) rep = None"
    unfolding check_keyword_value_def Let_def dk st bind.bind_lunit
    using len lk dv sv assms(3) by (simp add: check_value_def)
  then show ?thesis unfolding getrule_def
    by (subst getrule_loop.simps) (simp add: get_fmt_line_def nl fm)
qed

theorem last_line_without_newline_witness:
  "getrule sample_table (''rule_id'' @ CHR ''='' # ''T1'') 0 (zero_htx_data, []) None = None"
proof (rule last_line_without_newline)
  have "upcase ''rule_id'' = ''RULE_ID''" by (simp add: upcase_def cstr_simps)
  then show "valid_assign sample_table (upcase ''rule_id'', ''T1'')"
    using sample_valid by (simp add: valid_stanza_def sample_stanza_def)
qed (simp_all add: key_text_def line_text_def cstr_simps)

text \<open>
  The open state of the rule file. \<open>close_rf\<close> and \<open>rewind_rf\<close> succeed
  exactly when a file is open; closing always leaves no file open, so that a second close
  fails; rewinding restores the first byte and line 0 and is idempotent; a second
  \<open>open_rf\<close> without a close fails and changes nothing.
\<close>

theorem rule_state_machine:
  "close_rf rep st = Some (if rule_fp st = None then 1 else 0, [], rep,
     if rule_fp st = None then st else rule_init) \<and>
   rewind_rf rep st = Some (if rule_fp st = None then 1 else 0, [], rep,
     st\<lparr>rule_fp := map_option (\<lambda>p. (fst p, fst p)) (rule_fp st),
        rule_file_lineno := if rule_fp st = None then rule_file_lineno st else 0\<rparr>) \<and>
   (rule_fp st = None \<or> open_rf rdt file rep st = Some (1, [], rep, st))"
  by (cases st; cases rep) (auto simp: close_rf_def rewind_rf_def open_rf_def zero_one_def rule_init_def split: option.splits)

end
