(* ===== verification/Htx_Buffers.thy ===== *)
theory Htx_Buffers
  imports Htx_Err
begin

text \<open>
  The buffer routines of \<open>lib/htx64\<close> every exerciser uses: \<open>hxfpat\<close> fills a buffer with a
  pattern (\<open>hxfpat.c\<close>), \<open>hxfsbuf\<close> saves a buffer to a file (\<open>hxfsbuf.c\<close>) and
  \<open>hxfcbuf\<close> compares what was read with what was written (\<open>hxfcbuf.c\<close>). The locked
  entry points of \<open>htxmp_new.c\<close> call these bodies inside one mutex each.

  Buffers are lists of bytes. What a system call returns is an argument: the outcomes of
  \<open>open\<close>, \<open>read\<close>, \<open>write\<close>, \<open>fsync\<close> and \<open>close\<close>, the process id, and the value of
  \<open>HTX_LOG_DIR\<close>. HTX is built for both byte orders (\<open>htx.mk\<close>), so the byte order of
  an \<open>int\<close> is an argument as well.
\<close>

subsection \<open>Messages\<close>

text \<open>\<open>hxfmsg\<close> for a non-NULL structure: the fields it sets and the message handed on. The text is cut
  to \<open>MAX_TEXT_MSG - 1\<close> characters.\<close>

abbreviation (input) MAX_TEXT_MSG :: nat where "MAX_TEXT_MSG \<equiv> 3672"

definition hxfmsg :: "int \<Rightarrow> int \<Rightarrow> string \<Rightarrow> rep \<Rightarrow> rep" where
  "hxfmsg err sev txt rep =
     (let t = take (MAX_TEXT_MSG - 1) txt
      in ((fst rep)\<lparr>error_code := err, severity_code := sev, msg_text := t\<rparr>, snd rep @ [(err, sev, t)]))"

subsection \<open>Filling a buffer: \<open>hxfpat\<close>\<close>

definition hex_val :: "char \<Rightarrow> nat option" where
  "hex_val c =
     (if isdigit c then Some (code c - 48)
      else if 97 \<le> code c \<and> code c \<le> 102 then Some (code c - 87)
      else if 65 \<le> code c \<and> code c \<le> 70 then Some (code c - 55) else None)"

definition hex_prefix :: "cstring \<Rightarrow> cstring" where
  "hex_prefix t =
     (if peek t = CHR ''0'' \<and> (peek (tl t) = CHR ''x'' \<or> peek (tl t) = CHR ''X'') \<and>
         hex_val (peek (tl (tl t))) \<noteq> None then tl (tl t) else t)"

text \<open>\<open>strtoul (s, NULL, 16)\<close>, for texts too short to overflow.\<close>

definition strtoul16 :: "cstring \<Rightarrow> int" where
  "strtoul16 s =
     (let (neg, t) = strtol_sign (dropWhile isspace s);
          ds = takeWhile (\<lambda>c. hex_val c \<noteq> None) (hex_prefix t);
          v = foldl (\<lambda>a c. 16 * a + int (the (hex_val c))) 0 ds
      in (if neg then - v else v) mod 2 ^ 64)"

text \<open>The bytes of a 32-bit \<open>int\<close> in memory order.\<close>

definition int_bytes :: "bool \<Rightarrow> int \<Rightarrow> nat list" where
  "int_bytes le v =
     (let w = nat (v mod 2 ^ 32);
          bs = [w mod 256, (w div 256) mod 256, (w div 65536) mod 256, w div 16777216]
      in if le then bs else rev bs)"

text \<open>The copy loop. It does not end when nothing was read; \<open>None\<close> is not returning.\<close>

partial_function (option) fill_loop :: "nat \<Rightarrow> nat list \<Rightarrow> nat \<Rightarrow> nat list option" where
  "fill_loop num_chars buf chars_copied =
     (if chars_copied < num_chars then
        (let chars_left = num_chars - chars_copied;
             this_copy = (if chars_left < chars_copied then chars_left else chars_copied)
         in fill_loop num_chars
              (take chars_copied buf @ take this_copy buf @ drop (chars_copied + this_copy) buf)
              (chars_copied + this_copy))
      else Some buf)"

text \<open>What the system calls on the pattern file give: failure to open, or the bytes read
  (\<open>None\<close> for an error) and whether \<open>close\<close> succeeds.\<close>

datatype pat_io = OpenFails | Opened "nat list option" bool

definition is_hex_name :: "cstring \<Rightarrow> bool fault" where
  "is_hex_name filename =
     (if length filename < 4 then None
      else let t = take 2 (drop (length filename - 4) filename) in Some (t = ''0x'' \<or> t = ''0X''))"

definition hxfpat_tefficient ::
  "bool \<Rightarrow> cstring \<Rightarrow> pat_io \<Rightarrow> nat \<Rightarrow> nat list \<Rightarrow> (int \<times> nat list) option" where
  "hxfpat_tefficient le filename io num_chars pattern_buf =
     do { hex_flag \<leftarrow> is_hex_name filename;
          if hex_flag \<and> num_chars mod 4 = 0 then
            (let pattern = wrap32 (strtoul16 (drop (length filename - 2) filename));
                 s3 = int_bytes le pattern ! 3
             in Some (0, replicate (num_chars div 4 * 4) s3 @ drop (num_chars div 4 * 4) pattern_buf))
          else
            (case io of
               OpenFails \<Rightarrow> Some (1, pattern_buf)
             | Opened data close_ok \<Rightarrow>
                 (let buf = replicate num_chars 0 @ drop num_chars pattern_buf in
                  case data of
                    None \<Rightarrow> Some (if close_ok then 2 else 3, buf)
                  | Some bytes \<Rightarrow>
                      do { buf \<leftarrow> fill_loop num_chars (bytes @ drop (length bytes) buf) (length bytes);
                           Some (if close_ok then 0 else 3, buf) })) }"

subsection \<open>Saving a buffer: \<open>hxfsbuf\<close>\<close>

text \<open>The outcome of the calls: the \<open>errno\<close> of a failing \<open>open\<close>, \<open>write\<close>, \<open>fsync\<close> or
  \<open>close\<close> (0 for success), and the number of bytes a successful \<open>write\<close> transferred.\<close>

record save_io =
  open_err :: int
  write_err :: int
  written :: nat
  fsync_err :: int
  close_err :: int

text \<open>The result is the return code, the reports, and the contents of the file if it was opened.\<close>

definition hxfsbuf_tefficient ::
  "save_io \<Rightarrow> nat list \<Rightarrow> cstring \<Rightarrow> rep \<Rightarrow> int \<times> rep \<times> nat list option" where
  "hxfsbuf_tefficient io buf fname rep =
     (if open_err io \<noteq> 0 then
        (open_err io, hxfmsg (open_err io) (-10) (''Error opening '' @ fname @ ''.'') rep, None)
      else
        (let (rc, rep, file) =
           (if write_err io \<noteq> 0 then
              (write_err io, hxfmsg (write_err io) 1 (''Error writing to '' @ fname @ ''.'') rep, [])
            else
              (let rep = (if written io \<noteq> length buf
                  then hxfmsg 0 (-10) (''Error writing to '' @ fname @ ''.\<newline>Only '' @
                         show_int (int (written io)) @ '' of '' @ show_int (int (length buf)) @
                         '' bytes successfully transfered on write() system call.'') rep
                  else rep);
                   (rc, rep) = (if fsync_err io \<noteq> 0
                  then (fsync_err io, hxfmsg (fsync_err io) (-10) (''Error on fsync() to '' @ fname @ ''.'') rep)
                  else (0, rep))
               in (rc, rep, take (written io) buf)))
         in if close_err io \<noteq> 0
            then (close_err io, hxfmsg (close_err io) (-10) (''Error on close() of '' @ fname @ ''.'') rep, Some file)
            else (rc, rep, Some file)))"

subsection \<open>Comparing buffers: \<open>hxfcbuf\<close>\<close>

abbreviation (input) MAX_MISCOMPARES :: nat where "MAX_MISCOMPARES \<equiv> 10"
abbreviation (input) MAX_MSG_DUMP :: nat where "MAX_MSG_DUMP \<equiv> 20"

text \<open>The compare loop: the index where it stops with \<open>mis_flag\<close> set.\<close>

fun first_diff :: "nat list \<Rightarrow> nat list \<Rightarrow> nat \<Rightarrow> nat \<Rightarrow> nat option" where
  "first_diff wbuf rbuf 0 i = None"
| "first_diff wbuf rbuf (Suc n) i =
     (if wbuf ! i \<noteq> rbuf ! i then Some i else first_diff wbuf rbuf n (Suc i))"

definition hex_digit :: "nat \<Rightarrow> char" where
  "hex_digit d = (if d < 10 then char_of (48 + d) else char_of (87 + d))"

text \<open>\<open>%x\<close> of a byte.\<close>

definition fmt_x :: "nat \<Rightarrow> string" where
  "fmt_x b = (if b < 16 then [hex_digit b] else [hex_digit (b div 16), hex_digit (b mod 16)])"

text \<open>\<open>%0.2x\<close> of a byte.\<close>

definition fmt_02x :: "nat \<Rightarrow> string" where
  "fmt_02x b = [hex_digit (b div 16), hex_digit (b mod 16)]"

definition hex_dump :: "(nat \<Rightarrow> string) \<Rightarrow> nat list \<Rightarrow> nat \<Rightarrow> string" where
  "hex_dump fmt buf i = concat (map fmt (take MAX_MSG_DUMP (drop i buf)))"

text \<open>The path of a dump file, kept in 128 bytes; the directory is copied to 64 bytes first.\<close>

definition dump_path :: "cstring option \<Rightarrow> cstring \<Rightarrow> cstring \<Rightarrow> cstring \<Rightarrow> cstring fault" where
  "dump_path log_dir sdev ext suffix =
     (let d = (case log_dir of None \<Rightarrow> ''/tmp/'' | Some d \<Rightarrow> d);
          p = d @ ''htx'' @ drop 5 sdev @ ext @ suffix
      in if length d < 64 \<and> 5 \<le> length sdev \<and> length p < 128 then Some p else None)"

text \<open>The state of an exerciser the two compare routines change: its \<open>htx_data\<close> with the reports
  made, and the dump files written, oldest first.\<close>

record cmp_state =
  cmp_rep :: rep
  dumps :: "(cstring \<times> nat list option) list"

text \<open>The call of \<open>hxfsbuf\<close>; its return code is not used.\<close>

definition save_buf :: "save_io \<Rightarrow> nat list \<Rightarrow> cstring \<Rightarrow> cmp_state \<Rightarrow> cmp_state" where
  "save_buf io buf path st =
     (case hxfsbuf_tefficient io buf path (cmp_rep st) of
        (_, rep, file) \<Rightarrow> st\<lparr>cmp_rep := rep, dumps := dumps st @ [(path, file)]\<rparr>)"

definition bump_count :: "cmp_state \<Rightarrow> cmp_state" where
  "bump_count st =
     st\<lparr>cmp_rep := ((fst (cmp_rep st))\<lparr>miscompare_count := miscompare_count (fst (cmp_rep st)) + 1\<rparr>, snd (cmp_rep st))\<rparr>"

abbreviation (input) count_of :: "cmp_state \<Rightarrow> u16" where
  "count_of st \<equiv> miscompare_count (fst (cmp_rep st))"

definition tsafe_text :: "nat list \<Rightarrow> nat list \<Rightarrow> nat \<Rightarrow> string" where
  "tsafe_text wbuf rbuf i =
     ''Miscompare at displacement (decimal) = '' @ show_int (wrap32 (int i)) @ '' '' @
     ''  wbuf = '' @ hex_dump fmt_x wbuf i @ ''  rbuf = '' @ hex_dump fmt_x rbuf i"

definition tefficient_text :: "nat list \<Rightarrow> nat list \<Rightarrow> nat \<Rightarrow> string" where
  "tefficient_text wbuf rbuf i =
     ''Miscompare at displacement (decimal) = '' @ show_int (int i) @ '' '' @
     ''\<newline>wbuf = '' @ hex_dump fmt_02x wbuf i @ ''\<newline>rbuf = '' @ hex_dump fmt_02x rbuf i @ ''\<newline>''"

text \<open>The last message when no more buffers are saved; the two sources break its line
  differently.\<close>

definition not_saved_text :: "string \<Rightarrow> string" where
  "not_saved_text indent =
     ''The maximum number of saved miscompare '' @ indent @
     ''buffers (10) have already\<newline>been saved.  The read and write buffers for this '' @ indent @
     ''miscompare will\<newline>not be saved to disk.\<newline>''"

definition hxfcbuf_calling_hxfsbuf_tsafe ::
  "cstring option \<Rightarrow> int \<Rightarrow> save_io \<times> save_io \<Rightarrow> nat list \<Rightarrow> nat list \<Rightarrow> cmp_state \<Rightarrow>
   (int \<times> string option \<times> cmp_state) fault" where
  "hxfcbuf_calling_hxfsbuf_tsafe log_dir pid io wbuf rbuf st =
     (case first_diff wbuf rbuf (length wbuf) 0 of
        None \<Rightarrow> Some (0, None, st)
      | Some i \<Rightarrow>
          (let msg = tsafe_text wbuf rbuf i; sdev = sdev_id (fst (cmp_rep st)) in
           if unat (count_of st) < MAX_MISCOMPARES then
             (let st = bump_count st;
                  work_str = ''_'' @ show_int pid @ ''_'' @ show_int (int (unat (count_of st)))
              in do { wpath \<leftarrow> dump_path log_dir sdev ''.wbuf'' work_str;
                      let st = save_buf (fst io) wbuf wpath st;
                      rpath \<leftarrow> dump_path log_dir sdev ''.rbuf'' work_str;
                      let st = save_buf (snd io) rbuf rpath st;
                      Some (-1, Some (msg @ ''. The miscompare buffer dump files are '' @ wpath @ '' and '' @ rpath), st) })
           else Some (-1, Some (msg @ not_saved_text [CHR 0x09, CHR 0x09, CHR 0x09]), st)))"

definition hxfcbuf_tefficient ::
  "cstring option \<Rightarrow> save_io \<times> save_io \<Rightarrow> nat list \<Rightarrow> nat list \<Rightarrow> cmp_state \<Rightarrow>
   (int \<times> string option \<times> cmp_state) fault" where
  "hxfcbuf_tefficient log_dir io wbuf rbuf st =
     (case first_diff wbuf rbuf (length wbuf) 0 of
        None \<Rightarrow> Some (0, None, st)
      | Some i \<Rightarrow>
          (let msg = tefficient_text wbuf rbuf i; sdev = sdev_id (fst (cmp_rep st)) in
           if unat (count_of st) < MAX_MISCOMPARES then
             (let st = bump_count st; work_str = ''_'' @ show_int (int (unat (count_of st)))
              in do { wpath \<leftarrow> dump_path log_dir sdev ''.wbuf'' work_str;
                      let st = save_buf (fst io) wbuf wpath st;
                      rpath \<leftarrow> dump_path log_dir sdev ''.rbuf'' work_str;
                      let st = save_buf (snd io) rbuf rpath st;
                      Some (-1, Some msg, st) })
           else Some (-1, Some (msg @ not_saved_text []), st)))"

text \<open>A run of compares, as an exerciser makes them: the buffers and the outcomes of the calls.\<close>

fun compare_all ::
  "cstring option \<Rightarrow> int \<Rightarrow> ((save_io \<times> save_io) \<times> nat list \<times> nat list) list \<Rightarrow> cmp_state \<Rightarrow> cmp_state fault" where
  "compare_all log_dir pid [] st = Some st"
| "compare_all log_dir pid ((io, w, r) # cs) st =
     do { (_, _, st) \<leftarrow> hxfcbuf_calling_hxfsbuf_tsafe log_dir pid io w r st; compare_all log_dir pid cs st }"

subsection \<open>The fill loop\<close>

lemma fill_step:
  assumes "\<forall>i < n. buf ! i = data ! (i mod k)" "length buf = num" "n < num" "0 < k" "k dvd n" "m = min (num - n) n"
    and "0 < n"
  shows "let buf' = take n buf @ take m buf @ drop (n + m) buf in
    length buf' = num \<and> (\<forall>i < n + m. buf' ! i = data ! (i mod k))"
proof -
  let ?b = "take n buf @ take m buf @ drop (n + m) buf"
  have len: "length ?b = num" using assms by auto
  have "?b ! i = data ! (i mod k)" if "i < n + m" for i
  proof (cases "i < n")
    case True
    then show ?thesis using assms by (simp add: nth_append)
  next
    case False
    then have i: "i - n < m" "i - n < n" using that assms(6) by auto
    have "?b ! i = buf ! (i - n)" using False i assms by (auto simp: nth_append)
    also have "\<dots> = data ! ((i - n) mod k)" using assms(1) i(2) by blast
    also have "(i - n) mod k = i mod k"
    proof -
      obtain q where "n = k * q" using assms(5) by (rule dvdE)
      then have "i = (i - n) + k * q" using False by simp
      then show ?thesis by (metis mod_mult_self2)
    qed
    finally show ?thesis .
  qed
  with len show ?thesis by (simp add: Let_def)
qed

lemma fill_loop_total:
  assumes "0 < n" "n \<le> num" "length buf = num" "0 < k" "n < num \<longrightarrow> k dvd n" "\<forall>i < n. buf ! i = data ! (i mod k)"
  shows "\<exists>buf'. fill_loop num buf n = Some buf' \<and> length buf' = num \<and> (\<forall>i < num. buf' ! i = data ! (i mod k))"
  using assms
proof (induction "num - n" arbitrary: n buf rule: less_induct)
  case less
  show ?case
  proof (cases "n < num")
    case False
    then show ?thesis using less.prems by (subst fill_loop.simps) auto
  next
    case True
    define m where "m = min (num - n) n"
    have m: "m = (if num - n < n then num - n else n)" by (simp add: m_def min_def)
    let ?b = "take n buf @ take m buf @ drop (n + m) buf"
    have b: "length ?b = num" "\<forall>i < n + m. ?b ! i = data ! (i mod k)"
      using fill_step [OF less.prems(6,3) True less.prems(4) _ m_def less.prems(1)] less.prems(5) True
      by (auto simp: Let_def)
    have nm: "num - (n + m) < num - n" "0 < n + m" "n + m \<le> num" "n + m < num \<longrightarrow> k dvd n + m"
      using True less.prems(1,5) by (auto simp: m_def min_def)
    note less.hyps [OF nm(1,2,3) b(1) less.prems(4) nm(4) b(2)]
    moreover have "fill_loop num buf n = fill_loop num ?b (n + m)"
      using True by (subst fill_loop.simps) (simp add: m Let_def)
    ultimately show ?thesis by simp
  qed
qed

lemma fill_loop_stuck:
  assumes "0 < num"
  shows "fill_loop num buf 0 = None"
proof (rule ccontr)
  have "n \<noteq> 0 \<or> num = 0" if "fill_loop num buf n = Some r" for num buf n r
    using that
    by (rule fill_loop.raw_induct [where P = "\<lambda>num buf n r. n \<noteq> 0 \<or> num = 0", rotated 1])
      (auto simp: Let_def split: if_splits)
  moreover assume "fill_loop num buf 0 \<noteq> None"
  ultimately show False using assms by blast
qed

subsection \<open>The compare loop\<close>

lemma first_diff_None: "first_diff w r n i = None \<longleftrightarrow> (\<forall>j. i \<le> j \<and> j < i + n \<longrightarrow> w ! j = r ! j)"
proof (induction n arbitrary: i)
  case (Suc n)
  show ?case
  proof (cases "w ! i = r ! i")
    case True
    have "(\<forall>j. i \<le> j \<and> j < i + Suc n \<longrightarrow> w ! j = r ! j) \<longleftrightarrow> (\<forall>j. Suc i \<le> j \<and> j < Suc i + n \<longrightarrow> w ! j = r ! j)"
      using True by (metis Suc_leD Suc_leI add_Suc_right add_Suc_shift le_neq_implies_less)
    then show ?thesis using Suc True by simp
  qed auto
qed simp

lemma first_diff_Some:
  "first_diff w r n i = Some k \<Longrightarrow> i \<le> k \<and> k < i + n \<and> w ! k \<noteq> r ! k \<and> (\<forall>j. i \<le> j \<and> j < k \<longrightarrow> w ! j = r ! j)"
proof (induction n arbitrary: i)
  case (Suc n)
  show ?case
  proof (cases "w ! i = r ! i")
    case True
    then have "Suc i \<le> k \<and> k < Suc i + n \<and> w ! k \<noteq> r ! k \<and> (\<forall>j. Suc i \<le> j \<and> j < k \<longrightarrow> w ! j = r ! j)"
      using Suc.IH [of "Suc i"] Suc.prems by simp
    moreover from this have "\<forall>j. i \<le> j \<and> j < k \<longrightarrow> w ! j = r ! j"
      using True by (metis Suc_leI le_neq_implies_less)
    ultimately show ?thesis by simp
  qed (use Suc.prems in auto)
qed simp

lemma first_diff_eq:
  assumes "length w = length r"
  shows "first_diff w r (length w) 0 = None \<longleftrightarrow> w = r"
  using assms by (auto simp: first_diff_None list_eq_iff_nth_eq)

lemma hxfmsg_count [simp]: "miscompare_count (fst (hxfmsg e s t rep)) = miscompare_count (fst rep)"
  by (simp add: hxfmsg_def Let_def)

lemma hxfsbuf_count:
  "hxfsbuf_tefficient io buf f rep = (rc, rep', file) \<Longrightarrow> miscompare_count (fst rep') = miscompare_count (fst rep)"
  by (auto simp: hxfsbuf_tefficient_def Let_def split: if_splits prod.splits)

lemma save_buf_simps [simp]:
  "count_of (save_buf io buf path st) = count_of st" "length (dumps (save_buf io buf path st)) = Suc (length (dumps st))"
  using hxfsbuf_count by (auto simp: save_buf_def split: prod.split)

lemma bump_count_simps [simp]: "count_of (bump_count st) = count_of st + 1" "dumps (bump_count st) = dumps st"
  by (simp_all add: bump_count_def)

lemma unat_succ_small: "unat (c :: u16) < 10 \<Longrightarrow> unat (c + 1) = Suc (unat c)"
  by (simp add: unat_word_ariths)

lemma tsafe_cases:
  assumes "hxfcbuf_calling_hxfsbuf_tsafe log_dir pid io w r st = Some (rc, msg, st')"
  shows "first_diff w r (length w) 0 = None \<and> rc = 0 \<and> msg = None \<and> st' = st \<or>
    (\<exists>i t. first_diff w r (length w) 0 = Some i \<and> rc = -1 \<and> msg = Some (tsafe_text w r i @ t) \<and>
      (if unat (count_of st) < MAX_MISCOMPARES
       then unat (count_of st') = Suc (unat (count_of st)) \<and> length (dumps st') = length (dumps st) + 2
       else st' = st))"
proof (cases "first_diff w r (length w) 0")
  case None
  then show ?thesis using assms by (simp add: hxfcbuf_calling_hxfsbuf_tsafe_def)
next
  case (Some i)
  then show ?thesis
    using assms
    by (auto simp: hxfcbuf_calling_hxfsbuf_tsafe_def Let_def bind_eq_Some_conv unat_succ_small split: if_splits)
qed

lemma hex_val_less: "hex_val c = Some x \<Longrightarrow> x < 16"
  by (auto simp: hex_val_def isdigit_def split: if_splits)

lemma hex_val_facts: "hex_val c = Some x \<Longrightarrow> \<not> isspace c \<and> c \<noteq> CHR ''-'' \<and> c \<noteq> CHR ''+'' \<and> c \<noteq> CHR ''x'' \<and> c \<noteq> CHR ''X''"
  by (auto simp: hex_val_def ctype_simps split: if_splits)

lemma strtoul16_two:
  assumes "hex_val a = Some x" "hex_val b = Some y"
  shows "strtoul16 [a, b] = int (16 * x + y)"
proof -
  have "16 * int x + int y < 2 ^ 64" using hex_val_less [OF assms(1)] hex_val_less [OF assms(2)] by simp
  then show ?thesis using hex_val_facts [OF assms(1)] hex_val_facts [OF assms(2)] assms
    by (simp add: strtoul16_def strtol_sign_def hex_prefix_def)
qed

subsection \<open>Properties of the buffer routines\<close>

text \<open>
  C30: filling a buffer from a pattern file. When the file opens, \<open>read\<close> delivers at
  least one byte and the name is not a hexadecimal one, the doubling copy loop ends, \<open>hxfpat\<close>
  returns 0, and every byte of the buffer is the byte of the pattern at its index modulo the length
  of the pattern.
\<close>

theorem hxfpat_periodic:
  assumes "is_hex_name filename = Some False" "bytes \<noteq> []" "length bytes \<le> num" "length pattern_buf = num"
  shows "\<exists>buf. hxfpat_tefficient le filename (Opened (Some bytes) True) num pattern_buf = Some (0, buf) \<and>
    length buf = num \<and> (\<forall>i < num. buf ! i = bytes ! (i mod length bytes))"
proof -
  let ?b = "bytes @ drop (length bytes) (replicate num 0 @ drop num pattern_buf)"
  have "\<exists>buf. fill_loop num ?b (length bytes) = Some buf \<and> length buf = num \<and>
      (\<forall>i < num. buf ! i = bytes ! (i mod length bytes))"
    using assms by (intro fill_loop_total) (auto simp: nth_append)
  then show ?thesis using assms(1) by (auto simp: hxfpat_tefficient_def Let_def)
qed

theorem hxfpat_periodic_witness:
  "\<exists>buf. hxfpat_tefficient True ''/pat/WORM'' (Opened (Some [1, 2, 3]) True) 7 (replicate 7 9) = Some (0, buf) \<and>
     length buf = 7 \<and> (\<forall>i < 7. buf ! i = [1, 2, 3] ! (i mod length [1, 2, 3 :: nat]))"
  by (rule hxfpat_periodic) (simp_all add: is_hex_name_def)

text \<open>
  An empty pattern file. When \<open>read\<close> delivers no byte and the buffer is not
  empty, the copy loop copies nothing in every turn and \<open>hxfpat\<close> does not return.
\<close>

theorem hxfpat_empty_file:
  assumes "is_hex_name filename = Some False" "0 < num"
  shows "hxfpat_tefficient le filename (Opened (Some []) close_ok) num pattern_buf = None"
  using assms by (simp add: hxfpat_tefficient_def Let_def fill_loop_stuck)

theorem hxfpat_empty_file_witness:
  "hxfpat_tefficient True ''/pat/WORM'' (Opened (Some []) True) 7 (replicate 7 9) = None"
  by (rule hxfpat_empty_file) (simp_all add: is_hex_name_def)

text \<open>
  hexadecimal pattern names. A name that ends in \<open>0x\<close> and two hexadecimal digits
  fills a buffer whose length is a multiple of four with the byte they denote on a big-endian
  machine; on a little-endian machine the buffer is filled with zeros, whatever the digits
  are, because the byte copied is the most significant one.
\<close>

theorem hxfpat_hex:
  assumes "hex_val a = Some x" "hex_val b = Some y" "num mod 4 = 0" "length pattern_buf = num"
  shows "hxfpat_tefficient False (p @ ''0x'' @ [a, b]) io num pattern_buf = Some (0, replicate num (16 * x + y)) \<and>
    hxfpat_tefficient True (p @ ''0x'' @ [a, b]) io num pattern_buf = Some (0, replicate num 0)"
proof -
  have n: "num div 4 * 4 = num" using assms(3) by (metis add.right_neutral div_mult_mod_eq)
  have hx: "is_hex_name (p @ ''0x'' @ [a, b]) = Some True" by (simp add: is_hex_name_def Let_def)
  have v: "wrap32 (strtoul16 (drop (length (p @ ''0x'' @ [a, b]) - 2) (p @ ''0x'' @ [a, b]))) = int (16 * x + y)"
    using strtoul16_two [OF assms(1,2)] hex_val_less [OF assms(1)] hex_val_less [OF assms(2)] by simp
  have w: "16 * x + y < 256" using hex_val_less [OF assms(1)] hex_val_less [OF assms(2)] by simp
  have bytes: "int_bytes False (int (16 * x + y)) ! 3 = 16 * x + y" "int_bytes True (int (16 * x + y)) ! 3 = 0"
    using w by (simp_all add: int_bytes_def Let_def nat_mod_as_int mod_pos_pos_trivial)
  show ?thesis
    unfolding hxfpat_tefficient_def hx v Let_def using assms(3,4) n bytes by simp
qed

theorem hxfpat_hex_witness:
  "hxfpat_tefficient False (''/p/'' @ ''0x'' @ ''a5'') OpenFails 8 (replicate 8 0) = Some (0, replicate 8 (16 * 10 + 5)) \<and>
   hxfpat_tefficient True (''/p/'' @ ''0x'' @ ''a5'') OpenFails 8 (replicate 8 0) = Some (0, replicate 8 0)"
  by (rule hxfpat_hex) (simp_all add: hex_val_def cstr_simps)


definition sample_cmp :: cmp_state where
  "sample_cmp = \<lparr>cmp_rep = (zero_htx_data\<lparr>sdev_id := ''/dev/sda''\<rparr>, []), dumps = []\<rparr>"

definition good_io :: save_io where
  "good_io = \<lparr>open_err = 0, write_err = 0, written = 2, fsync_err = 0, close_err = 0\<rparr>"

lemma sample_compare:
  "\<exists>rc msg st'. hxfcbuf_calling_hxfsbuf_tsafe None 7 (good_io, good_io) [1, 2] [1, 3] sample_cmp = Some (rc, msg, st')"
  by (simp add: hxfcbuf_calling_hxfsbuf_tsafe_def sample_cmp_def zero_htx_data_def bump_count_def Let_def
      numeral_eq_Suc dump_path_def show_int_def dec_digits.simps del: save_buf_simps)


text \<open>
  The number of saved buffers is bounded. Over any sequence of compares of one
  exerciser that starts with a miscompare count of at most 10, the count never exceeds 10 and
  every increment writes exactly one pair of dump files, so no more than 20 files are written.
\<close>

theorem dumps_bounded:
  assumes "compare_all log_dir pid cs st = Some st'" "unat (count_of st) \<le> MAX_MISCOMPARES"
  shows "unat (count_of st') \<le> MAX_MISCOMPARES \<and>
    length (dumps st') = length (dumps st) + 2 * (unat (count_of st') - unat (count_of st)) \<and>
    unat (count_of st) \<le> unat (count_of st')"
  using assms
proof (induction cs arbitrary: st)
  case (Cons c cs)
  obtain io w r where c: "c = (io, w, r)" by (metis prod_cases3)
  obtain rc msg st1 where h: "hxfcbuf_calling_hxfsbuf_tsafe log_dir pid io w r st = Some (rc, msg, st1)"
    and rest: "compare_all log_dir pid cs st1 = Some st'"
    using Cons.prems(1) c by (auto simp: bind_eq_Some_conv)
  have s1: "st1 = st \<or> unat (count_of st) < MAX_MISCOMPARES \<and> unat (count_of st1) = Suc (unat (count_of st)) \<and>
      length (dumps st1) = length (dumps st) + 2"
    using tsafe_cases [OF h] by (auto split: if_splits)
  then have "unat (count_of st1) \<le> MAX_MISCOMPARES" using Cons.prems(2) by auto
  from Cons.IH [OF rest this] s1 show ?case by auto
qed simp

theorem dumps_bounded_witness:
  "\<exists>st'. compare_all None 7 [((good_io, good_io), [1, 2], [1, 3])] sample_cmp = Some st' \<and>
     unat (count_of st') \<le> 10 \<and>
     length (dumps st') = length (dumps sample_cmp) + 2 * (unat (count_of st') - unat (count_of sample_cmp)) \<and>
     unat (count_of sample_cmp) \<le> unat (count_of st')"
proof -
  obtain rc msg st' where "hxfcbuf_calling_hxfsbuf_tsafe None 7 (good_io, good_io) [1, 2] [1, 3] sample_cmp = Some (rc, msg, st')"
    using sample_compare by blast
  then have c: "compare_all None 7 [((good_io, good_io), [1, 2], [1, 3])] sample_cmp = Some st'" by simp
  have "unat (count_of sample_cmp) \<le> 10" by (simp add: sample_cmp_def zero_htx_data_def)
  from dumps_bounded [OF c this] c show ?thesis by blast
qed

end
