(* ===== verification/Htx_Shm.thy ===== *)
theory Htx_Shm
  imports Htx_Err
begin

text \<open>
  The entry of one hardware exerciser (HE) in the shared memory of an ECG, \<open>struct htxshm_HE\<close> of
  \<open>inc/hxiipc.h\<close>: htxd fills it from a stanza of the ECG file, the exerciser's
  library updates it, and the monitors of htxd read it.

  The counters are 64-bit words; \<open>unsigned short\<close> fields are numbers below \<open>2 ^ 16\<close>; one-bit
  fields are 0 or 1. Times and periods are unbounded integers. The floating point rates, which nothing
  but displays read, and the process-shared lock are left out.
\<close>

record htxshm_HE =
  he_HE_name :: string
  he_adapt_desc :: string
  he_device_desc :: string
  he_emc_rules :: string
  he_reg_rules :: string
  he_sdev_id :: string
  he_cpu_utilization :: string
  he_slot_port :: string
  he_dma_chan :: nat
  he_test_id :: nat
  he_intrpt_lev :: nat
  he_load_seq :: nat
  he_max_run_tm :: nat
  he_port :: nat
  he_priority :: nat
  he_slot :: nat
  he_PID :: int
  he_max_cycles :: u64
  he_idle_time :: nat
  he_halt_sev_level :: int
  he_cont_on_err :: nat
  he_err_ack :: nat
  he_hung_flag :: nat
  he_start_halted :: nat
  he_restart_HE :: nat
  he_user_term :: nat
  he_DR_term :: nat
  he_is_child :: nat
  he_dup_device :: nat
  he_log_vpd :: nat
  he_hung_exer :: nat
  he_halt_flag :: nat
  he_rand_halt :: nat
  he_equaliser_halt :: nat
  he_hotplug_cpu :: nat
  he_hotplug_mem :: nat
  he_hotplug_io :: nat
  he_upd_test_id :: nat
  he_started_delay_flag :: nat
  he_test_run_period_expired :: nat
  he_equaliser_flag :: nat
  he_offline_cpu :: nat
  he_tm_last_err :: int
  he_tm_last_upd :: int
  he_run_time :: int
  he_test_started_time :: int
  he_test_start_delay :: int
  he_test_run_period :: int
  he_bad_others :: u64
  he_bad_reads :: u64
  he_bad_writes :: u64
  he_bytes_read1 :: u64
  he_bytes_read2 :: u64
  he_bytes_writ1 :: u64
  he_bytes_writ2 :: u64
  he_good_others :: u64
  he_good_reads :: u64
  he_good_writes :: u64
  he_total_num_instructions :: u64
  he_no_of_errs :: u64
  he_cycles :: u64

text \<open>The entry after \<open>memset\<close>.\<close>

definition zero_HE :: htxshm_HE where
  "zero_HE = \<lparr>he_HE_name = [], he_adapt_desc = [], he_device_desc = [], he_emc_rules = [],
     he_reg_rules = [], he_sdev_id = [], he_cpu_utilization = [], he_slot_port = [], he_dma_chan = 0,
     he_test_id = 0, he_intrpt_lev = 0, he_load_seq = 0, he_max_run_tm = 0, he_port = 0,
     he_priority = 0, he_slot = 0, he_PID = 0, he_max_cycles = 0, he_idle_time = 0,
     he_halt_sev_level = 0, he_cont_on_err = 0, he_err_ack = 0, he_hung_flag = 0,
     he_start_halted = 0, he_restart_HE = 0, he_user_term = 0, he_DR_term = 0, he_is_child = 0, he_dup_device = 0,
     he_log_vpd = 0, he_hung_exer = 0, he_halt_flag = 0, he_rand_halt = 0, he_equaliser_halt = 0,
     he_hotplug_cpu = 0, he_hotplug_mem = 0, he_hotplug_io = 0, he_upd_test_id = 0,
     he_started_delay_flag = 0, he_test_run_period_expired = 0, he_equaliser_flag = 0,
     he_offline_cpu = 0, he_tm_last_err = 0, he_tm_last_upd = 0, he_run_time = 0,
     he_test_started_time = 0, he_test_start_delay = 0, he_test_run_period = 0, he_bad_others = 0,
     he_bad_reads = 0, he_bad_writes = 0, he_bytes_read1 = 0, he_bytes_read2 = 0,
     he_bytes_writ1 = 0, he_bytes_writ2 = 0, he_good_others = 0, he_good_reads = 0,
     he_good_writes = 0, he_total_num_instructions = 0, he_no_of_errs = 0, he_cycles = 0\<rparr>"

subsection \<open>The other shared structures\<close>

text \<open>\<open>struct htxshm_hdr\<close>, in front of the entries of an ECG; the spare flags are left out.\<close>

record htxshm_hdr =
  hdr_emc :: nat
  hdr_started :: nat
  hdr_shutdown :: nat
  hdr_hotplug_process_flag :: nat
  hdr_max_entries :: nat
  hdr_num_entries :: nat
  hdr_pseudo_entries :: nat
  hdr_pseudo_entry_0 :: nat

text \<open>\<open>tsys_hdr\<close> of \<open>inc/scr_info.h\<close>: the summary of the whole system; the display buffers
  are left out.\<close>

record tsys_hdr =
  bcast_done :: int
  system_status :: string
  error_dev :: string
  error_count :: int
  last_error_time :: int
  last_update_time :: int
  max_exer_entries :: nat
  cur_shm_key :: int

text \<open>\<open>texer_list\<close>: an entry of the table of all exercisers, by which an exerciser finds the shared memory
  and semaphores of its ECG. The addresses are replaced by \<open>exer_pos\<close>.\<close>

record texer_list =
  exer_pos :: int
  ecg_sem_key :: int
  ecg_shm_key :: int
  ecg_semhe_id :: int
  dev_name :: string
  exer_pid :: int

text \<open>The semaphores of an ECG: system-wide ones, then a group per exerciser.\<close>

abbreviation (input) SEM_GLOBAL :: nat where "SEM_GLOBAL \<equiv> 6"
abbreviation (input) SEM_PER_EXER :: nat where "SEM_PER_EXER \<equiv> 3"

text \<open>Severities of messages that both sides send.\<close>

abbreviation (input) HTX_SYS_INFO :: int where "HTX_SYS_INFO \<equiv> 6"
abbreviation (input) HTX_HE_HARD_ERROR :: int where "HTX_HE_HARD_ERROR \<equiv> 1"

subsection \<open>Narrow integers\<close>

definition ushort :: "int \<Rightarrow> nat" where
  "ushort i = nat (i mod 65536)"

definition bit1 :: "int \<Rightarrow> nat" where
  "bit1 i = nat (i mod 2)"

lemma ushort_less: "ushort i < 65536"
  by (simp add: ushort_def nat_less_iff)

lemma bit1_cases: "bit1 i = 0 \<or> bit1 i = 1"
proof -
  have "i mod 2 = 0 \<or> i mod 2 = 1" by presburger
  then show ?thesis by (auto simp: bit1_def)
qed

end
