(* ===== verification/Htx_Update.thy ===== *)
theory Htx_Update
  imports Htx_Shm Htx_Buffers
begin

text \<open>
  The operations of \<open>lib/htx64/hxfupdate.c\<close> on the entry of the calling exerciser: the accumulators
  (\<open>addw\<close>, \<open>htx_update\<close>), the messages (\<open>sendp\<close>, \<open>htx_get_msg\<close>, \<open>htx_message\<close>,
  \<open>htx_error\<close>), the end of a cycle (\<open>htx_finish\<close>) and the search for the entry
  (\<open>dupdev_cmp\<close> and the loop of \<open>htx_start\<close>).

  The state holds the number of system calls made so far; the answer of the \<open>n\<close>-th call is read from a
  \<open>world\<close>. The lock that serialises updates is part of the world through its return codes.
\<close>

subsection \<open>The outside world\<close>

record world =
  w_time :: "nat \<Rightarrow> int"
  w_lock :: "nat \<Rightarrow> int"
  w_sendok :: "nat \<Rightarrow> bool"
  w_asctime :: "int \<Rightarrow> string"

text \<open>\<open>struct htx_msg_buf\<close>.\<close>

record qmsg =
  q_type :: int
  q_text :: string
  q_sdev_id :: string
  q_HE_name :: string
  q_severity :: int
  q_error :: int

record upd =
  u_calls :: nat
  u_data :: htx_data
  u_HE :: htxshm_HE
  u_queue :: "qmsg list"

abbreviation (input) EDEADLK :: int where "EDEADLK \<equiv> 35"
abbreviation (input) HTX_SYS_MSG :: int where "HTX_SYS_MSG \<equiv> 50"
abbreviation (input) HTX_HE_MSG :: int where "HTX_HE_MSG \<equiv> 100"
abbreviation (input) HTX_HE_INFO :: int where "HTX_HE_INFO \<equiv> 7"
abbreviation (input) HTX_HE_SOFT_ERROR :: int where "HTX_HE_SOFT_ERROR \<equiv> 4"
abbreviation (input) HTX_SYS_HARD_ERROR :: int where "HTX_SYS_HARD_ERROR \<equiv> - 10"
abbreviation (input) MSG_TEXT_SIZE :: nat where "MSG_TEXT_SIZE \<equiv> 3912"

definition tick :: "upd \<Rightarrow> upd" where
  "tick u = u\<lparr>u_calls := Suc (u_calls u)\<rparr>"

definition system_run :: "htx_data \<Rightarrow> bool" where
  "system_run d \<longleftrightarrow> run_type d = ''REG'' \<or> run_type d = ''EMC''"

subsection \<open>Sending: \<open>sendp\<close>\<close>

definition qmsg_of :: "int \<Rightarrow> htx_data \<Rightarrow> string \<Rightarrow> qmsg" where
  "qmsg_of msg_type d text =
     \<lparr>q_type = msg_type, q_text = text, q_sdev_id = sdev_id d, q_HE_name = HE_name d,
      q_severity = severity_code d, q_error = error_code d\<rparr>"

definition msgsnd :: "world \<Rightarrow> qmsg \<Rightarrow> upd \<Rightarrow> int \<times> upd" where
  "msgsnd w m u =
     (if w_sendok w (u_calls u) then (0, (tick u)\<lparr>u_queue := u_queue u @ [m]\<rparr>) else (51, tick u))"

definition sendp :: "world \<Rightarrow> int \<Rightarrow> upd \<Rightarrow> int \<times> upd" where
  "sendp w msg_type u = msgsnd w (qmsg_of msg_type (u_data u) (msg_text (u_data u))) u"

subsection \<open>Accumulating: \<open>addw\<close> and \<open>htx_update\<close>\<close>

definition addw :: "u64 \<Rightarrow> u64 \<Rightarrow> u64 \<Rightarrow> u64 \<times> u64" where
  "addw msw lsw num =
     (let lsw = lsw + num in if lsw > 999999999 then (msw + 1, lsw - 1000000000) else (msw, lsw))"

text \<open>What \<open>htx_update\<close> does to the entry while it holds the lock.\<close>

definition accumulate :: "int \<Rightarrow> htx_data \<Rightarrow> htxshm_HE \<Rightarrow> htxshm_HE" where
  "accumulate clock d h =
     (let (r1, r2) = addw (he_bytes_read1 h) (he_bytes_read2 h) (bytes_read d);
          (w1, w2) = addw (he_bytes_writ1 h) (he_bytes_writ2 h) (bytes_writ d)
      in h\<lparr>he_run_time := (if he_halt_flag h = 0 then he_run_time h + (clock - he_tm_last_upd h)
                           else he_run_time h),
           he_tm_last_upd := clock,
           he_bad_others := he_bad_others h + bad_others d,
           he_bad_reads := he_bad_reads h + bad_reads d,
           he_bad_writes := he_bad_writes h + bad_writes d,
           he_bytes_read1 := r1, he_bytes_read2 := r2,
           he_bytes_writ1 := w1, he_bytes_writ2 := w2,
           he_good_others := he_good_others h + good_others d,
           he_good_reads := he_good_reads h + good_reads d,
           he_good_writes := he_good_writes h + good_writes d,
           he_total_num_instructions := he_total_num_instructions h + num_instructions d,
           he_test_id := unat (test_id d),
           he_upd_test_id := (if he_upd_test_id h = 0 \<and> (0 < unat (test_id d) \<or> 0 < he_cycles h) then 1
                              else he_upd_test_id h)\<rparr>)"

definition zero_counters :: "htx_data \<Rightarrow> htx_data" where
  "zero_counters d =
     d\<lparr>bad_others := 0, bad_reads := 0, bad_writes := 0, bytes_read := 0, bytes_writ := 0,
       good_others := 0, good_reads := 0, good_writes := 0, num_instructions := 0\<rparr>"

definition lock_text :: "string \<Rightarrow> int \<Rightarrow> htx_data \<Rightarrow> string" where
  "lock_text what rc d =
     what @ '' failed with errno='' @ show_int rc @ '' for device id '' @ sdev_id d @ '' \<newline>''"

definition fail_send :: "world \<Rightarrow> string \<Rightarrow> upd \<Rightarrow> int \<times> upd" where
  "fail_send w text u = sendp w HTX_HE_MSG (u\<lparr>u_data := (u_data u)\<lparr>msg_text := text\<rparr>\<rparr>)"

definition htx_update :: "world \<Rightarrow> upd \<Rightarrow> int \<times> upd" where
  "htx_update w u =
     (if system_run (u_data u) then
        (let rc1 = w_lock w (u_calls u); u1 = tick u
         in if rc1 = EDEADLK then
              fail_send w (lock_text ''lock inside htx_update'' rc1 (u_data u)) u1
            else
              (let clock = wrap32 (w_time w (u_calls u1));
                   u2 = (tick u1)\<lparr>u_HE := accumulate clock (u_data u) (u_HE u)\<rparr>;
                   rc2 = w_lock w (u_calls u2); u3 = tick u2
               in if rc2 \<noteq> 0 then
                    fail_send w (lock_text ''unlock inside htx_update'' rc1 (u_data u)) u3
                  else (0, u3\<lparr>u_data := zero_counters (u_data u)\<rparr>)))
      else (0, u\<lparr>u_data := zero_counters (u_data u)\<rparr>))"

subsection \<open>Message texts\<close>

definition pad_right :: "nat \<Rightarrow> string \<Rightarrow> string" where
  "pad_right n s = s @ replicate (n - length s) SP"

fun hex_digits :: "nat \<Rightarrow> nat \<Rightarrow> string" where
  "hex_digits 0 n = []"
| "hex_digits (Suc k) n = hex_digits k (n div 16) @ [hex_digit (n mod 16)]"

text \<open>\<open>%-8.8x\<close> and \<open>%-1.1u\<close> of an \<open>int\<close>.\<close>

definition fmt_8x :: "int \<Rightarrow> string" where
  "fmt_8x i = hex_digits 8 (nat (i mod 2 ^ 32))"

definition fmt_u :: "int \<Rightarrow> string" where
  "fmt_u i = dec_digits (nat (i mod 2 ^ 32))"

text \<open>\<open>&disp_time[4]\<close>: the time without the weekday and the newline.\<close>

definition disp_time :: "world \<Rightarrow> int \<Rightarrow> string" where
  "disp_time w t = drop 4 (take 24 (w_asctime w t))"

definition std_text :: "string \<Rightarrow> htx_data \<Rightarrow> string \<Rightarrow> string" where
  "std_text t d text =
     [NL] @ pad_right 18 (sdev_id d) @ pad_right 20 t @ '' err='' @ fmt_8x (error_code d) @
     '' sev='' @ fmt_u (severity_code d) @ [SP] @ pad_right 14 (HE_name d) @ [NL] @ text @ [NL]"

definition dashes :: string where
  "dashes = replicate 69 (CHR ''-'')"

text \<open>The long form, with the vital product data. The continued lines of the format carry the indentation of
  the source into the text: \<open>n\<close> blanks.\<close>

definition vpd_text :: "nat \<Rightarrow> string \<Rightarrow> htx_data \<Rightarrow> string \<Rightarrow> string" where
  "vpd_text n t d text =
     (let ind = replicate n SP @ [NL]
      in [NL] @ dashes @ ind @ ''Device id:'' @ pad_right 18 (sdev_id d) @ [NL] @ ''Timestamp:'' @
         pad_right 20 t @ ind @ ''err='' @ fmt_8x (error_code d) @ [NL] @ ''sev='' @
         show_int (severity_code d) @ [NL] @ ''Exerciser Name:'' @ pad_right 14 (HE_name d) @ ind @
         ''Serial No:'' @ serial_no d @ [NL] @ ''Part No:'' @ part_no d @ [NL] @ ''Location:'' @
         loc_code d @ [NL] @ ''FRU Number:'' @ fru_no d @ ind @ ''Device:'' @ dev_desc d @ [NL] @
         ''Error Text:'' @ text @ [NL] @ ind @ dashes @ [NL])"

text \<open>\<open>htx_get_msg\<close>. The argument \<open>msg_send\<close> is what the caller's buffer holds on entry: with \<open>log_vpd\<close> set,
  nothing is written to it. The vital product data, read from the output of \<open>lscfg\<close> on the first
  such call, are given by \<open>vpd\<close>.\<close>

definition htx_get_msg ::
  "world \<Rightarrow> (htx_data \<Rightarrow> htx_data) \<Rightarrow> string \<Rightarrow> upd \<Rightarrow> string \<times> upd" where
  "htx_get_msg w vpd msg_send u =
     (let d = (u_data u)\<lparr>msg_text := take MAX_TEXT_MSG (msg_text (u_data u))\<rparr>;
          t = disp_time w (w_time w (u_calls u))
      in if \<not> system_run d then (std_text t d (msg_text d), (tick u)\<lparr>u_data := d\<rparr>)
         else if he_log_vpd (u_HE u) = 1 then (msg_send, (tick u)\<lparr>u_data := vpd d\<rparr>)
         else (std_text t d (msg_text d), (tick u)\<lparr>u_data := d\<rparr>))"

subsection \<open>\<open>htx_message\<close>, \<open>htx_error\<close>, \<open>htx_finish\<close>\<close>

text \<open>The check that a text ends in an empty line looks at \<open>msg_send[strlen - 2]\<close>.\<close>

definition end_line :: "string \<Rightarrow> string fault" where
  "end_line m =
     (if length m < 2 then None
      else if m ! (length m - 2) \<noteq> NL
           then (if length m + 1 < MSG_TEXT_SIZE then Some (m @ [NL]) else None)
           else Some m)"

definition message_text :: "string \<Rightarrow> htxshm_HE \<Rightarrow> htx_data \<Rightarrow> string" where
  "message_text t h d =
     (if system_run d \<and> he_log_vpd h = 1 then vpd_text 23 t d (msg_text d)
      else std_text t d (msg_text d))"

text \<open>Returns the code, the new contents of \<open>msg_send\<close> and the state; a text that does not fit the
  buffer is a fault. What it prints for a stand-alone run is \<open>msg_send\<close> itself.\<close>

definition htx_message :: "world \<Rightarrow> string \<Rightarrow> upd \<Rightarrow> (int \<times> string \<times> upd) fault" where
  "htx_message w msg_send u =
     do { m \<leftarrow> end_line msg_send;
          let d = u_data u;
          let call_time = w_time w (u_calls u);
          let text = message_text (disp_time w call_time) (u_HE u) d;
          let u = tick u;
          if MSG_TEXT_SIZE \<le> length text then None
          else if \<not> system_run d then Some (0, text, u)
          else if severity_code d < HTX_SYS_INFO then
            (let rc1 = w_lock w (u_calls u); u = tick u
             in if rc1 = EDEADLK then
                  Some (let (rc, u) = fail_send w (lock_text ''lock inside htx_message'' rc1 d) u in (rc, text, u))
                else
                  (let u = u\<lparr>u_HE := (u_HE u)\<lparr>he_tm_last_upd := call_time, he_tm_last_err := call_time\<rparr>\<rparr>;
                       rc2 = w_lock w (u_calls u); u = tick u
                   in if rc2 \<noteq> 0 then
                        Some (let (rc, u) = fail_send w (lock_text ''unlock inside htx_message'' rc1 d) u in (rc, text, u))
                      else Some (let (rc, u) = msgsnd w (qmsg_of HTX_HE_MSG d text) u in (rc, text, u))))
          else Some (let (rc, u) = msgsnd w (qmsg_of HTX_HE_MSG d text) u in (rc, text, u)) }"

text \<open>\<open>htx_error\<close> also prints to \<open>stderr\<close>; the command in \<open>LIBHTX_HOE\<close> is only run
  stand-alone and is not part of the state.\<close>

definition htx_error :: "world \<Rightarrow> string \<Rightarrow> upd \<Rightarrow> upd fault" where
  "htx_error w msg_send u =
     do { m \<leftarrow> end_line msg_send;
          (rc, text, u) \<leftarrow> htx_message w m u;
          Some u }"

text \<open>\<open>htx_finish\<close> for a system run, the only one \<open>hxfupdate\<close> calls it for.\<close>

definition htx_finish :: "upd \<Rightarrow> int \<times> upd" where
  "htx_finish u =
     (0, u\<lparr>u_HE := (u_HE u)\<lparr>he_cycles := he_cycles (u_HE u) + 1\<rparr>,
           u_data := (u_data u)\<lparr>error_code := 0, severity_code := HTX_HE_INFO\<rparr>\<rparr>)"

subsection \<open>Finding the entry\<close>

text \<open>\<open>strtok (s, "(")\<close>.\<close>

definition strtok_paren :: "cstring \<Rightarrow> cstring option" where
  "strtok_paren s =
     (let t = dropWhile (\<lambda>c. c = CHR ''('') s
      in if t = [] then None else Some (takeWhile (\<lambda>c. c \<noteq> CHR ''('') t))"

definition dupdev_cmp :: "int \<Rightarrow> texer_list \<Rightarrow> cstring \<Rightarrow> bool" where
  "dupdev_cmp pid e my_exerid =
     (dev_name e \<noteq> [] \<and>
      (case strtok_paren (dev_name e) of
         None \<Rightarrow> False
       | Some t \<Rightarrow> strcmp my_exerid t = 0 \<and> exer_pid e = pid))"

text \<open>The keys of the ECG: the loop over the exerciser table.\<close>

fun find_keys :: "int \<Rightarrow> cstring \<Rightarrow> texer_list list \<Rightarrow> (int \<times> int) option" where
  "find_keys pid name [] = None"
| "find_keys pid name (e # es) =
     (if dupdev_cmp pid e name then Some (ecg_shm_key e, ecg_sem_key e) else find_keys pid name es)"

text \<open>The entry in the shared memory of the ECG: the names are compared over \<open>sizeof (char)\<close> characters.
  \<open>htx_strncmp\<close> answers 1 for a null pointer.\<close>

fun find_HE :: "int \<Rightarrow> cstring \<Rightarrow> htxshm_HE list \<Rightarrow> nat \<Rightarrow> nat option" where
  "find_HE pid name [] i = None"
| "find_HE pid name (h # hs) i =
     (if (case strtok_paren (he_sdev_id h) of None \<Rightarrow> False | Some t \<Rightarrow> strncmp name t 1 = 0) \<and>
         he_PID h = pid
      then Some i else find_HE pid name hs (Suc i))"

subsection \<open>Sums of updates\<close>

text \<open>An accumulator: a state with a total, to which every step adds an amount, as long as the remaining
  amounts \<open>fits\<close>.\<close>

locale accumulator =
  fixes acc_step :: "'d \<Rightarrow> 's \<Rightarrow> 's"
    and total :: "'s \<Rightarrow> 'm::monoid_add"
    and amount :: "'d \<Rightarrow> 'm"
    and fits :: "'s \<Rightarrow> 'd list \<Rightarrow> bool"
  assumes total_step: "fits s (d # ds) \<Longrightarrow> total (acc_step d s) = total s + amount d"
    and fits_step: "fits s (d # ds) \<Longrightarrow> fits (acc_step d s) ds"
begin

lemma total_fold: "fits s ds \<Longrightarrow> total (fold acc_step ds s) = total s + sum_list (map amount ds)"
  by (induction ds arbitrary: s) (simp_all add: total_step fits_step add.assoc)

lemma fits_fold: "fits s (ds @ es) \<Longrightarrow> fits (fold acc_step ds s) es"
  by (induction ds arbitrary: s) (simp_all add: fits_step)

end

text \<open>The two words of a byte count, in normal form when the lower one is below \<open>10 ^ 9\<close>.\<close>

definition words_total :: "u64 \<times> u64 \<Rightarrow> nat" where
  "words_total p = unat (fst p) * 10 ^ 9 + unat (snd p)"

definition words_fit :: "u64 \<times> u64 \<Rightarrow> u64 list \<Rightarrow> bool" where
  "words_fit p ns \<longleftrightarrow> unat (snd p) < 10 ^ 9 \<and> (\<forall>n\<in>set ns. unat n \<le> 10 ^ 9) \<and>
     words_total p + sum_list (map unat ns) < 10 ^ 9 * 2 ^ 64"

lemma addw_exact:
  assumes "unat lsw + unat num < 2 ^ 64" and "10 ^ 9 \<le> unat lsw + unat num \<longrightarrow> unat msw + 1 < 2 ^ 64"
  shows "words_total (addw msw lsw num) = words_total (msw, lsw) + unat num"
proof -
  have s: "unat (lsw + num) = unat lsw + unat num" using assms(1) by (simp add: unat_add_lem [THEN iffD1])
  have g: "lsw + num > 999999999 \<longleftrightarrow> 10 ^ 9 \<le> unat lsw + unat num"
    by (auto simp: word_less_nat_alt s)
  show ?thesis
  proof (cases "lsw + num > 999999999")
    case True
    then have b: "10 ^ 9 \<le> unat lsw + unat num" by (simp add: g)
    then have "unat (lsw + num - 1000000000) = unat lsw + unat num - 10 ^ 9"
      by (subst unat_sub) (simp_all add: word_le_nat_alt s)
    moreover have "unat (msw + 1) = unat msw + 1"
      using assms(2) b by (simp add: unat_add_lem [THEN iffD1])
    ultimately show ?thesis using True b by (simp add: addw_def words_total_def)
  next
    case False
    then show ?thesis by (simp add: addw_def words_total_def s)
  qed
qed

lemma addw_normal:
  assumes "unat lsw < 10 ^ 9" and "unat num \<le> 10 ^ 9"
  shows "unat (snd (addw msw lsw num)) < 10 ^ 9"
proof -
  have s: "unat (lsw + num) = unat lsw + unat num"
    using assms by (simp add: unat_add_lem [THEN iffD1])
  show ?thesis
  proof (cases "lsw + num > 999999999")
    case True
    then have "unat (lsw + num - 1000000000) = unat lsw + unat num - 10 ^ 9"
      by (subst unat_sub) (simp_all add: word_le_nat_alt word_less_nat_alt s)
    then show ?thesis using True assms by (simp add: addw_def)
  next
    case False
    then show ?thesis by (simp add: addw_def word_less_nat_alt s)
  qed
qed

lemma words_fit_step:
  assumes "words_fit (msw, lsw) (n # ns)"
  shows "words_total (addw msw lsw n) = words_total (msw, lsw) + unat n" "words_fit (addw msw lsw n) ns"
proof -
  have l: "unat lsw < 10 ^ 9" and n: "unat n \<le> 10 ^ 9"
    and t: "unat msw * 10 ^ 9 + unat lsw + unat n < 10 ^ 9 * 2 ^ 64"
    using assms by (auto simp: words_fit_def words_total_def)
  have "10 ^ 9 \<le> unat lsw + unat n \<longrightarrow> unat msw + 1 < 2 ^ 64" using t by simp
  then show e: "words_total (addw msw lsw n) = words_total (msw, lsw) + unat n"
    using l n by (intro addw_exact) simp_all
  show "words_fit (addw msw lsw n) ns"
    using assms addw_normal [OF l n, of msw] by (simp add: words_fit_def e)
qed

definition read_words :: "htxshm_HE \<Rightarrow> u64 \<times> u64" where
  "read_words h = (he_bytes_read1 h, he_bytes_read2 h)"

definition writ_words :: "htxshm_HE \<Rightarrow> u64 \<times> u64" where
  "writ_words h = (he_bytes_writ1 h, he_bytes_writ2 h)"

text \<open>The seven plain counters of an entry and of the exerciser's structure.\<close>

definition he_counters :: "htxshm_HE \<Rightarrow> u64 list" where
  "he_counters h = [he_bad_others h, he_bad_reads h, he_bad_writes h, he_good_others h,
     he_good_reads h, he_good_writes h, he_total_num_instructions h]"

definition data_counters :: "htx_data \<Rightarrow> u64 list" where
  "data_counters d = [bad_others d, bad_reads d, bad_writes d, good_others d, good_reads d,
     good_writes d, num_instructions d]"

abbreviation acc_step :: "int \<times> htx_data \<Rightarrow> htxshm_HE \<Rightarrow> htxshm_HE" where
  "acc_step p h \<equiv> accumulate (fst p) (snd p) h"

lemma accumulate_words:
  "read_words (accumulate c d h) = addw (he_bytes_read1 h) (he_bytes_read2 h) (bytes_read d)"
  "writ_words (accumulate c d h) = addw (he_bytes_writ1 h) (he_bytes_writ2 h) (bytes_writ d)"
  by (simp_all add: accumulate_def read_words_def writ_words_def split: prod.split)

lemma length_counters [simp]: "length (he_counters h) = 7" "length (data_counters d) = 7"
  by (simp_all add: he_counters_def data_counters_def)

lemma he_counters_accumulate:
  "he_counters (accumulate c d h) = map2 (+) (he_counters h) (data_counters d)"
  by (simp add: accumulate_def he_counters_def data_counters_def split: prod.split)

interpretation reads: accumulator acc_step "\<lambda>h. words_total (read_words h)" "\<lambda>p. unat (bytes_read (snd p))"
  "\<lambda>h ps. words_fit (read_words h) (map (\<lambda>p. bytes_read (snd p)) ps)"
proof
  fix s :: htxshm_HE and d :: "int \<times> htx_data" and ds
  assume "words_fit (read_words s) (map (\<lambda>p. bytes_read (snd p)) (d # ds))"
  then have w: "words_fit (he_bytes_read1 s, he_bytes_read2 s)
      (bytes_read (snd d) # map (\<lambda>p. bytes_read (snd p)) ds)" by (simp add: read_words_def)
  show "words_total (read_words (acc_step d s)) = words_total (read_words s) + unat (bytes_read (snd d))"
    using words_fit_step(1) [OF w] by (simp add: accumulate_words read_words_def [of s])
  show "words_fit (read_words (acc_step d s)) (map (\<lambda>p. bytes_read (snd p)) ds)"
    using words_fit_step(2) [OF w] by (simp add: accumulate_words)
qed

interpretation writes: accumulator acc_step "\<lambda>h. words_total (writ_words h)" "\<lambda>p. unat (bytes_writ (snd p))"
  "\<lambda>h ps. words_fit (writ_words h) (map (\<lambda>p. bytes_writ (snd p)) ps)"
proof
  fix s :: htxshm_HE and d :: "int \<times> htx_data" and ds
  assume "words_fit (writ_words s) (map (\<lambda>p. bytes_writ (snd p)) (d # ds))"
  then have w: "words_fit (he_bytes_writ1 s, he_bytes_writ2 s)
      (bytes_writ (snd d) # map (\<lambda>p. bytes_writ (snd p)) ds)" by (simp add: writ_words_def)
  show "words_total (writ_words (acc_step d s)) = words_total (writ_words s) + unat (bytes_writ (snd d))"
    using words_fit_step(1) [OF w] by (simp add: accumulate_words writ_words_def [of s])
  show "words_fit (writ_words (acc_step d s)) (map (\<lambda>p. bytes_writ (snd p)) ds)"
    using words_fit_step(2) [OF w] by (simp add: accumulate_words)
qed

lemma he_counters_nth:
  "i < 7 \<Longrightarrow> he_counters (accumulate c d h) ! i = he_counters h ! i + data_counters d ! i"
  by (simp add: he_counters_accumulate)

lemma counter_accumulator: "i < 7 \<Longrightarrow>
    accumulator acc_step (\<lambda>h. he_counters h ! i) (\<lambda>p. data_counters (snd p) ! i) (\<lambda>_ _. True)"
  by unfold_locales (simp_all add: he_counters_nth)

text \<open>A sequence of calls with the structures \<open>ds\<close>, and the clock each of them reads when the lock works.\<close>

definition run_updates :: "world \<Rightarrow> htx_data list \<Rightarrow> upd \<Rightarrow> upd" where
  "run_updates w ds u = fold (\<lambda>d u. snd (htx_update w (u\<lparr>u_data := d\<rparr>))) ds u"

fun clocks :: "world \<Rightarrow> nat \<Rightarrow> nat \<Rightarrow> int list" where
  "clocks w n 0 = []"
| "clocks w n (Suc k) = wrap32 (w_time w (Suc n)) # clocks w (n + 3) k"

lemma length_clocks [simp]: "length (clocks w n k) = k"
  by (induction k arbitrary: n) simp_all

lemma htx_update_ok:
  assumes "system_run (u_data u)" "\<And>n. w_lock w n = 0"
  shows "htx_update w u = (0, u\<lparr>u_calls := u_calls u + 3,
    u_data := zero_counters (u_data u),
    u_HE := accumulate (wrap32 (w_time w (Suc (u_calls u)))) (u_data u) (u_HE u)\<rparr>)"
  using assms by (simp add: htx_update_def tick_def Let_def eval_nat_numeral)

lemma run_updates_fold:
  assumes "\<forall>d\<in>set ds. system_run d" "\<And>n. w_lock w n = 0"
  shows "u_HE (run_updates w ds u) = fold acc_step (zip (clocks w (u_calls u) (length ds)) ds) (u_HE u)"
  using assms(1)
proof (induction ds arbitrary: u)
  case (Cons d ds)
  then show ?case by (simp add: run_updates_def htx_update_ok assms(2))
qed (simp add: run_updates_def)

lemma map_snd_clocks: "map (\<lambda>p. f (snd p)) (zip (clocks w n (length ds)) ds) = map f ds"
  by (simp flip: map_map [of f snd, unfolded comp_def])

text \<open>C14: Over any sequence of updates in a system run, with the lock working, every counter of the shared
  entry grows by exactly the sum of what the exerciser counted, and the two-word byte counts represent exactly
  the bytes transferred and stay in normal form, provided each update carries at most \<open>10 ^ 9\<close> bytes.\<close>

theorem updates_accumulate:
  assumes "\<forall>d\<in>set ds. system_run d" and "\<And>n. w_lock w n = 0"
    and "words_fit (read_words (u_HE u)) (map bytes_read ds)"
    and "words_fit (writ_words (u_HE u)) (map bytes_writ ds)"
  shows "(\<forall>i<7. he_counters (u_HE (run_updates w ds u)) ! i =
             he_counters (u_HE u) ! i + sum_list (map (\<lambda>d. data_counters d ! i) ds)) \<and>
         words_total (read_words (u_HE (run_updates w ds u))) =
             words_total (read_words (u_HE u)) + sum_list (map (\<lambda>d. unat (bytes_read d)) ds) \<and>
         words_total (writ_words (u_HE (run_updates w ds u))) =
             words_total (writ_words (u_HE u)) + sum_list (map (\<lambda>d. unat (bytes_writ d)) ds) \<and>
         he_bytes_read2 (u_HE (run_updates w ds u)) < 10 ^ 9 \<and>
         he_bytes_writ2 (u_HE (run_updates w ds u)) < 10 ^ 9"
proof (intro conjI allI impI)
  let ?ps = "zip (clocks w (u_calls u) (length ds)) ds"
  note f = run_updates_fold [OF assms(1,2)] and m = map_snd_clocks
  show "he_counters (u_HE (run_updates w ds u)) ! i =
      he_counters (u_HE u) ! i + sum_list (map (\<lambda>d. data_counters d ! i) ds)" if "i < 7" for i
    using accumulator.total_fold [OF counter_accumulator [OF that], where s = "u_HE u" and ds = ?ps]
      m [of "\<lambda>d. data_counters d ! i"] by (simp add: f)
  show "words_total (read_words (u_HE (run_updates w ds u))) =
      words_total (read_words (u_HE u)) + sum_list (map (\<lambda>d. unat (bytes_read d)) ds)"
    using reads.total_fold [of "u_HE u" ?ps] assms(3) m [of "\<lambda>d :: htx_data. unat (bytes_read d)"] by (simp add: f m)
  show "words_total (writ_words (u_HE (run_updates w ds u))) =
      words_total (writ_words (u_HE u)) + sum_list (map (\<lambda>d. unat (bytes_writ d)) ds)"
    using writes.total_fold [of "u_HE u" ?ps] assms(4) m [of "\<lambda>d :: htx_data. unat (bytes_writ d)"] by (simp add: f m)
  show "he_bytes_read2 (u_HE (run_updates w ds u)) < 10 ^ 9"
    using reads.fits_fold [of "u_HE u" ?ps "[]"] assms(3)
    by (simp add: f m words_fit_def read_words_def word_less_nat_alt)
  show "he_bytes_writ2 (u_HE (run_updates w ds u)) < 10 ^ 9"
    using writes.fits_fold [of "u_HE u" ?ps "[]"] assms(4)
    by (simp add: f m words_fit_def writ_words_def word_less_nat_alt)
qed

text \<open>A world for examples: a clock that advances by one second per call, a lock that works, a queue that
  takes every message.\<close>

definition calm_world :: world where
  "calm_world = \<lparr>w_time = (\<lambda>n. 1000 + int n), w_lock = (\<lambda>_. 0), w_sendok = (\<lambda>_. True),
     w_asctime = (\<lambda>_. ''Thu Jan  1 00:16:40 1970'' @ [NL])\<rparr>"

definition reg_data :: htx_data where
  "reg_data = zero_htx_data\<lparr>sdev_id := ''/dev/mem0'', run_type := ''REG'', HE_name := ''hxemem64''\<rparr>"

definition start_upd :: upd where
  "start_upd = \<lparr>u_calls = 0, u_data = reg_data, u_HE = zero_HE, u_queue = []\<rparr>"

lemmas upd_eval = calm_world_def reg_data_def start_upd_def zero_HE_def zero_htx_data_def

definition sample_data :: htx_data where
  "sample_data = reg_data\<lparr>good_reads := 3, bytes_read := 600000000\<rparr>"

lemma sample_simps:
  "system_run sample_data" "bytes_read sample_data = 600000000" "bytes_writ sample_data = 0"
  "data_counters sample_data = [0, 0, 0, 0, 3, 0, 0]" "u_HE start_upd = zero_HE"
  "u_data start_upd = reg_data" "u_calls start_upd = 0" "he_counters zero_HE = [0, 0, 0, 0, 0, 0, 0]"
  "read_words zero_HE = (0, 0)" "writ_words zero_HE = (0, 0)" "w_lock calm_world n = 0"
  by (simp_all add: upd_eval sample_data_def system_run_def data_counters_def he_counters_def
      read_words_def writ_words_def)

theorem updates_accumulate_witness:
  "let u = run_updates calm_world [sample_data, sample_data] start_upd
   in he_counters (u_HE u) ! 4 = 6 \<and> words_total (read_words (u_HE u)) = 1200000000 \<and>
      he_bytes_read2 (u_HE u) < 10 ^ 9"
  using updates_accumulate [where ds = "[sample_data, sample_data]" and w = calm_world and u = start_upd]
  by (simp add: words_fit_def words_total_def [of "(0, 0)"] sample_simps)



subsection \<open>Run time\<close>

lemma accumulate_times:
  "he_tm_last_upd (accumulate c d h) = c" "he_halt_flag (accumulate c d h) = he_halt_flag h"
  "he_run_time (accumulate c d h) =
     (if he_halt_flag h = 0 then he_run_time h + (c - he_tm_last_upd h) else he_run_time h)"
  by (simp_all add: accumulate_def split: prod.split)

lemma fold_run_time:
  "he_halt_flag (fold acc_step ps h) = he_halt_flag h"
  "he_tm_last_upd (fold acc_step ps h) = last (he_tm_last_upd h # map fst ps)"
  "he_run_time (fold acc_step ps h) =
     (if he_halt_flag h = 0 then he_run_time h + (last (he_tm_last_upd h # map fst ps) - he_tm_last_upd h)
      else he_run_time h)"
  by (induction ps arbitrary: h) (auto simp: accumulate_times)

lemma last_clocks:
  "last (t # clocks w n k) = (if k = 0 then t else wrap32 (w_time w (n + 3 * k - 2)))"
proof (induction k arbitrary: t n)
  case (Suc k)
  then show ?case by (cases "k = 0") (auto simp: algebra_simps)
qed simp

text \<open>The run time of an exerciser grows by the time from its previous update to the last of a sequence
  of updates, however many calls lie between, while it is not halted, and not at all while it is halted. (The
  clock is kept in an \<open>int\<close>, so the time is taken modulo \<open>2 ^ 32\<close>.)\<close>

theorem run_time_of_updates:
  assumes "ds \<noteq> []" and "\<forall>d\<in>set ds. system_run d" and "\<And>n. w_lock w n = 0"
  shows "let h = u_HE u; h' = u_HE (run_updates w ds u);
             now = wrap32 (w_time w (u_calls u + 3 * length ds - 2))
         in he_tm_last_upd h' = now \<and>
            he_run_time h' = he_run_time h + (if he_halt_flag h = 0 then now - he_tm_last_upd h else 0)"
  using assms(1) last_clocks [of "he_tm_last_upd (u_HE u)" w "u_calls u" "length ds"]
  by (simp add: run_updates_fold [OF assms(2,3)] fold_run_time Let_def del: last.simps)

theorem run_time_of_updates_witness:
  "he_run_time (u_HE (run_updates calm_world [sample_data, sample_data]
     (start_upd\<lparr>u_HE := zero_HE\<lparr>he_tm_last_upd := 990, he_run_time := 7\<rparr>\<rparr>))) = 21"
  using run_time_of_updates [of "[sample_data, sample_data]" calm_world
      "start_upd\<lparr>u_HE := zero_HE\<lparr>he_tm_last_upd := 990, he_run_time := 7\<rparr>\<rparr>"]
  by (simp add: sample_simps Let_def calm_world_def zero_HE_def)

subsection \<open>Lengths of the messages\<close>

lemma length_pad_right [simp]: "length (pad_right n s) = max n (length s)"
  by (simp add: pad_right_def)

lemma length_hex_digits [simp]: "length (hex_digits k n) = k"
  by (induction k arbitrary: n) simp_all

lemma length_fmt_8x [simp]: "length (fmt_8x i) = 8"
  by (simp add: fmt_8x_def)

lemma length_fmt_u: "length (fmt_u i) \<le> 10"
proof -
  have "nat (i mod 2 ^ 32) < 10 ^ 10" by (simp add: nat_less_iff)
  then show ?thesis unfolding fmt_u_def by (intro length_dec_digits) simp_all
qed

lemma length_std_text:
  "length (std_text t d text) \<le>
     32 + max 18 (length (sdev_id d)) + max 20 (length t) + max 14 (length (HE_name d)) + length text"
  using length_fmt_u [of "severity_code d"] by (simp add: std_text_def)

lemma length_vpd_text: "240 + 5 * n + length text \<le> length (vpd_text n t d text)"
  by (simp add: vpd_text_def dashes_def Let_def)

lemma htx_message_fits:
  assumes "end_line m \<noteq> None"
  shows "htx_message w m u = None \<longleftrightarrow>
    MSG_TEXT_SIZE \<le> length (message_text (disp_time w (w_time w (u_calls u))) (u_HE u) (u_data u))"
  using assms by (auto simp: htx_message_def Let_def split: prod.splits)

text \<open>The room of 240 characters set aside for the frame of a message is enough for the short form of the
  text, whatever the device and exerciser names, but not for the long form used when \<open>log_vpd\<close> is set: a
  message of the documented maximum length then overruns the buffer.\<close>

theorem message_room:
  assumes "end_line m \<noteq> None" and "system_run (u_data u)"
    and "length (sdev_id (u_data u)) < 40" and "length (HE_name (u_data u)) < 32"
  shows "(length (msg_text (u_data u)) \<le> MAX_TEXT_MSG \<and> he_log_vpd (u_HE u) \<noteq> 1 \<longrightarrow>
            htx_message w m u \<noteq> None) \<and>
         (length (msg_text (u_data u)) = MAX_TEXT_MSG \<and> he_log_vpd (u_HE u) = 1 \<longrightarrow>
            htx_message w m u = None)"
proof (intro conjI impI; elim conjE)
  let ?t = "disp_time w (w_time w (u_calls u))"
  assume l: "length (msg_text (u_data u)) \<le> MAX_TEXT_MSG" and v: "he_log_vpd (u_HE u) \<noteq> 1"
  have "length ?t \<le> 20" by (simp add: disp_time_def)
  then show "htx_message w m u \<noteq> None"
    unfolding htx_message_fits [OF assms(1)]
    using length_std_text [of ?t "u_data u" "msg_text (u_data u)"] l v assms(3,4) by (simp add: message_text_def)
next
  let ?t = "disp_time w (w_time w (u_calls u))"
  assume "length (msg_text (u_data u)) = MAX_TEXT_MSG" and "he_log_vpd (u_HE u) = 1"
  then show "htx_message w m u = None"
    unfolding htx_message_fits [OF assms(1)]
    using length_vpd_text [of 23 "msg_text (u_data u)" ?t "u_data u"] assms(2) by (simp add: message_text_def)
qed

theorem message_room_witness:
  "let u = start_upd\<lparr>u_data := reg_data\<lparr>msg_text := replicate 3672 (CHR ''x'')\<rparr>\<rparr>
   in htx_message calm_world ''stopped'' u \<noteq> None \<and>
      htx_message calm_world ''stopped'' (u\<lparr>u_HE := zero_HE\<lparr>he_log_vpd := 1\<rparr>\<rparr>) = None"
  using message_room [of "''stopped''" "start_upd\<lparr>u_data := reg_data\<lparr>msg_text := replicate 3672 (CHR ''x'')\<rparr>\<rparr>" calm_world]
    message_room [of "''stopped''" "start_upd\<lparr>u_data := reg_data\<lparr>msg_text := replicate 3672 (CHR ''x'')\<rparr>,
      u_HE := zero_HE\<lparr>he_log_vpd := 1\<rparr>\<rparr>" calm_world]
  by (simp add: Let_def upd_eval system_run_def end_line_def)

end
