(* ===== verification/Htx_Halt.thy ===== *)
theory Htx_Halt
  imports Htx_Update
begin

text \<open>
  \<open>htx_start\<close> and \<open>hxfupdate_tunsafe\<close> of \<open>lib/htx64/hxfupdate.c\<close>: attaching an
  exerciser to the system, the calls it makes, and how it halts on the semaphores of its ECG.

  One call runs to its first blocking wait as a function; waiting, and what htxd does meanwhile to the
  semaphores and the entry, are steps of an inductive relation. The semaphore set exists throughout, so that the
  waits end by the semaphores or by the shutdown flag. The log directory that a start call creates is left out.
\<close>

subsection \<open>\<open>htx_start\<close>\<close>

text \<open>What the start finds: the \<open>errno\<close> of the \<open>k\<close>-th attaching system call (0 when it succeeds), the exerciser
  table, the entries of the ECG, and the shutdown flag as read at each point in time.\<close>

record start_env =
  s_errno :: "nat \<Rightarrow> int"
  s_stale_errno :: int
  s_max_exer :: nat
  s_table :: "texer_list list"
  s_max_entries :: nat
  s_entries :: "htxshm_HE list"
  s_pid :: int
  s_shutdown :: "nat \<Rightarrow> bool"

definition error_head :: "htx_data \<Rightarrow> string" where
  "error_head d = HE_name d @ '' for '' @ sdev_id d @ '': Error in hxfupdate function.\<newline>''"

definition start_error :: "world \<Rightarrow> int \<Rightarrow> int \<Rightarrow> int \<Rightarrow> int \<Rightarrow> string \<Rightarrow> upd \<Rightarrow> int \<times> upd" where
  "start_error w mtype fcode err sev text u =
     (fcode, snd (sendp w mtype (u\<lparr>u_data := (u_data u)\<lparr>error_code := err, severity_code := sev,
                                   msg_text := error_head (u_data u) @ text\<rparr>\<rparr>)))"

type_synonym attach_call = "int \<times> string \<times> string"

definition common_calls :: "attach_call list" where
  "common_calls =
     [(- 11, ''Unable to access HTX message queue.\<newline>errno = '', []),
      (- 12, '' Unable to get HTX shared memory for rem_shm_id.\<newline>errno = '', ''\<newline>''),
      (- 13, '' Unable to attach to HTX shared memory for rem_shm_addr.\<newline>errno = '', ''\<newline>''),
      (- 14, '' Unable to get HTX shared memory for exer_info .\<newline>errno = '', ''\<newline>''),
      (- 15, '' Unable to attach to shared memory.\<newline>errno = '', ''\<newline>'')]"

definition ecg_calls :: "attach_call list" where
  "ecg_calls =
     [(- 17, ''Unable to get HTX shared memory.\<newline>errno = '', []),
      (- 18, ''Unable to attach HTX shared memory.\<newline>errno = '', []),
      (- 19, ''Unable to get HTX semaphore structure.\<newline>errno = '', [])]"

fun attach :: "(nat \<Rightarrow> int) \<Rightarrow> nat \<Rightarrow> attach_call list \<Rightarrow> (int \<times> int \<times> string) option" where
  "attach errno k [] = None"
| "attach errno k ((fcode, a, b) # calls) =
     (if errno k \<noteq> 0 then Some (fcode, errno k, a @ show_int (errno k) @ b)
      else attach errno (Suc k) calls)"

text \<open>The entry and the structure of a starting exerciser: everything is cleared but \<open>no_of_errs\<close>.\<close>

definition start_HE :: "int \<Rightarrow> htx_data \<Rightarrow> htxshm_HE \<Rightarrow> htxshm_HE" where
  "start_HE now d h =
     h\<lparr>he_hotplug_cpu := (if hotplug_cpu d = 1 then 1 else 0),
       he_hotplug_mem := (if hotplug_mem d = 1 then 1 else 0),
       he_hotplug_io := (if hotplug_io d = 1 then 1 else 0),
       he_cycles := 0, he_tm_last_err := 0, he_run_time := 0, he_bad_others := 0, he_bad_reads := 0,
       he_bad_writes := 0, he_bytes_read1 := 0, he_bytes_read2 := 0, he_bytes_writ1 := 0,
       he_bytes_writ2 := 0, he_good_others := 0, he_good_reads := 0, he_good_writes := 0,
       he_total_num_instructions := 0, he_test_id := 0, he_rand_halt := 0, he_upd_test_id := 0,
       he_tm_last_upd := now\<rparr>"

definition not_available :: string where
  "not_available = ''Not Available''"

definition start_data :: "htx_data \<Rightarrow> htx_data" where
  "start_data d =
     (zero_counters d)\<lparr>test_id := 0, miscompare_count := 0, loc_code := not_available,
       dev_desc := not_available, serial_no := not_available, fru_no := not_available,
       part_no := not_available\<rparr>"

text \<open>The loop that waits for the start delay; reading the clock once per second.\<close>

partial_function (option) delay_loop ::
  "world \<Rightarrow> (nat \<Rightarrow> bool) \<Rightarrow> int \<Rightarrow> int \<Rightarrow> nat \<Rightarrow> (int \<times> nat) option" where
  "delay_loop w shutdown until current n =
     (if current < until \<and> \<not> shutdown n then delay_loop w shutdown until (w_time w n) (Suc n)
      else Some (current, n))"

definition delay_text :: "string \<Rightarrow> htx_data \<Rightarrow> string \<Rightarrow> string" where
  "delay_text t d text =
     (let ind = replicate 3 (CHR 0x09) @ [NL]
      in [NL] @ dashes @ ind @ ''Device id:'' @ pad_right 18 (sdev_id d) @ [NL] @ ''Timestamp:'' @
         pad_right 20 t @ ind @ ''err='' @ fmt_8x (error_code d) @ [NL] @ ''sev='' @
         show_int (severity_code d) @ [NL] @ ''Exerciser Name:'' @ pad_right 14 (HE_name d) @ ind @
         ''Device:'' @ dev_desc d @ ind @ ''Message Text:'' @ text @ ind @ dashes @ [NL])"

definition set_text :: "string \<Rightarrow> upd \<Rightarrow> upd" where
  "set_text t u = u\<lparr>u_data := (u_data u)\<lparr>msg_text := t\<rparr>\<rparr>"

definition start_delay :: "world \<Rightarrow> (nat \<Rightarrow> bool) \<Rightarrow> upd \<Rightarrow> upd fault" where
  "start_delay w shutdown u =
     (if he_test_start_delay (u_HE u) = 0 then Some u
      else
        (let delay = he_test_start_delay (u_HE u);
             started = w_time w (u_calls u);
             u = (tick u)\<lparr>u_data := (u_data u)\<lparr>error_code := 0, severity_code := HTX_HE_INFO\<rparr>\<rparr>;
             u = set_text (delay_text (disp_time w started) (u_data u)
                   (''test start delay is set as '' @ show_int (wrap32 delay) @ '' seconds, going to sleep...'')) u;
             u = snd (sendp w HTX_HE_MSG u);
             u = u\<lparr>u_HE := (u_HE u)\<lparr>he_started_delay_flag := 1\<rparr>\<rparr>
         in do { (current, n) \<leftarrow> delay_loop w shutdown (started + delay) started (u_calls u);
                 let u = u\<lparr>u_calls := n, u_HE := (u_HE u)\<lparr>he_started_delay_flag := 0\<rparr>\<rparr>;
                 let u = set_text (delay_text (disp_time w current) (u_data u)
                   (''test start delay ('' @ show_int (wrap32 delay) @ '' seconds) is completed, start running...'')) u;
                 Some (snd (sendp w HTX_HE_MSG u)) }))"

text \<open>The lock is set up with one retry when resources are short; failures are only reported.\<close>

abbreviation (input) EAGAIN :: int where "EAGAIN \<equiv> 11"
abbreviation (input) ENOMEM :: int where "ENOMEM \<equiv> 12"
abbreviation (input) EBUSY :: int where "EBUSY \<equiv> 16"

definition warn :: "world \<Rightarrow> string \<Rightarrow> int \<Rightarrow> upd \<Rightarrow> upd" where
  "warn w text rc u = snd (sendp w HTX_SYS_MSG (set_text (text @ show_int rc @ [NL]) u))"

definition init_attr :: "world \<Rightarrow> upd \<Rightarrow> upd" where
  "init_attr w u =
     (let rc = w_lock w (u_calls u); u = tick u
      in if rc = 0 then u
         else if rc = EAGAIN \<or> rc = ENOMEM then
           (let rc' = w_lock w (u_calls u); u = tick u
            in if rc' \<noteq> 0 then warn w ''rwlock attr initialisation failed with rc='' rc u else u)
         else warn w ''rwlock attr initialisation failed with rc='' rc u)"

definition init_pshared :: "world \<Rightarrow> upd \<Rightarrow> upd" where
  "init_pshared w u =
     (let rc = w_lock w (u_calls u); u = tick u
      in if rc \<noteq> 0 then warn w ''sharing rwlock attr across processes failed with rc='' rc u else u)"

definition init_lock :: "world \<Rightarrow> upd \<Rightarrow> upd" where
  "init_lock w u =
     (let rc = w_lock w (u_calls u); u = tick u
      in if rc = 0 then u
         else if rc = EBUSY then warn w ''p_shm_HE->HE_rwlock_hxfupdate_init()1 failed with rc='' rc u
         else if rc = EAGAIN \<or> rc = ENOMEM then
           (let rc' = w_lock w (u_calls u); u = tick u
            in if rc' \<noteq> 0 then warn w ''p_shm_HE->HE_rwlock_hxfupdate_lock() failed in retry with rc='' rc' u else u)
         else warn w ''p_shm_HE->HE_rwlock_hxfupdate_lock() failed with rc='' rc u)"

text \<open>The state on entry has no entry yet; \<open>u_HE\<close> is the entry found when the code is positive. The third
  component is the saved start of the cycle.\<close>

definition start_found :: "world \<Rightarrow> start_env \<Rightarrow> nat \<Rightarrow> upd \<Rightarrow> (int \<times> upd \<times> int) fault" where
  "start_found w e i u =
     (let now = w_time w (u_calls u);
          u = (tick u)\<lparr>u_HE := start_HE now (u_data u) (s_entries e ! i),
                       u_data := start_data (u_data u)\<rparr>
      in do { u \<leftarrow> start_delay w (s_shutdown e) u;
              let t = w_time w (u_calls u);
              let u = (tick u)\<lparr>u_HE := (u_HE u)\<lparr>he_test_started_time := t\<rparr>\<rparr>;
              Some (int i + 1, init_lock w (init_pshared w (init_attr w u)), now) })"

definition htx_start :: "world \<Rightarrow> start_env \<Rightarrow> upd \<Rightarrow> (int \<times> upd \<times> int) fault" where
  "htx_start w e u =
     (let d = u_data u;
          failed = (\<lambda>(fcode, err, text). Some (let (rc, u) =
             start_error w HTX_SYS_MSG fcode err HTX_SYS_HARD_ERROR text u in (rc, u, 0)))
      in case attach (s_errno e) 0 common_calls of
           Some f \<Rightarrow> failed f
         | None \<Rightarrow>
             if length (sdev_id d) < 5 then None
             else
               (case find_keys (s_pid e) (drop 5 (sdev_id d)) (take (s_max_exer e) (s_table e)) of
                  None \<Rightarrow> failed (- 16, s_stale_errno e, '' smkey for exerciser is -1.\<newline>'')
                | Some (shmkey, semkey) \<Rightarrow>
                    if shmkey = - 1 then failed (- 16, s_stale_errno e, '' smkey for exerciser is -1.\<newline>'')
                    else
                      (case attach (s_errno e) 5 ecg_calls of
                         Some f \<Rightarrow> failed f
                       | None \<Rightarrow>
                           (case find_HE (s_pid e) (drop 5 (sdev_id d)) (take (s_max_entries e) (s_entries e)) 0 of
                              None \<Rightarrow> Some (let (rc, u) = start_error w HTX_HE_MSG (- 20) 15 HTX_HE_HARD_ERROR
                                 (''Unable to find '' @ sdev_id d @ '' in HTX shared memory structure.\<newline>'') u
                                 in (rc, u, 0))
                            | Some i \<Rightarrow> start_found w e i u))))"

subsection \<open>\<open>hxfupdate\<close> up to its first wait\<close>

text \<open>A return code is \<open>None\<close> when the call never sets it. \<open>Posting c r\<close> is the point after the
  \<open>switch\<close>; the waits are for the cycle limit, for the error and halt semaphores, for the halt semaphore of
  the exerciser, and for that of the system.\<close>

datatype phase =
    Returned "int option"
  | Cycling char "int option"
  | Posting char "int option"
  | Err_Wait "int option"
  | Exer_Wait "int option"
  | Sys_Wait "int option"
  | Exited int

record hx =
  hx_u :: upd
  hx_sys :: tsys_hdr
  hx_sem :: "nat \<Rightarrow> nat"
  hx_semnum :: nat
  hx_save_time :: int
  hx_shutdown :: bool
  hx_phase :: phase

text \<open>The parts of the environment a call depends on: \<open>stack\<close> is what the uninitialised buffer
  \<open>msg_send\<close> happens to hold.\<close>

record call_env =
  c_world :: world
  c_start :: start_env
  c_vpd :: "htx_data \<Rightarrow> htx_data"
  c_stack :: string

definition upper_run_type :: "htx_data \<Rightarrow> htx_data" where
  "upper_run_type d = d\<lparr>run_type := map toupper (take 4 (run_type d)) @ drop 4 (run_type d)\<rparr>"

definition error_status :: "int \<Rightarrow> htxshm_HE \<Rightarrow> tsys_hdr \<Rightarrow> tsys_hdr" where
  "error_status now h y =
     y\<lparr>bcast_done := 0, error_count := error_count y + 1, system_status := ''PARTIALLY RUNNING'',
       error_dev := he_sdev_id h, last_error_time := now, last_update_time := now\<rparr>"

definition cycles_text :: "string \<Rightarrow> upd \<Rightarrow> string" where
  "cycles_text t u =
     (let d = u_data u
      in pad_right 18 (sdev_id d) @ pad_right 20 t @ '' err='' @ fmt_8x (error_code d) @ '' sev='' @
         fmt_u (severity_code d) @ [SP] @ pad_right 14 (HE_name d) @ [NL] @ ''Stopped - cycles run ('' @
         dec_digits (unat (he_cycles (u_HE u))) @ '') = max_cycles ('' @
         dec_digits (unat (he_max_cycles (u_HE u))) @ '').\<newline>\<newline>'')"

definition call_start :: "call_env \<Rightarrow> hx \<Rightarrow> hx fault" where
  "call_start e x =
     do { (rel_pos, u, t) \<leftarrow> htx_start (c_world e) (c_start e) (hx_u x);
          Some (if 0 < rel_pos
                then x\<lparr>hx_u := u, hx_save_time := t,
                       hx_semnum := ushort ((rel_pos - 1) * int SEM_PER_EXER + int SEM_GLOBAL),
                       hx_phase := Posting (CHR ''S'') (Some 0)\<rparr>
                else x\<lparr>hx_u := u, hx_phase := Exited (- rel_pos)\<rparr>) }"

definition call_update :: "call_env \<Rightarrow> hx \<Rightarrow> hx fault" where
  "call_update e x =
     (let w = c_world e;
          u = snd (htx_update w (hx_u x));
          u = snd (htx_get_msg w (c_vpd e) (c_stack e) u)
      in Some (x\<lparr>hx_u := u, hx_phase := Posting (CHR ''U'') (Some 0)\<rparr>))"

definition call_error :: "call_env \<Rightarrow> hx \<Rightarrow> hx fault" where
  "call_error e x =
     (let w = c_world e;
          u = hx_u x;
          u = (if 0 < hx_semnum x then u\<lparr>u_HE := (u_HE u)\<lparr>he_err_ack := 0\<rparr>\<rparr> else u);
          u = snd (htx_update w u);
          (msg_send, u) = htx_get_msg w (c_vpd e) (c_stack e) u
      in do { u \<leftarrow> htx_error w msg_send u;
              let y = (if system_run (u_data u) \<and> he_err_ack (u_HE u) = 0
                       then error_status (wrap32 (w_time w (u_calls u))) (u_HE u) (hx_sys x) else hx_sys x);
              Some (x\<lparr>hx_u := u, hx_sys := y, hx_phase := Posting (CHR ''E'') None\<rparr>) })"

definition call_message :: "call_env \<Rightarrow> hx \<Rightarrow> hx fault" where
  "call_message e x =
     do { (rc, _, u) \<leftarrow> htx_message (c_world e) (c_stack e) (hx_u x);
          Some (x\<lparr>hx_u := u, hx_phase := Posting (CHR ''M'') (Some rc)\<rparr>) }"

definition call_reconfig :: "hx \<Rightarrow> hx fault" where
  "call_reconfig x =
     Some (x\<lparr>hx_u := (hx_u x)\<lparr>u_HE := (u_HE (hx_u x))\<lparr>he_DR_term := 1\<rparr>\<rparr>,
             hx_phase := Posting (CHR ''R'') None\<rparr>)"

definition call_finish :: "call_env \<Rightarrow> hx \<Rightarrow> hx fault" where
  "call_finish e x =
     (let w = c_world e;
          u = snd (htx_update w (hx_u x));
          (rc, u) = htx_finish u;
          h = u_HE u
      in Some (if he_max_cycles h \<noteq> 0 \<and> he_max_cycles h \<le> he_cycles h
               then x\<lparr>hx_u := snd (sendp w HTX_HE_MSG
                         (set_text (cycles_text (disp_time w (he_tm_last_upd h)) u) u)),
                      hx_phase := Cycling (CHR ''F'') (Some rc)\<rparr>
               else x\<lparr>hx_u := u, hx_phase := Posting (CHR ''F'') (Some rc)\<rparr>))"

text \<open>In a system run every call but the start goes through \<open>p_shm_HE\<close>, null before the start.\<close>

definition hxfupdate_tunsafe :: "call_env \<Rightarrow> char \<Rightarrow> hx \<Rightarrow> hx fault" where
  "hxfupdate_tunsafe e c x =
     (let x = x\<lparr>hx_u := (hx_u x)\<lparr>u_data := upper_run_type (u_data (hx_u x))\<rparr>\<rparr>;
          d = u_data (hx_u x);
          c = toupper c
      in if \<not> system_run d \<and> c \<noteq> CHR ''M'' \<and> c \<noteq> CHR ''E'' then Some (x\<lparr>hx_phase := Returned (Some 0)\<rparr>)
         else if c = CHR ''S'' then call_start e x
         else if system_run d \<and> hx_semnum x = 0 \<and> c \<in> {CHR ''U'', CHR ''E'', CHR ''M'', CHR ''R'', CHR ''F''}
              then None
         else if c = CHR ''U'' then call_update e x
         else if c = CHR ''E'' then call_error e x
         else if c = CHR ''M'' then call_message e x
         else if c = CHR ''R'' then call_reconfig x
         else if c = CHR ''F'' then call_finish e x
         else Some (x\<lparr>hx_phase := Posting c (Some 1)\<rparr>))"

subsection \<open>After the switch\<close>

definition stop_text :: "string \<Rightarrow> htxshm_HE \<Rightarrow> htx_data \<Rightarrow> string" where
  "stop_text t h d =
     (if he_log_vpd h = 1 then vpd_text 8 t d ''Hardware Exerciser stopped on error\<newline>''
      else std_text t d ''Hardware Exerciser stopped on an error\<newline>'')"

text \<open>An error at or below the halt level; the exerciser stops unless it continues on errors.\<close>

definition halt_error :: "world \<Rightarrow> int option \<Rightarrow> hx \<Rightarrow> hx" where
  "halt_error w r x =
     (let u = hx_u x;
          h = (u_HE u)\<lparr>he_no_of_errs := he_no_of_errs (u_HE u) + 1\<rparr>
      in if he_cont_on_err h = 0 then
           (let h = (if he_test_id h = 0 \<and> he_upd_test_id h = 0 then h\<lparr>he_upd_test_id := 1\<rparr> else h);
                t = disp_time w (w_time w (u_calls u));
                u = set_text (stop_text t h (u_data u)) ((tick u)\<lparr>u_HE := h\<rparr>);
                u = snd (sendp w HTX_HE_MSG u)
            in x\<lparr>hx_u := u, hx_sem := (hx_sem x)(hx_semnum x + 1 := 1), hx_phase := Err_Wait r\<rparr>)
         else x\<lparr>hx_u := u\<lparr>u_HE := h\<rparr>, hx_phase := Returned r\<rparr>)"

definition after_switch :: "world \<Rightarrow> char \<Rightarrow> int option \<Rightarrow> hx \<Rightarrow> hx" where
  "after_switch w c r x =
     (if hx_semnum x = 0 then x\<lparr>hx_phase := Returned r\<rparr>
      else
        (let u = hx_u x; h = u_HE u; n = hx_semnum x;
             halted = (hx_sem x n = 1 \<or> hx_sem x (n + 1) = 1 \<and> he_cont_on_err h = 0);
             h = h\<lparr>he_halt_flag := (if halted then 1 else 0)\<rparr>;
             x = x\<lparr>hx_u := u\<lparr>u_HE := h\<rparr>\<rparr>
         in if severity_code (u_data u) \<le> he_halt_sev_level h \<and> c = CHR ''E''
            then halt_error w r x
            else x\<lparr>hx_phase := Exer_Wait r\<rparr>))"

text \<open>What htxd may change while the exerciser runs: everything but the acknowledgement semaphore, the state
  of the library and the counters.\<close>

definition ack_sem :: "hx \<Rightarrow> nat" where
  "ack_sem x = hx_semnum x + 2"

definition by_daemon :: "hx \<Rightarrow> hx \<Rightarrow> bool" where
  "by_daemon x x' \<longleftrightarrow>
     (\<exists>sem y shutdown m l c a.
        x' = x\<lparr>hx_sem := sem, hx_sys := y, hx_shutdown := shutdown,
               hx_u := (hx_u x)\<lparr>u_HE := (u_HE (hx_u x))\<lparr>he_max_cycles := m, he_halt_sev_level := l,
                  he_cont_on_err := c, he_err_ack := a\<rparr>\<rparr>\<rparr> \<and>
        sem (ack_sem x) = hx_sem x (ack_sem x))"

inductive exer_step :: "call_env \<Rightarrow> hx \<Rightarrow> hx \<Rightarrow> bool" for e :: call_env where
  call: "exer_step e x x'" if "hx_phase x = Returned r" "hxfupdate_tunsafe e c (x\<lparr>hx_u := (hx_u x)\<lparr>u_data := d\<rparr>\<rparr>) = Some x'"
| cycles: "exer_step e x (x\<lparr>hx_phase := Posting c r\<rparr>)"
    if "hx_phase x = Cycling c r" "hx_shutdown x \<or> he_max_cycles (u_HE (hx_u x)) = 0"
| post: "exer_step e x (after_switch (c_world e) c r x)" if "hx_phase x = Posting c r"
| err_end: "exer_step e x (x\<lparr>hx_phase := Returned r\<rparr>)"
    if "hx_phase x = Err_Wait r"
      "hx_shutdown x \<or> (\<forall>i\<in>{0, hx_semnum x, 2, hx_semnum x + 1}. hx_sem x i = 0)"
| exer_end: "exer_step e x
      (if hx_sem x 0 = 1 then x\<lparr>hx_sem := (hx_sem x)(ack_sem x := 1), hx_phase := Sys_Wait r\<rparr>
       else x\<lparr>hx_phase := Returned r\<rparr>)"
    if "hx_phase x = Exer_Wait r" "hx_shutdown x \<or> hx_sem x (hx_semnum x) = 0"
| sys_end: "exer_step e x (x\<lparr>hx_sem := (hx_sem x)(ack_sem x := 0), hx_phase := Returned r\<rparr>)"
    if "hx_phase x = Sys_Wait r" "hx_shutdown x \<or> hx_sem x 0 = 0"

text \<open>Runs after the start: a program makes the start call once.\<close>

inductive hx_reach :: "hx \<Rightarrow> hx \<Rightarrow> bool" for x0 :: hx where
  start: "hx_reach x0 x0"
| exer: "hx_reach x0 x \<Longrightarrow> exer_step e x x' \<Longrightarrow> hx_semnum x' = hx_semnum x \<Longrightarrow> hx_reach x0 x'"
| daemon: "hx_reach x0 x \<Longrightarrow> by_daemon x x' \<Longrightarrow> hx_reach x0 x'"

inductive_cases exer_step_elim: "exer_step e x x'"

subsection \<open>The semaphores\<close>

lemmas call_defs = call_start_def call_update_def call_error_def call_message_def call_reconfig_def
  call_finish_def

lemma hxfupdate_frame:
  assumes "hxfupdate_tunsafe e c x = Some x'"
  shows "hx_sem x' = hx_sem x \<and> hx_shutdown x' = hx_shutdown x \<and>
    (\<forall>r. hx_phase x' \<noteq> Sys_Wait r \<and> hx_phase x' \<noteq> Err_Wait r \<and> hx_phase x' \<noteq> Exer_Wait r)"
  using assms
  by (auto simp: hxfupdate_tunsafe_def call_defs Let_def split: if_splits bind_splits prod.splits)

definition ack_ok :: "hx \<Rightarrow> bool" where
  "ack_ok x \<longleftrightarrow> hx_sem x (ack_sem x) = (case hx_phase x of Sys_Wait r \<Rightarrow> 1 | _ \<Rightarrow> 0)"

lemma ack_ok_by_daemon: "by_daemon x x' \<Longrightarrow> ack_ok x \<Longrightarrow> ack_ok x'"
  by (auto simp: by_daemon_def ack_ok_def ack_sem_def)

lemma after_switch_sem: "hx_semnum (after_switch w c r x) = hx_semnum x"
    "hx_sem (after_switch w c r x) (ack_sem x) = hx_sem x (ack_sem x)"
    "hx_phase (after_switch w c r x) \<in> {Returned r, Err_Wait r, Exer_Wait r}"
  by (auto simp: after_switch_def halt_error_def Let_def ack_sem_def)

lemma ack_ok_step:
  assumes "exer_step e x x'" and "hx_semnum x' = hx_semnum x" and "ack_ok x"
  shows "ack_ok x'"
  using assms(1)
proof cases
  case (call r c d)
  then have "hx_sem x' = hx_sem x" and "\<forall>r. hx_phase x' \<noteq> Sys_Wait r"
    using hxfupdate_frame [OF call(2)] by auto
  then show ?thesis using assms(2,3) call(1) by (auto simp: ack_ok_def ack_sem_def split: phase.splits)
next
  case (post c r)
  then show ?thesis using after_switch_sem [of "c_world e" c r x] assms(3)
    by (auto simp: ack_ok_def ack_sem_def)
qed (use assms(3) in \<open>auto simp: ack_ok_def ack_sem_def\<close>)


definition sample_env :: call_env where
  "sample_env = \<lparr>c_world = calm_world,
     c_start = \<lparr>s_errno = (\<lambda>_. 0), s_stale_errno = 0, s_max_exer = 0, s_table = [], s_max_entries = 0,
                s_entries = [], s_pid = 0, s_shutdown = (\<lambda>_. False)\<rparr>,
     c_vpd = id, c_stack = []\<rparr>"

definition sample_hx :: hx where
  "sample_hx = \<lparr>hx_u = start_upd, hx_sys = \<lparr>bcast_done = 1, system_status = [], error_dev = [], error_count = 0,
       last_error_time = 0, last_update_time = 0, max_exer_entries = 0, cur_shm_key = 0\<rparr>,
     hx_sem = (\<lambda>_. 0)(0 := 1), hx_semnum = 6, hx_save_time = 0, hx_shutdown = False,
     hx_phase = Posting (CHR ''S'') (Some 0)\<rparr>"


subsection \<open>Stopping on an error\<close>

definition err_sems :: "hx \<Rightarrow> nat set" where
  "err_sems x = {0, hx_semnum x, 2, hx_semnum x + 1}"

lemma exer_step_Err_Wait:
  assumes "hx_phase x = Err_Wait r"
  shows "exer_step e x y \<longleftrightarrow>
    (hx_shutdown x \<or> (\<forall>i\<in>err_sems x. hx_sem x i = 0)) \<and> y = x\<lparr>hx_phase := Returned r\<rparr>"
proof
  assume "exer_step e x y"
  then show "(hx_shutdown x \<or> (\<forall>i\<in>err_sems x. hx_sem x i = 0)) \<and> y = x\<lparr>hx_phase := Returned r\<rparr>"
    using assms by cases (auto simp: err_sems_def)
next
  assume "(hx_shutdown x \<or> (\<forall>i\<in>err_sems x. hx_sem x i = 0)) \<and> y = x\<lparr>hx_phase := Returned r\<rparr>"
  then show "exer_step e x y" using assms exer_step.err_end [of x r e] by (simp add: err_sems_def)
qed

lemma sendp_HE [simp]: "u_HE (snd (sendp w t u)) = u_HE u"
  by (simp add: sendp_def msgsnd_def tick_def)

lemma set_text_HE [simp]: "u_HE (set_text t u) = u_HE u"
  by (simp add: set_text_def)

lemma tick_HE [simp]: "u_HE (tick u) = u_HE u"
  by (simp add: tick_def)

lemma by_daemon_frame:
  "by_daemon x x' \<Longrightarrow> hx_phase x' = hx_phase x \<and> hx_semnum x' = hx_semnum x"
  by (auto simp: by_daemon_def)

text \<open>C17: An error at or below the halt level is counted. If the exerciser continues on errors, it goes on at once.
  Otherwise it raises its error semaphore and waits, and however often htxd intervenes it can only go on, returning
  from the call, when the system is shutting down or its own and the two system-wide semaphores are all
  zero.\<close>

theorem stop_on_error:
  assumes "hx_phase x = Posting (CHR ''E'') r" and "0 < hx_semnum x"
    and "severity_code (u_data (hx_u x)) \<le> he_halt_sev_level (u_HE (hx_u x))"
  shows "let x' = after_switch w (CHR ''E'') r x
         in he_no_of_errs (u_HE (hx_u x')) = he_no_of_errs (u_HE (hx_u x)) + 1 \<and>
            (if he_cont_on_err (u_HE (hx_u x)) \<noteq> 0 then hx_phase x' = Returned r
             else hx_sem x' (hx_semnum x + 1) = 1 \<and>
                  (\<forall>x''. by_daemon\<^sup>*\<^sup>* x' x'' \<longrightarrow>
                     (\<forall>e y. exer_step e x'' y \<longleftrightarrow>
                        (hx_shutdown x'' \<or> (\<forall>i\<in>err_sems x. hx_sem x'' i = 0)) \<and>
                        y = x''\<lparr>hx_phase := Returned r\<rparr>)))"
proof -
  let ?x = "after_switch w (CHR ''E'') r x"
  have d: "by_daemon\<^sup>*\<^sup>* z z' \<Longrightarrow> hx_phase z' = hx_phase z \<and> hx_semnum z' = hx_semnum z" for z z'
    by (induction rule: rtranclp_induct) (auto dest: by_daemon_frame)
  have n: "he_no_of_errs (u_HE (hx_u ?x)) = he_no_of_errs (u_HE (hx_u x)) + 1"
    and c: "he_cont_on_err (u_HE (hx_u x)) \<noteq> 0 \<Longrightarrow> hx_phase ?x = Returned r"
    and s: "he_cont_on_err (u_HE (hx_u x)) = 0 \<Longrightarrow> hx_phase ?x = Err_Wait r \<and> hx_sem ?x (hx_semnum x + 1) = 1"
    using assms by (simp_all add: after_switch_def halt_error_def Let_def)
  have "exer_step e x'' y \<longleftrightarrow> (hx_shutdown x'' \<or> (\<forall>i\<in>err_sems x. hx_sem x'' i = 0)) \<and>
      y = x''\<lparr>hx_phase := Returned r\<rparr>"
    if "he_cont_on_err (u_HE (hx_u x)) = 0" "by_daemon\<^sup>*\<^sup>* ?x x''" for e y x''
  proof -
    have "hx_phase x'' = Err_Wait r" "hx_semnum x'' = hx_semnum x"
      using d [OF that(2)] s [OF that(1)] by (auto simp: after_switch_sem)
    then show ?thesis by (simp add: exer_step_Err_Wait err_sems_def)
  qed
  then show ?thesis using n c s by (simp add: Let_def)
qed

theorem stop_on_error_witness:
  "let x = sample_hx\<lparr>hx_phase := Posting (CHR ''E'') None\<rparr>;
       x' = after_switch calm_world (CHR ''E'') None x
   in he_no_of_errs (u_HE (hx_u x')) = 1 \<and> (\<forall>e y. \<not> exer_step e x' y)"
proof -
  let ?x = "sample_hx\<lparr>hx_phase := Posting (CHR ''E'') None\<rparr>"
  let ?x' = "after_switch calm_world (CHR ''E'') None ?x"
  have "he_no_of_errs (u_HE (hx_u ?x')) = 1 \<and>
     (\<forall>x''. by_daemon\<^sup>*\<^sup>* ?x' x'' \<longrightarrow> (\<forall>e y. exer_step e x'' y \<longleftrightarrow>
        (hx_shutdown x'' \<or> (\<forall>i\<in>err_sems ?x. hx_sem x'' i = 0)) \<and> y = x''\<lparr>hx_phase := Returned None\<rparr>))"
    using stop_on_error [of ?x None calm_world]
    by (simp add: Let_def sample_hx_def upd_eval)
  moreover have "\<not> hx_shutdown ?x' \<and> hx_sem ?x' 7 = 1"
    by (simp add: after_switch_def halt_error_def Let_def sample_hx_def upd_eval)
  moreover have "7 \<in> err_sems ?x" by (simp add: err_sems_def sample_hx_def)
  ultimately show ?thesis by (fastforce simp: Let_def)
qed

subsection \<open>Shutdown\<close>

text \<open>How many steps are left to the return of a call.\<close>

fun phase_rank :: "phase \<Rightarrow> nat" where
  "phase_rank (Returned r) = 0"
| "phase_rank (Exited n) = 0"
| "phase_rank (Sys_Wait r) = 1"
| "phase_rank (Err_Wait r) = 1"
| "phase_rank (Exer_Wait r) = 2"
| "phase_rank (Posting c r) = 3"
| "phase_rank (Cycling c r) = 4"

lemma shutdown_step:
  assumes "hx_shutdown x" and "\<And>n. hx_phase x \<noteq> Exited n" and "\<And>r. hx_phase x \<noteq> Returned r"
  shows "\<exists>y. exer_step e x y \<and> hx_shutdown y \<and> (\<forall>n. hx_phase y \<noteq> Exited n) \<and>
    phase_rank (hx_phase y) < phase_rank (hx_phase x)"
proof (cases "hx_phase x")
  case (Cycling c r)
  then show ?thesis using assms(1) exer_step.cycles [of x c r e] by fastforce
next
  case (Posting c r)
  have "hx_shutdown (after_switch (c_world e) c r x) = hx_shutdown x"
    by (simp add: after_switch_def halt_error_def Let_def)
  then show ?thesis
    using assms(1) exer_step.post [OF Posting, of e] after_switch_sem(3) [of "c_world e" c r x] Posting
    by (intro exI [of _ "after_switch (c_world e) c r x"]) (auto split: phase.splits)
next
  case (Err_Wait r)
  then show ?thesis using assms(1) exer_step.err_end [of x r e] by fastforce
next
  case (Exer_Wait r)
  show ?thesis using assms(1) exer_step.exer_end [OF Exer_Wait, of e] Exer_Wait
    by (cases "hx_sem x 0 = 1") (fastforce split: phase.splits)+
next
  case (Sys_Wait r)
  then show ?thesis using assms(1) exer_step.sys_end [of x r e] by fastforce
qed (use assms in auto)



subsection \<open>Starting\<close>

lemma delay_loop_result:
  assumes "until \<le> w_time w k" and "n \<le> k"
  shows "\<exists>current m. delay_loop w shutdown until c n = Some (current, m) \<and> n \<le> m \<and> m \<le> Suc k \<and>
    (until \<le> current \<or> shutdown m) \<and> (current = c \<or> (\<exists>j<m. n \<le> j \<and> current = w_time w j))"
  using assms(2)
proof (induction "Suc k - n" arbitrary: n c)
  case (Suc l)
  show ?case
  proof (cases "c < until \<and> \<not> shutdown n")
    case False
    then show ?thesis using Suc.prems by (subst delay_loop.simps) auto
  next
    case True
    show ?thesis
    proof (cases "n = k")
      case True
      then show ?thesis using \<open>c < until \<and> \<not> shutdown n\<close> assms(1)
        by (subst delay_loop.simps, subst delay_loop.simps) auto
    next
      case False
      then have "l = Suc k - Suc n" "Suc n \<le> k" using Suc by auto
      from Suc.hyps(1) [OF this, of "w_time w n"] show ?thesis
        using True by (subst delay_loop.simps) (fastforce dest: Suc_leD)
    qed
  qed
qed simp

lemma sendp_simps [simp]:
  "u_data (snd (sendp w t u)) = u_data u" "u_calls (snd (sendp w t u)) = Suc (u_calls u)"
  by (simp_all add: sendp_def msgsnd_def tick_def)

lemma set_text_simps [simp]: "u_calls (set_text t u) = u_calls u"
    "data_counters (u_data (set_text t u)) = data_counters (u_data u)"
  by (simp_all add: set_text_def data_counters_def)

lemma init_frame [simp]:
  "u_HE (init_attr w u) = u_HE u" "u_HE (init_pshared w u) = u_HE u" "u_HE (init_lock w u) = u_HE u"
  "data_counters (u_data (init_attr w u)) = data_counters (u_data u)"
  "data_counters (u_data (init_pshared w u)) = data_counters (u_data u)"
  "data_counters (u_data (init_lock w u)) = data_counters (u_data u)"
  by (simp_all add: init_attr_def init_pshared_def init_lock_def warn_def tick_def Let_def)

lemma start_delay_ok:
  assumes "mono (w_time w)" and "w_time w (u_calls u) + he_test_start_delay (u_HE u) \<le> w_time w k"
  shows "\<exists>u'. start_delay w shutdown u = Some u' \<and>
    u_HE u' = (if he_test_start_delay (u_HE u) = 0 then u_HE u else (u_HE u)\<lparr>he_started_delay_flag := 0\<rparr>) \<and>
    data_counters (u_data u') = data_counters (u_data u) \<and>
    (w_time w (u_calls u) + he_test_start_delay (u_HE u) \<le> w_time w (u_calls u') \<or> (\<exists>m. shutdown m))"
proof (cases "he_test_start_delay (u_HE u) = 0")
  case True
  then show ?thesis by (simp add: start_delay_def)
next
  case False
  let ?until = "w_time w (u_calls u) + he_test_start_delay (u_HE u)" and ?n = "Suc (Suc (u_calls u))"
  have "?until \<le> w_time w (max k ?n)" using assms(2) monoD [OF assms(1), of k "max k ?n"] by simp
  from delay_loop_result [where shutdown = shutdown and c = "w_time w (u_calls u)", OF this, of ?n]
  obtain current m where l: "delay_loop w shutdown ?until (w_time w (u_calls u)) ?n = Some (current, m)"
    and m: "?n \<le> m" "?until \<le> current \<or> shutdown m"
    "current = w_time w (u_calls u) \<or> (\<exists>j<m. ?n \<le> j \<and> current = w_time w j)" by auto
  have c: "current \<le> w_time w (Suc m)" using m(1,3) monoD [OF assms(1)] by (auto intro: monoD [OF assms(1)])
  have [simp]: "data_counters (d\<lparr>error_code := a, severity_code := b\<rparr>) = data_counters d" for d a b
    by (simp add: data_counters_def)
  show ?thesis using False l m(2) c by (auto simp: start_delay_def Let_def tick_def)
qed

lemma find_HE_at:
  assumes "i < length hs" and "he_PID (hs ! i) = pid" and "strtok_paren (he_sdev_id (hs ! i)) = Some name"
    and "\<And>j. j < i \<Longrightarrow> he_PID (hs ! j) \<noteq> pid"
  shows "find_HE pid name hs k = Some (k + i)"
  using assms
proof (induction hs arbitrary: i k)
  case (Cons h hs)
  show ?case
  proof (cases i)
    case 0
    then show ?thesis using Cons.prems by (simp add: strncmp_eq_0)
  next
    case (Suc l)
    then have "he_PID h \<noteq> pid" using Cons.prems(4) [of 0] by simp
    moreover have "find_HE pid name hs (Suc k) = Some (Suc k + l)"
    proof (rule Cons.IH)
      show "he_PID (hs ! j) \<noteq> pid" if "j < l" for j using Cons.prems(4) [of "Suc j"] that Suc by simp
    qed (use Cons.prems Suc in auto)
    ultimately show ?thesis using Suc by simp
  qed
qed simp

lemma find_keys_Some:
  assumes "t \<in> set es" and "dupdev_cmp pid t name" and "\<forall>t\<in>set es. ecg_shm_key t \<noteq> - 1"
  shows "\<exists>a b. find_keys pid name es = Some (a, b) \<and> a \<noteq> - 1"
  using assms by (induction es) auto

lemma attach_None: "(\<And>k. errno k = 0) \<Longrightarrow> attach errno k calls = None"
  by (induction errno k calls rule: attach.induct) auto

lemma zero_counters_data [simp]: "data_counters (start_data d) = replicate 7 0"
  by (simp add: start_data_def zero_counters_def data_counters_def eval_nat_numeral)

text \<open>An exerciser whose table entry and shared memory entry htxd has prepared (with its process id, which no
  earlier entry of the ECG has) attaches: once the clock has passed the start delay the start returns the position of
  the entry, all accumulators on both sides are zero, the run has not started before the delay was over unless the
  system is shutting down, and the error count is kept from the previous run.\<close>

lemma start_attaches:
  assumes "\<And>k. s_errno e k = 0" and "5 \<le> length (sdev_id (u_data u))"
    and "t \<in> set (take (s_max_exer e) (s_table e))" and "dupdev_cmp (s_pid e) t (drop 5 (sdev_id (u_data u)))"
    and "\<forall>t\<in>set (s_table e). ecg_shm_key t \<noteq> - 1"
    and "i < s_max_entries e" and "i < length (s_entries e)" and "he_PID (s_entries e ! i) = s_pid e"
    and "strtok_paren (he_sdev_id (s_entries e ! i)) = Some (drop 5 (sdev_id (u_data u)))"
    and "\<And>j. j < i \<Longrightarrow> he_PID (s_entries e ! j) \<noteq> s_pid e"
    and "mono (w_time w)" and "w_time w (Suc (u_calls u)) + he_test_start_delay (s_entries e ! i) \<le> w_time w k"
  shows "\<exists>u' now. htx_start w e u = Some (int i + 1, u', now) \<and>
    he_counters (u_HE u') = replicate 7 0 \<and> read_words (u_HE u') = (0, 0) \<and> writ_words (u_HE u') = (0, 0) \<and>
    he_cycles (u_HE u') = 0 \<and> he_run_time (u_HE u') = 0 \<and> data_counters (u_data u') = replicate 7 0 \<and>
    he_no_of_errs (u_HE u') = he_no_of_errs (s_entries e ! i) \<and>
    (now + he_test_start_delay (s_entries e ! i) \<le> he_test_started_time (u_HE u') \<or> (\<exists>m. s_shutdown e m))"
proof -
  let ?n = "drop 5 (sdev_id (u_data u))" and ?h = "s_entries e ! i"
  obtain a b where k: "find_keys (s_pid e) ?n (take (s_max_exer e) (s_table e)) = Some (a, b)" "a \<noteq> - 1"
    using find_keys_Some [OF assms(3,4)] assms(5) by (meson in_set_takeD)
  have "find_HE (s_pid e) ?n (take (s_max_entries e) (s_entries e)) 0 = Some (0 + i)"
    using assms(6-10) by (intro find_HE_at) auto
  then have s: "htx_start w e u = start_found w e i u"
    using k assms(2) by (simp add: htx_start_def Let_def attach_None assms(1))
  let ?now = "w_time w (u_calls u)"
  let ?u = "(tick u)\<lparr>u_HE := start_HE ?now (u_data u) ?h, u_data := start_data (u_data u)\<rparr>"
  have [simp]: "he_test_start_delay (start_HE c d h) = he_test_start_delay h" for c d h
    by (simp add: start_HE_def)
  have "w_time w (u_calls ?u) + he_test_start_delay (u_HE ?u) \<le> w_time w k"
    using assms(12) by (simp add: tick_def)
  from start_delay_ok [OF assms(11) this, of "s_shutdown e"]
  obtain u' where d: "start_delay w (s_shutdown e) ?u = Some u'"
    and h': "u_HE u' = (if he_test_start_delay (u_HE ?u) = 0 then u_HE ?u
               else (u_HE ?u)\<lparr>he_started_delay_flag := 0\<rparr>)"
    and c': "data_counters (u_data u') = data_counters (u_data ?u)"
    and l': "w_time w (u_calls ?u) + he_test_start_delay (u_HE ?u) \<le> w_time w (u_calls u') \<or>
               (\<exists>m. s_shutdown e m)"
    by blast
  have h: "u_HE u' = (if he_test_start_delay ?h = 0 then start_HE ?now (u_data u) ?h
               else (start_HE ?now (u_data u) ?h)\<lparr>he_started_delay_flag := 0\<rparr>)"
    and c: "data_counters (u_data u') = replicate 7 0"
    and l: "w_time w (Suc (u_calls u)) + he_test_start_delay ?h \<le> w_time w (u_calls u') \<or> (\<exists>m. s_shutdown e m)"
    using h' c' l' by (simp_all add: tick_def)
  have "?now \<le> w_time w (Suc (u_calls u))" by (simp add: monoD [OF assms(11)])
  then have "?now + he_test_start_delay ?h \<le> w_time w (u_calls u') \<or> (\<exists>m. s_shutdown e m)" using l by auto
  then show ?thesis using d h c
    by (simp add: s start_found_def Let_def tick_def start_HE_def he_counters_def read_words_def writ_words_def
        eval_nat_numeral)
qed

end
