(* ===== verification/Cfgc_Stanza.thy ===== *)
theory Cfgc_Stanza
  imports Htx_Prelude
begin

text \<open>
  Attribute files (\<open>lib/cfgc\<close>): the stanza reader \<open>cfgcread\<close>, the stanza search
  \<open>cfgcrdsz\<close>, the keyword scan \<open>cfgcskwd\<close>, and the default stanza: saving it
  (\<open>cfgcsvdflt\<close>), merging it into a stanza (\<open>cfgcmrgdflt\<close>) and removing it again
  (\<open>cfgcunmrgdft\<close>). The ECG and MDT files that describe the devices of a machine are read
  with these functions.

  An open file is its bytes and the unread suffix; \<open>getc\<close> takes the first byte of the
  suffix and \<open>feof\<close> holds once it was tried on the empty one. Read errors (\<open>CFG_UNIO\<close>)
  and allocation failure are not modelled. The caller's buffer is the C string in it.
\<close>

abbreviation (input) CFG_SUCC :: int where "CFG_SUCC \<equiv> 0"
abbreviation (input) CFG_EOF :: int where "CFG_EOF \<equiv> 4004"
abbreviation (input) CFG_SZNF :: int where "CFG_SZNF \<equiv> -4015"
abbreviation (input) CFG_SZBF :: int where "CFG_SZBF \<equiv> -4016"
abbreviation (input) CFG_MNFD :: int where "CFG_MNFD \<equiv> -1"
abbreviation (input) MAXVAL :: nat where "MAXVAL \<equiv> 128"
abbreviation (input) MAXKWD :: nat where "MAXKWD \<equiv> 75"

record sft =
  sfile :: string
  unread :: string
  defbuf :: "cstring option"
  defmap :: "int list"

definition cfgcopsf :: "string option \<Rightarrow> sft option" where
  "cfgcopsf contents =
     (case contents of
        None \<Rightarrow> None
      | Some bs \<Rightarrow> Some \<lparr>sfile = bs, unread = bs, defbuf = None, defmap = []\<rparr>)"

definition ftell :: "sft \<Rightarrow> nat" where
  "ftell sf = length (sfile sf) - length (unread sf)"

definition cfgcrwnd :: "sft \<Rightarrow> sft" where
  "cfgcrwnd sf = sf\<lparr>unread := sfile sf, defbuf := map_option (\<lambda>_. []) (defbuf sf)\<rparr>"

definition graph :: "char \<Rightarrow> bool" where
  "graph c \<longleftrightarrow> 32 < code c"

subsection \<open>Reading one stanza\<close>

text \<open>The name loop of \<open>cfgcread\<close>: \<open>nm\<close> is \<open>namebuf[0..i)\<close>, \<open>nmfnd\<close> the flag. The result is
  the name and the unread part with the delimiter put back; \<open>None\<close> is the end of file.\<close>

function read_name :: "string \<Rightarrow> bool \<Rightarrow> string \<Rightarrow> (string \<times> string) option" where
  "read_name nm nmfnd [] = None"
| "read_name nm nmfnd (c # s) =
     (if c = SP \<or> c = NL then
        (if nmfnd then Some (nm, c # s) else read_name [] False s)
      else if c = CHR ''*'' \<and> nm = [] then
        (case dropWhile (\<lambda>c. c \<noteq> NL) s of
           [] \<Rightarrow> None
         | _ # s' \<Rightarrow> (if nmfnd then Some (nm, NL # s') else read_name [] False s'))
      else if length nm < MAXVAL - 2 then read_name (nm @ [c]) (c = CHR '':'' \<or> nmfnd) s
      else read_name nm False s)"
  by pat_completeness auto

lemma dropWhile_Cons_shorter: "dropWhile P s = c # s' \<Longrightarrow> length s' < length s"
  by (metis length_dropWhile_le length_Cons less_eq_Suc_le)

termination read_name
  by (relation "measure (\<lambda>(nm, f, s). length s)") (auto dest!: dropWhile_Cons_shorter)

text \<open>The copy loop: \<open>n\<close> is the room left, \<open>nbyte - i\<close>.\<close>

fun read_body :: "nat \<Rightarrow> bool \<Rightarrow> string \<Rightarrow> string \<times> string" where
  "read_body 0 one_nl s = ([], s)"
| "read_body (Suc n) one_nl [] = ([NL], [])"
| "read_body (Suc n) one_nl (c # s) =
     (if c = NL then
        (if one_nl then ([NL], s)
         else let (b, r) = read_body n True s in (NL # b, r))
      else let (b, r) = read_body n (if graph c then False else one_nl) s in (c # b, r))"

definition cfgcread :: "nat \<Rightarrow> cstring \<Rightarrow> sft \<Rightarrow> int \<times> cstring \<times> sft" where
  "cfgcread nbyte buf sf =
     (case read_name [] False (unread sf) of
        None \<Rightarrow> (CFG_EOF, buf, sf\<lparr>unread := []\<rparr>)
      | Some (nm, s) \<Rightarrow>
          (if length nm < nbyte then
             (let (b, s') = read_body (nbyte - length nm) False s in
              if length nm + length b = nbyte
              then (CFG_SZBF, cstr (butlast (nm @ b)), sf\<lparr>unread := s'\<rparr>)
              else (CFG_SUCC, cstr (nm @ b), sf\<lparr>unread := s'\<rparr>))
           else (CFG_SZBF, buf, sf\<lparr>unread := s\<rparr>)))"

subsection \<open>Keywords\<close>

definition cfgckwd :: "cstring \<Rightarrow> cstring fault" where
  "cfgckwd line =
     (let kw = takeWhile (\<lambda>c. graph c \<and> c \<noteq> CHR ''='') (dropWhile (\<lambda>c. \<not> graph c) line)
      in if length kw < MAXKWD then Some kw else None)"

definition cfgcprsln :: "cstring \<Rightarrow> (cstring \<times> cstring) fault" where
  "cfgcprsln line =
     (let l = dropWhile (\<lambda>c. \<not> graph c) line;
          kw = takeWhile (\<lambda>c. graph c \<and> c \<noteq> CHR ''='') l;
          l = dropWhile (\<lambda>c. graph c \<and> c \<noteq> CHR ''='') l;
          v = takeWhile graph (dropWhile (\<lambda>c. \<not> graph c \<or> c = CHR ''='') l)
      in if length kw < MAXKWD \<and> length v < MAXVAL then Some (kw, v) else None)"

lemma strchr_shorter: "strchr s c = Some r \<Longrightarrow> length (tl r) < length s"
  by (auto dest: strchr_Some)

text \<open>The scan of \<open>cfgcskwd\<close> from the start of a line. The value written, if any, is the second
  component. \<open>htx_strchr\<close> returning NULL and being incremented is a fault.\<close>

function skwd_loop :: "cstring \<Rightarrow> cstring \<Rightarrow> (int \<times> cstring option) fault" where
  "skwd_loop kw s =
     (let s1 = dropWhile (\<lambda>c. \<not> graph c \<and> c \<noteq> NL) s;
          s2 = drop (length kw) s1;
          next_line = (\<lambda>t. strchr t NL)
      in if s1 = [] then Some (CFG_MNFD, None)
         else if peek s1 \<noteq> CHR ''*'' \<and> peek s1 \<noteq> NL \<and> strncmp s1 kw (length kw) = 0 then
           (if s2 = [] then Some (CFG_MNFD, None)
            else if peek s2 = CHR ''='' \<or> peek s2 = SP then
              Some (CFG_SUCC, Some (take (MAXVAL - 1)
                (takeWhile graph (dropWhile (\<lambda>c. c = SP \<or> c = CHR ''='') s2))))
            else (case strchr s2 NL of None \<Rightarrow> None | Some r \<Rightarrow> skwd_loop kw (tl r)))
         else (case strchr s1 NL of None \<Rightarrow> None | Some r \<Rightarrow> skwd_loop kw (tl r)))"
  by pat_completeness auto
termination
proof (relation "measure (\<lambda>(kw, s). length s)", goal_cases)
  case (2 kw s s1 s2 next_line r)
  have "length (tl r) < length s2" using 2 by (auto dest: strchr_shorter)
  also have "\<dots> \<le> length s" using 2 by (simp add: length_dropWhile_le le_diff_conv trans_le_add1)
  finally show ?case by simp
next
  case (3 kw s s1 s2 next_line r)
  have "length (tl r) < length s1" using 3 by (auto dest: strchr_shorter)
  also have "\<dots> \<le> length s" using 3 by (simp add: length_dropWhile_le)
  finally show ?case by simp
qed simp

declare skwd_loop.simps [simp del]

definition cfgcskwd :: "cstring \<Rightarrow> cstring \<Rightarrow> (int \<times> cstring option) fault" where
  "cfgcskwd kw buf = (case strchr buf NL of None \<Rightarrow> None | Some r \<Rightarrow> skwd_loop kw (tl r))"

subsection \<open>The default stanza\<close>

definition wrap16 :: "int \<Rightarrow> int" where
  "wrap16 i = (i + 2 ^ 15) mod 2 ^ 16 - 2 ^ 15"

text \<open>The offsets of the lines that are not comments, ended by 0, each stored in a \<open>short\<close>.\<close>

fun defmap_of :: "nat \<Rightarrow> cstring \<Rightarrow> int list" where
  "defmap_of i [] = [0]"
| "defmap_of i (c # s) =
     (if c = NL \<and> peek s \<noteq> CHR ''*'' then wrap16 (int i + 1) # defmap_of (Suc i) s
      else defmap_of (Suc i) s)"

definition cfgcsvdflt :: "cstring \<Rightarrow> sft \<Rightarrow> sft" where
  "cfgcsvdflt buf sf = sf\<lparr>defbuf := Some buf, defmap := defmap_of 0 buf\<rparr>"

text \<open>The loop of \<open>cfgcmrgdflt\<close>: \<open>js\<close> is the rest of \<open>defmap\<close>, \<open>acc\<close> is \<open>buf[0..lng)\<close>. A
  negative index or length is outside the buffers.\<close>

fun merge_loop :: "cstring \<Rightarrow> cstring \<Rightarrow> int list \<Rightarrow> cstring \<Rightarrow> int \<Rightarrow> (int \<times> cstring) fault" where
  "merge_loop db orgbuf [] acc nbyte = None"
| "merge_loop db orgbuf (j # js) acc nbyte =
     (if j = 0 then Some (CFG_SUCC, acc)
      else if j < 0 \<or> int (length db) < j then None
      else do {
        name \<leftarrow> cfgckwd (drop (nat j) db);
        if name = [] then Some (CFG_SUCC, acc)
        else do {
          (rc, _) \<leftarrow> cfgcskwd name orgbuf;
          if rc \<noteq> CFG_SUCC then
            (case js of
               [] \<Rightarrow> None
             | j' # _ \<Rightarrow>
                 (let linlen = j' - j in
                  if nbyte > int (length acc) + linlen then
                    (if linlen < 0 then None
                     else merge_loop db orgbuf js (acc @ take (nat linlen) (drop (nat j) db)) nbyte)
                  else Some (CFG_SZBF, acc)))
          else merge_loop db orgbuf js acc nbyte } })"

definition cfgcmrgdflt :: "cstring \<Rightarrow> sft \<Rightarrow> nat \<Rightarrow> (int \<times> cstring) fault" where
  "cfgcmrgdflt buf sf nbyte =
     (if buf = [] then None
      else case defbuf sf of
          None \<Rightarrow> None
        | Some db \<Rightarrow>
            do { (rc, acc) \<leftarrow> merge_loop db buf (defmap sf) (butlast buf) (int nbyte - 1);
                 Some (rc, acc @ [NL]) })"

lemma cfgcmrgdflt_unread [simp]: "cfgcmrgdflt buf (sf\<lparr>unread := u\<rparr>) nbyte = cfgcmrgdflt buf sf nbyte"
  by (simp add: cfgcmrgdflt_def cong: option.case_cong)

text \<open>Removing the default information: the next line that is not a comment, and the loop over
  the keyword lines. Deleting a line moves the rest of the string down.\<close>

function next_key_line :: "cstring \<Rightarrow> cstring fault" where
  "next_key_line s =
     (case strchr s NL of
        None \<Rightarrow> None
      | Some r \<Rightarrow> (if peek (tl r) = CHR ''*'' then next_key_line (tl r) else Some (tl r)))"
  by pat_completeness auto
termination
  by (relation "measure length") (auto dest: strchr_shorter)

declare next_key_line.simps [simp del]

lemma next_key_line_shorter: "next_key_line s = Some t \<Longrightarrow> length t < length s"
proof (induction s rule: next_key_line.induct)
  case (1 s)
  then obtain r where r: "strchr s NL = Some r" by (auto simp: next_key_line.simps [of s] split: option.splits)
  then have "length (tl r) < length s" by (rule strchr_shorter)
  with 1 r show ?case
    by (fastforce simp: next_key_line.simps [of s] split: if_splits)
qed

function unmrg_loop :: "cstring \<Rightarrow> cstring \<Rightarrow> cstring fault" where
  "unmrg_loop db linptr =
     (if linptr = [] \<or> peek linptr = NL then Some [NL]
      else case next_key_line linptr of
          None \<Rightarrow> None
        | Some nxt \<Rightarrow>
            (case cfgcprsln linptr of
               None \<Rightarrow> None
             | Some (key, val) \<Rightarrow>
                 (case cfgcskwd key db of
                    None \<Rightarrow> None
                  | Some (rc, defval) \<Rightarrow>
                      (if rc = 0 \<and> defval = Some val then unmrg_loop db nxt
                       else map_option (append (take (length linptr - length nxt) linptr))
                              (unmrg_loop db nxt)))))"
  by pat_completeness auto
termination
  by (relation "measure (\<lambda>(db, s). length s)") (auto dest: next_key_line_shorter)

declare unmrg_loop.simps [simp del]

definition cfgcunmrgdft :: "sft \<Rightarrow> cstring \<Rightarrow> cstring fault" where
  "cfgcunmrgdft sf buf =
     (case defbuf sf of
        None \<Rightarrow> Some buf
      | Some db \<Rightarrow>
          (if db = [] then Some buf
           else do { linptr \<leftarrow> next_key_line buf;
                     map_option (append (take (length buf - length linptr) buf)) (unmrg_loop db linptr) }))"

subsection \<open>Searching a stanza\<close>

lemma read_name_shorter:
  "read_name nm f s = Some (n, s') \<Longrightarrow> (f \<longrightarrow> nm \<noteq> []) \<Longrightarrow>
     length s' \<le> length s \<and> (nm = [] \<longrightarrow> length s' < length s) \<and> n \<noteq> []"
proof (induction nm f s rule: read_name.induct)
  case (2 nm f c s)
  consider (sep) "c = SP \<or> c = NL"
    | (star) "\<not> (c = SP \<or> c = NL)" "c = CHR ''*'' \<and> nm = []"
    | (char) "\<not> (c = SP \<or> c = NL)" "\<not> (c = CHR ''*'' \<and> nm = [])" by blast
  then show ?case
  proof cases
    case sep
    show ?thesis
    proof (cases f)
      case True
      with "2.prems" sep show ?thesis by (auto simp only: read_name.simps if_True)
    next
      case False
      have "read_name [] False s = Some (n, s')" using "2.prems"(1) sep False by simp
      from "2.IH"(1) [OF sep False this] show ?thesis by simp
    qed
  next
    case star
    then have nf: "\<not> f" using "2.prems"(2) by blast
    obtain d t where d: "dropWhile (\<lambda>c. c \<noteq> NL) s = d # t"
      using "2.prems"(1) star by (cases "dropWhile (\<lambda>c. c \<noteq> NL) s") auto
    have "read_name [] False t = Some (n, s')" using "2.prems"(1) star d nf by simp
    from "2.IH"(2) [OF star d nf this] show ?thesis using dropWhile_Cons_shorter [OF d] by simp
  next
    case char
    show ?thesis
    proof (cases "length nm < MAXVAL - 2")
      case True
      have "read_name (nm @ [c]) (c = CHR '':'' \<or> f) s = Some (n, s')"
        using "2.prems"(1) char True by (auto split: if_splits)
      from "2.IH"(3) [OF char True this] show ?thesis by simp
    next
      case False
      have "read_name nm False s = Some (n, s')"
        using "2.prems"(1) char False by (auto split: if_splits)
      from "2.IH"(4) [OF char False this] show ?thesis by (auto simp: le_Suc_eq)
    qed
  qed
qed simp

lemma read_body_shorter: "length (snd (read_body n f s)) \<le> length s"
  by (induction n f s rule: read_body.induct) (auto split: prod.splits if_splits)

lemma cfgcread_cases:
  assumes "cfgcread nbyte buf sf = (rc, buf', sf')"
  shows "rc = CFG_EOF \<and> buf' = buf \<and> sf' = sf\<lparr>unread := []\<rparr> \<and> read_name [] False (unread sf) = None \<or>
    (rc = CFG_SUCC \<or> rc = CFG_SZBF) \<and> length (unread sf') < length (unread sf) \<and>
    sfile sf' = sfile sf \<and> defbuf sf' = defbuf sf \<and> defmap sf' = defmap sf"
proof (cases "read_name [] False (unread sf)")
  case None
  then show ?thesis using assms by (simp add: cfgcread_def)
next
  case (Some p)
  obtain nm s where p: "p = (nm, s)" by fastforce
  have "length s < length (unread sf)" using read_name_shorter [OF Some [unfolded p]] by simp
  moreover have "length (snd (read_body n f s)) \<le> length s" for n f by (rule read_body_shorter)
  ultimately show ?thesis using assms Some p
    by (auto simp: cfgcread_def Let_def split: if_splits prod.splits)
      (metis order_le_less_trans snd_conv)+
qed

text \<open>The requested stanza is the one just read.\<close>

definition stanza_matches :: "cstring \<Rightarrow> cstring \<Rightarrow> bool" where
  "stanza_matches stanza buf \<longleftrightarrow>
     strncmp stanza buf (length stanza) = 0 \<and> peek (drop (length stanza) buf) = CHR '':''"

function rdsz_loop ::
  "nat \<Rightarrow> cstring option \<Rightarrow> nat \<Rightarrow> bool \<Rightarrow> cstring \<Rightarrow> sft \<Rightarrow> (int \<times> cstring \<times> sft) fault" where
  "rdsz_loop nbyte stanza startloc rewound buf sf =
     (case cfgcread nbyte buf sf of
        (retc, buf, sf') \<Rightarrow>
          (if retc = CFG_SUCC \<or> retc = CFG_SZBF then
             (if strncmp ''default:'' buf 8 = 0 then
                (let sf' = cfgcsvdflt buf sf' in
                 if (case stanza of None \<Rightarrow> False | Some st \<Rightarrow> stanza_matches st buf)
                 then Some (retc, buf, sf')
                 else rdsz_loop nbyte stanza startloc rewound buf sf')
              else if (case stanza of None \<Rightarrow> True | Some st \<Rightarrow> stanza_matches st buf) then
                (if retc = CFG_SUCC then
                   (case defbuf sf' of
                      None \<Rightarrow> Some (retc, buf, sf')
                    | Some db \<Rightarrow>
                        (if db = [] then Some (retc, buf, sf')
                         else do { (retc, buf) \<leftarrow> cfgcmrgdflt buf sf' nbyte; Some (retc, buf, sf') }))
                 else rdsz_loop nbyte stanza startloc rewound buf sf')
              else if rewound \<and> startloc \<le> ftell sf' then Some (CFG_SZNF, buf, sf')
              else rdsz_loop nbyte stanza startloc rewound buf sf')
           else if retc = CFG_EOF then
             (if stanza = None then Some (retc, buf, sf')
              else if rewound then Some (CFG_SZNF, buf, sf')
              else rdsz_loop nbyte stanza startloc True buf (cfgcrwnd sf'))
           else Some (retc, buf, sf')))"
  by pat_completeness auto
termination
proof (relation "measures [\<lambda>(n, st, l, rew, b, sf). if rew then 0 else 1, \<lambda>(n, st, l, rew, b, sf). length (unread sf)]",
    goal_cases)
qed (auto simp: cfgcsvdflt_def dest!: cfgcread_cases [OF sym])

declare rdsz_loop.simps [simp del]

definition cfgcrdsz :: "nat \<Rightarrow> cstring option \<Rightarrow> sft \<Rightarrow> (int \<times> cstring \<times> sft) fault" where
  "cfgcrdsz nbyte stanza sf = rdsz_loop nbyte stanza (ftell sf) False [] sf"

subsection \<open>Stanzas as text\<close>

text \<open>A stanza written in the usual form: the name, a colon, one line \<open>key = value\<close> per entry
  behind a tab, and an empty line. What stands behind the \<open>=\<close> is the value and, after a blank, anything else up to
  the end of the line, as the comments in the files of the repository.\<close>

type_synonym entries = "(cstring \<times> cstring) list"

definition show_line :: "cstring \<times> cstring \<Rightarrow> string" where
  "show_line e = CHR 0x09 # fst e @ '' = '' @ snd e @ [NL]"

definition show_stanza :: "cstring \<Rightarrow> entries \<Rightarrow> string" where
  "show_stanza name es = name @ '':'' @ NL # concat (map show_line es) @ [NL]"

definition key_ok :: "cstring \<Rightarrow> bool" where
  "key_ok k \<longleftrightarrow> k \<noteq> [] \<and> hd k \<noteq> CHR ''*'' \<and> (\<forall>c \<in> set k. graph c \<and> c \<noteq> CHR ''='') \<and> length k < MAXKWD"

definition val_ok :: "cstring \<Rightarrow> bool" where
  "val_ok v \<longleftrightarrow> v \<noteq> [] \<and> graph (hd v) \<and> hd v \<noteq> CHR ''='' \<and> NL \<notin> set v \<and> NUL \<notin> set v \<and>
     length (takeWhile graph v) < MAXVAL"

text \<open>The values of the keywords.\<close>

definition vmap :: "entries \<Rightarrow> cstring \<Rightarrow> cstring option" where
  "vmap es k = map_option (takeWhile graph) (map_of es k)"

lemma vmap_simps [simp]:
  "vmap [] k = None" "vmap ((k', v) # es) k = (if k = k' then Some (takeWhile graph v) else vmap es k)"
  by (auto simp: vmap_def)

lemma vmap_None: "vmap es k = None \<longleftrightarrow> map_of es k = None"
  by (simp add: vmap_def)

lemma vmap_append: "vmap (xs @ ys) = vmap ys ++ vmap xs"
  by (rule ext) (auto simp: vmap_def map_of_append map_add_def split: option.splits)

definition name_ok :: "cstring \<Rightarrow> bool" where
  "name_ok n \<longleftrightarrow> n \<noteq> [] \<and> hd n \<noteq> CHR ''*'' \<and> (\<forall>c \<in> set n. graph c \<and> c \<noteq> CHR '':'') \<and> length n < MAXVAL - 3"

definition entries_ok :: "entries \<Rightarrow> bool" where
  "entries_ok es \<longleftrightarrow> (\<forall>e \<in> set es. key_ok (fst e) \<and> val_ok (snd e))"

lemma graph_simps [simp]: "\<not> graph NL" "\<not> graph SP" "\<not> graph NUL" "\<not> graph (CHR 0x09)" "graph (CHR ''='')"
  "graph (CHR '':'')" "graph (CHR ''*'')"
  by (simp_all add: graph_def code_def)

lemma graph_not: "graph c \<Longrightarrow> c \<noteq> NL \<and> c \<noteq> SP \<and> c \<noteq> NUL"
  using graph_simps by metis

lemma dropWhile_keep: "s \<noteq> [] \<Longrightarrow> \<not> P (hd s) \<Longrightarrow> dropWhile P (s @ r) = s @ r"
  by (cases s) auto

lemma key_okD:
  assumes "key_ok k"
  shows "dropWhile (\<lambda>c. \<not> graph c) (k @ r) = k @ r" "dropWhile (\<lambda>c. \<not> graph c \<and> c \<noteq> NL) (k @ r) = k @ r"
    "peek (k @ r) \<noteq> CHR ''*''" "peek (k @ r) \<noteq> NL"
proof -
  obtain c k' where "k = c # k'" "graph c" "c \<noteq> CHR ''*''" using assms by (cases k) (auto simp: key_ok_def)
  then show "dropWhile (\<lambda>c. \<not> graph c) (k @ r) = k @ r" "dropWhile (\<lambda>c. \<not> graph c \<and> c \<noteq> NL) (k @ r) = k @ r"
    "peek (k @ r) \<noteq> CHR ''*''" "peek (k @ r) \<noteq> NL" by auto
qed

lemma show_line_not_empty [simp]: "show_line e \<noteq> []" by (simp add: show_line_def)

subsection \<open>Reading a stanza that was written\<close>

lemma read_name_graph:
  assumes "\<forall>c \<in> set xs. graph c" "length nm + length xs \<le> MAXVAL - 2" "nm \<noteq> [] \<or> xs = [] \<or> hd xs \<noteq> CHR ''*''"
    and "d = SP \<or> d = NL"
  shows "read_name nm f (xs @ d # r) =
    (if f \<or> CHR '':'' \<in> set xs then Some (nm @ xs, d # r) else read_name [] False r)"
  using assms
proof (induction xs arbitrary: nm f)
  case (Cons x xs)
  have x: "\<not> (x = SP \<or> x = NL)" using Cons.prems(1) graph_not [of x] by simp
  have st: "\<not> (x = CHR ''*'' \<and> nm = [])" using Cons.prems(3) by auto
  have "read_name nm f ((x # xs) @ d # r) = read_name (nm @ [x]) (x = CHR '':'' \<or> f) (xs @ d # r)"
    using x st Cons.prems(2) by (subst append_Cons, subst read_name.simps) (simp only: if_False if_True length_Cons, simp)
  also have "\<dots> = (if (x = CHR '':'' \<or> f) \<or> CHR '':'' \<in> set xs then Some ((nm @ [x]) @ xs, d # r)
      else read_name [] False r)"
    using Cons.prems by (intro Cons.IH) auto
  finally show ?case by auto
qed auto

lemma read_name_stanza:
  assumes "name_ok n"
  shows "read_name [] False (n @ '':'' @ NL # r) = Some (n @ '':'', NL # r)"
proof -
  have "read_name [] False ((n @ '':'') @ NL # r) = Some ([] @ (n @ '':''), NL # r)"
    using assms by (subst read_name_graph) (auto simp: name_ok_def)
  then show ?thesis by simp
qed

lemma read_body_text:
  assumes "NL \<notin> set xs"
  shows "read_body (length xs + m) f (xs @ s) =
    (let (b, r) = read_body m (f \<and> (\<forall>c \<in> set xs. \<not> graph c)) s in (xs @ b, r))"
  using assms
proof (induction xs arbitrary: f)
  case (Cons x xs)
  then show ?case by (auto split: prod.split)
qed (simp split: prod.split)

lemma show_line_text:
  assumes "key_ok (fst e)" "val_ok (snd e)"
  shows "\<exists>xs. show_line e = xs @ [NL] \<and> NL \<notin> set xs \<and> (\<exists>c \<in> set xs. graph c) \<and> NUL \<notin> set xs"
proof (intro exI conjI)
  let ?xs = "CHR 0x09 # fst e @ '' = '' @ snd e"
  show "show_line e = ?xs @ [NL]" by (simp add: show_line_def)
  have "NL \<notin> set (fst e)" "NL \<notin> set (snd e)" "NUL \<notin> set (fst e)" "NUL \<notin> set (snd e)"
    using assms graph_not by (auto simp: key_ok_def val_ok_def)
  then show "NL \<notin> set ?xs" "NUL \<notin> set ?xs" by simp_all
  show "\<exists>c \<in> set ?xs. graph c" by simp
qed

lemma read_body_lines:
  assumes "entries_ok es" "length (concat (map show_line es)) < n"
  shows "read_body n True (concat (map show_line es) @ NL # r) = (concat (map show_line es) @ [NL], r)"
  using assms
proof (induction es arbitrary: n)
  case Nil
  then show ?case by (cases n) auto
next
  case (Cons e es)
  obtain xs where xs: "show_line e = xs @ [NL]" "NL \<notin> set xs" "\<exists>c \<in> set xs. graph c"
    using show_line_text [of e] Cons.prems(1) by (auto simp: entries_ok_def)
  obtain m where n: "n = length xs + Suc m"
    using Cons.prems(2) xs(1) by (auto simp: less_iff_Suc_add)
  have IH: "read_body m True (concat (map show_line es) @ NL # r) = (concat (map show_line es) @ [NL], r)"
    using Cons.prems xs n by (intro Cons.IH) (auto simp: entries_ok_def)
  show ?case
    unfolding n using read_body_text [OF xs(2), of "Suc m" True] xs(1,3) IH by simp
qed

lemma show_stanza_no_NUL:
  assumes "name_ok n" "entries_ok es"
  shows "NUL \<notin> set (show_stanza n es)"
proof -
  have "NUL \<notin> set (show_line e)" if "e \<in> set es" for e
    using show_line_text [of e] assms(2) that by (auto simp: entries_ok_def)
  moreover have "NUL \<notin> set n" using assms(1) graph_not by (auto simp: name_ok_def)
  ultimately show ?thesis by (auto simp: show_stanza_def)
qed

lemma cfgcread_stanza:
  assumes "name_ok n" "entries_ok es" "length (show_stanza n es) < nbyte" "unread sf = show_stanza n es @ r"
  shows "cfgcread nbyte buf sf = (CFG_SUCC, show_stanza n es, sf\<lparr>unread := r\<rparr>)"
proof -
  let ?b = "concat (map show_line es) @ [NL]"
  let ?n = "nbyte - length (n @ '':'')"
  have rn: "read_name [] False (unread sf) = Some (n @ '':'', NL # ?b @ r)"
    using read_name_stanza [OF assms(1), of "?b @ r"] assms(4) by (simp add: show_stanza_def)
  have len: "length ?b + 1 < ?n" using assms(3) by (simp add: show_stanza_def)
  then have n: "?n = Suc (?n - 1)" by simp
  have "read_body (?n - 1) True (concat (map show_line es) @ NL # r) = (concat (map show_line es) @ [NL], r)"
    using assms(2) len by (intro read_body_lines) auto
  then have "read_body (Suc (?n - 1)) False (NL # ?b @ r) = (NL # ?b, r)" by simp
  then have rb: "read_body ?n False (NL # ?b @ r) = (NL # ?b, r)" unfolding n [symmetric] .
  have st: "(n @ '':'') @ NL # ?b = show_stanza n es" by (simp add: show_stanza_def)
  have "length (n @ '':'') < nbyte" using len by simp
  moreover have "length (n @ '':'') + length (NL # ?b) \<noteq> nbyte" using assms(3) by (simp add: show_stanza_def)
  moreover have "cstr (show_stanza n es) = show_stanza n es"
    using show_stanza_no_NUL [OF assms(1,2)] by simp
  ultimately show ?thesis
    unfolding cfgcread_def rn option.case prod.case Let_def rb st by simp
qed

subsection \<open>Looking up a keyword\<close>

lemma strchr_line:
  assumes "NL \<notin> set xs"
  shows "strchr (xs @ NL # r) NL = Some (NL # r)"
  using assms by (rule strchr_append)

lemma skwd_skip:
  assumes "dropWhile (\<lambda>c. \<not> graph c \<and> c \<noteq> NL) s = s1" "s1 \<noteq> []" "take (length k) s1 \<noteq> k"
    and "strchr s1 NL = Some (NL # r)"
  shows "skwd_loop k s = skwd_loop k r"
  using assms by (subst skwd_loop.simps) (auto simp: strncmp_eq_0 Let_def)

lemma skwd_prefix:
  assumes "dropWhile (\<lambda>c. \<not> graph c \<and> c \<noteq> NL) s = s1" "take (length k) s1 = k"
    and "peek s1 \<noteq> CHR ''*''" "peek s1 \<noteq> NL" "drop (length k) s1 = d # s2" "d \<noteq> CHR ''=''" "d \<noteq> SP"
    and "strchr (d # s2) NL = Some (NL # r)"
  shows "skwd_loop k s = skwd_loop k r"
  using assms by (subst skwd_loop.simps) (auto simp: strncmp_eq_0 Let_def)

lemma skwd_next_line:
  assumes "key_ok k'" "val_ok v'" "k \<noteq> k'" "key_ok k"
  shows "skwd_loop k (show_line (k', v') @ r) = skwd_loop k r"
proof -
  let ?t = "'' = '' @ v' @ [NL]"
  let ?s1 = "k' @ ?t @ r"
  have nl: "NL \<notin> set k'" "NL \<notin> set v'" using assms(1,2) graph_not by (auto simp: key_ok_def val_ok_def)
  have s1: "dropWhile (\<lambda>c. \<not> graph c \<and> c \<noteq> NL) (show_line (k', v') @ r) = ?s1"
    using key_okD(2) [OF assms(1), of "?t @ r"] by (simp add: show_line_def)
  have ne: "?s1 \<noteq> []" using assms(1) by (simp add: key_ok_def)
  have nx: "strchr ?s1 NL = Some (NL # r)" using strchr_line [of "k' @ '' = '' @ v'" r] nl by simp
  show ?thesis
  proof (cases "take (length k) ?s1 = k")
    case False
    from skwd_skip [OF s1 ne this nx] show ?thesis .
  next
    case True
    have sp: "SP \<notin> set k" using assms(4) graph_not by (auto simp: key_ok_def)
    have "length k < length k'"
    proof (rule ccontr)
      assume "\<not> length k < length k'"
      then have k: "k = k' @ take (length k - length k') (?t @ r)" using True by simp
      have "length k \<noteq> length k'" using True assms(3) by auto
      then obtain m where "length k - length k' = Suc m"
        using \<open>\<not> length k < length k'\<close> by (cases "length k - length k'") auto
      then have "take (length k - length k') (?t @ r) = SP # take m (tl ?t @ r)" by simp
      then have "SP \<in> set (k' @ take (length k - length k') (?t @ r))" by simp
      then have "SP \<in> set k" by (simp only: k [symmetric])
      then show False using sp by blast
    qed
    then obtain d k2 where k2: "drop (length k) k' = d # k2" by (cases "drop (length k) k'") auto
    have k: "take (length k) k' = k" using True \<open>length k < length k'\<close> by simp
    have "k' = k @ d # k2" using k k2 by (metis append_take_drop_id)
    then have d: "graph d" "d \<noteq> CHR ''=''" "NL \<notin> set (d # k2)" using assms(1) nl by (auto simp: key_ok_def)
    have s2: "drop (length k) ?s1 = d # k2 @ ?t @ r" using k2 \<open>length k < length k'\<close> by simp
    have "strchr (d # k2 @ ?t @ r) NL = Some (NL # r)"
      using strchr_line [of "(d # k2) @ '' = '' @ v'" r] nl d(3) by simp
    from skwd_prefix [OF s1 True key_okD(3,4) [OF assms(1)] s2 d(2) _ this] show ?thesis
      using graph_not [OF d(1)] by blast
  qed
qed

lemma takeWhile_graph_line: "takeWhile graph (v @ NL # r) = takeWhile graph v"
  by (induction v) auto

lemma skwd_hit:
  assumes "key_ok k" "val_ok v"
  shows "skwd_loop k (show_line (k, v) @ r) = Some (CFG_SUCC, Some (takeWhile graph v))"
proof -
  let ?s1 = "k @ '' = '' @ v @ NL # r"
  have s1: "dropWhile (\<lambda>c. \<not> graph c \<and> c \<noteq> NL) (show_line (k, v) @ r) = ?s1"
    using key_okD(2) [OF assms(1), of "'' = '' @ v @ NL # r"] by (simp add: show_line_def)
  have ne: "?s1 \<noteq> []" by simp
  obtain c v' where v: "v = c # v'" "graph c" "c \<noteq> CHR ''=''" using assms(2) by (cases v) (auto simp: val_ok_def)
  have dv: "dropWhile (\<lambda>c. c = SP \<or> c = CHR ''='') ('' = '' @ v @ NL # r) = v @ NL # r"
    using v graph_not [of c] by simp
  have tv: "takeWhile graph (v @ NL # r) = takeWhile graph v" by (rule takeWhile_graph_line)
  have tk: "take (MAXVAL - 1) (takeWhile graph v) = takeWhile graph v" using assms(2) by (simp add: val_ok_def)
  show ?thesis
    by (subst skwd_loop.simps)
      (use key_okD(3,4) [OF assms(1), of "'' = '' @ v @ NL # r"] dv tv tk in
        \<open>simp add: s1 strncmp_eq_0 Let_def\<close>)
qed

lemma skwd_loop_lines:
  assumes "key_ok k" "entries_ok es"
  shows "skwd_loop k (concat (map show_line es) @ [NL]) =
    Some (case vmap es k of Some v \<Rightarrow> (CFG_SUCC, Some v) | None \<Rightarrow> (CFG_MNFD, None))"
  using assms(2)
proof (induction es)
  case Nil
  have e: "skwd_loop k [] = Some (CFG_MNFD, None)" by (subst skwd_loop.simps) (simp add: Let_def)
  have "strchr [NL] NL = Some [NL]" by (simp add: strchr_def)
  then show ?case using e by (subst skwd_loop.simps) (simp add: Let_def)
next
  case (Cons e es)
  obtain k' v' where e: "e = (k', v')" by fastforce
  have ok: "key_ok k'" "val_ok v'" "entries_ok es" using Cons.prems e by (auto simp: entries_ok_def)
  let ?r = "concat (map show_line es) @ [NL]"
  show ?case
  proof (cases "k = k'")
    case True
    then show ?thesis using skwd_hit [OF ok(1,2), of ?r] e by simp
  next
    case False
    then show ?thesis using skwd_next_line [OF ok(1,2) False assms(1), of ?r] Cons.IH ok(3) e by simp
  qed
qed

lemma cfgcskwd_show_stanza:
  assumes "key_ok k" "entries_ok es" "name_ok n"
  shows "cfgcskwd k (show_stanza n es) =
    Some (case vmap es k of Some v \<Rightarrow> (CFG_SUCC, Some v) | None \<Rightarrow> (CFG_MNFD, None))"
proof -
  have "NL \<notin> set (n @ '':'')" using assms(3) graph_not by (auto simp: name_ok_def)
  then have "strchr ((n @ '':'') @ NL # concat (map show_line es) @ [NL]) NL = Some (NL # concat (map show_line es) @ [NL])"
    by (rule strchr_line)
  then show ?thesis using skwd_loop_lines [OF assms(1,2)] by (simp add: cfgcskwd_def show_stanza_def)
qed

subsection \<open>Merging the default stanza\<close>

text \<open>The offsets of the lines of a written stanza, its empty last line, and its end.\<close>

fun line_offs :: "nat \<Rightarrow> entries \<Rightarrow> int list" where
  "line_offs i [] = [int i, int i + 1, 0]"
| "line_offs i (e # es) = int i # line_offs (i + length (show_line e)) es"

lemma wrap16_id: "0 \<le> i \<Longrightarrow> i < 2 ^ 15 \<Longrightarrow> wrap16 i = i"
  by (simp add: wrap16_def)

lemma defmap_of_text: "NL \<notin> set xs \<Longrightarrow> defmap_of i (xs @ s) = defmap_of (i + length xs) s"
  by (induction xs arbitrary: i) auto

lemma defmap_of_lines:
  assumes "entries_ok es" "i + length (concat (map show_line es)) + 2 < 2 ^ 15"
  shows "defmap_of i (NL # concat (map show_line es) @ [NL]) = line_offs (Suc i) es"
  using assms
proof (induction es arbitrary: i)
  case Nil
  then show ?case by (simp add: wrap16_id)
next
  case (Cons e es)
  obtain xs where xs: "show_line e = xs @ [NL]" "NL \<notin> set xs"
    using show_line_text [of e] Cons.prems(1) by (auto simp: entries_ok_def)
  have pk: "peek (show_line e @ t) \<noteq> CHR ''*''" for t by (simp add: show_line_def)
  let ?r = "concat (map show_line es) @ [NL]"
  have IH: "defmap_of (i + length (show_line e)) (NL # ?r) = line_offs (Suc (i + length (show_line e))) es"
    using Cons.prems by (intro Cons.IH) (auto simp: entries_ok_def)
  have "defmap_of i (NL # show_line e @ ?r) = (int i + 1) # defmap_of (Suc i) (xs @ NL # ?r)"
    using pk [of ?r] Cons.prems(2) xs(1) by (simp add: wrap16_id)
  also have "defmap_of (Suc i) (xs @ NL # ?r) = defmap_of (i + length (show_line e)) (NL # ?r)"
    using defmap_of_text [OF xs(2)] xs(1) by simp
  finally show ?case using IH by simp
qed

definition missing :: "entries \<Rightarrow> entries \<Rightarrow> entries" where
  "missing es ds = filter (\<lambda>e. map_of es (fst e) = None) ds"

lemma cfgckwd_line: "key_ok k \<Longrightarrow> cfgckwd (show_line (k, v) @ r) = Some k"
proof -
  assume a: "key_ok k"
  have "takeWhile (\<lambda>c. graph c \<and> c \<noteq> CHR ''='') (k @ SP # t) = k" for t
    using a by (intro takeWhile_stop) (auto simp: key_ok_def)
  then show ?thesis
    using a key_okD(1) [OF a] by (simp add: cfgckwd_def show_line_def key_ok_def Let_def)
qed

lemma cfgckwd_blank: "cfgckwd [NL] = Some []"
  by (simp add: cfgckwd_def)

lemma hd_line_offs: "\<exists>js. line_offs i es = int i # js"
  by (cases es) auto

lemma merge_loop_lines:
  assumes "entries_ok ds" "entries_ok es" "name_ok n"
    and "drop i db = concat (map show_line ds) @ [NL]" "0 < i" "i < length db"
    and "int (length acc) + int (length (concat (map show_line (missing es ds)))) < nbyte"
  shows "merge_loop db (show_stanza n es) (line_offs i ds) acc nbyte =
    Some (CFG_SUCC, acc @ concat (map show_line (missing es ds)))"
  using assms
proof (induction ds arbitrary: i acc)
  case Nil
  then show ?case by (simp add: cfgckwd_blank missing_def)
next
  case (Cons d ds)
  obtain k v where d: "d = (k, v)" by fastforce
  have ok: "key_ok k" "val_ok v" "entries_ok ds" using Cons.prems(1) d by (auto simp: entries_ok_def)
  let ?l = "show_line d"
  let ?i = "i + length ?l"
  have drop: "drop ?i db = concat (map show_line ds) @ [NL]"
    using Cons.prems(4) by (simp add: add.commute [of i] flip: drop_drop)
  have i: "0 < ?i" "?i < length db"
  proof -
    have "length (drop i db) = length ?l + length (concat (map show_line ds)) + 1"
      using Cons.prems(4) by simp
    then show "?i < length db" by simp
  qed (use Cons.prems(5) in simp)
  have kw: "cfgckwd (drop i db) = Some k" using Cons.prems(4) d cfgckwd_line [OF ok(1)] by simp
  have kne: "k \<noteq> []" using ok(1) by (simp add: key_ok_def)
  obtain js where js: "line_offs ?i ds = int ?i # js" using hd_line_offs by blast
  have tl: "take (length ?l) (drop i db) = ?l" using Cons.prems(4) by simp
  note sk = cfgcskwd_show_stanza [OF ok(1) Cons.prems(2,3)]
  show ?case
  proof (cases "map_of es k")
    case None
    then have ms: "missing es (d # ds) = d # missing es ds" using d by (simp add: missing_def)
    have "merge_loop db (show_stanza n es) (line_offs ?i ds) (acc @ ?l) nbyte =
        Some (CFG_SUCC, (acc @ ?l) @ concat (map show_line (missing es ds)))"
      using Cons.prems ok(3) drop i ms by (intro Cons.IH) auto
    then show ?thesis using Cons.prems(5-7) kw kne sk None js tl ms by (simp add: vmap_def)
  next
    case (Some w)
    then have ms: "missing es (d # ds) = missing es ds" using d by (simp add: missing_def)
    have "merge_loop db (show_stanza n es) (line_offs ?i ds) acc nbyte =
        Some (CFG_SUCC, acc @ concat (map show_line (missing es ds)))"
      using Cons.prems ok(3) drop i ms by (intro Cons.IH) auto
    then show ?thesis using Cons.prems(5,6) kw kne sk Some ms by (simp add: vmap_def)
  qed
qed

lemma cfgcmrgdflt_stanza:
  assumes "entries_ok ds" "entries_ok es" "name_ok n" "name_ok dn"
    and "length (show_stanza dn ds) < 2 ^ 15" "length (show_stanza n (es @ missing es ds)) < nbyte"
  shows "cfgcmrgdflt (show_stanza n es) (cfgcsvdflt (show_stanza dn ds) sf) nbyte =
    Some (CFG_SUCC, show_stanza n (es @ missing es ds))"
proof -
  let ?db = "show_stanza dn ds"
  let ?i = "length dn + 2"
  have nl: "NL \<notin> set (dn @ '':'')" using assms(4) graph_not by (auto simp: name_ok_def)
  have dm: "defmap_of 0 ?db = line_offs ?i ds"
    using defmap_of_text [OF nl, of 0] defmap_of_lines [OF assms(1), of "length (dn @ '':'')"] assms(5)
    by (simp add: show_stanza_def)
  have dr: "drop ?i ?db = concat (map show_line ds) @ [NL]" by (simp add: show_stanza_def)
  have bl: "butlast (show_stanza n es) = n @ '':'' @ NL # concat (map show_line es)"
    unfolding show_stanza_def by (simp add: butlast_append)
  have "merge_loop ?db (show_stanza n es) (line_offs ?i ds) (butlast (show_stanza n es)) (int nbyte - 1) =
      Some (CFG_SUCC, butlast (show_stanza n es) @ concat (map show_line (missing es ds)))"
    by (rule merge_loop_lines [OF assms(1,2,3) dr])
      (use assms(6) in \<open>auto simp: show_stanza_def butlast_append\<close>)
  then show ?thesis
    using bl by (simp add: cfgcmrgdflt_def cfgcsvdflt_def dm) (simp add: show_stanza_def)
qed

subsection \<open>Removing the default information\<close>

lemma next_key_line_line:
  assumes "key_ok k" "val_ok v" "peek r \<noteq> CHR ''*''"
  shows "next_key_line (show_line (k, v) @ r) = Some r"
proof -
  obtain xs where "show_line (k, v) = xs @ [NL]" "NL \<notin> set xs" using show_line_text [of "(k, v)"] assms by auto
  then have "strchr (show_line (k, v) @ r) NL = Some (NL # r)" using strchr_line by simp
  then show ?thesis using assms(3) by (simp add: next_key_line.simps)
qed

lemma cfgcprsln_line:
  assumes "key_ok k" "val_ok v"
  shows "cfgcprsln (show_line (k, v) @ r) = Some (k, takeWhile graph v)"
proof -
  let ?t = "'' = '' @ v @ NL # r"
  let ?kw = "\<lambda>c. graph c \<and> c \<noteq> CHR ''=''"
  have l: "dropWhile (\<lambda>c. \<not> graph c) (show_line (k, v) @ r) = k @ ?t"
    using key_okD(1) [OF assms(1)] by (simp add: show_line_def)
  have k: "takeWhile ?kw (k @ ?t) = k" "dropWhile ?kw (k @ ?t) = ?t"
    using assms(1) by (auto simp: key_ok_def takeWhile_append2 dropWhile_append2)
  obtain c v' where v: "v = c # v'" "graph c" "c \<noteq> CHR ''=''" using assms(2) by (cases v) (auto simp: val_ok_def)
  have dv: "dropWhile (\<lambda>c. \<not> graph c \<or> c = CHR ''='') ?t = v @ NL # r" using v by simp
  have tv: "takeWhile graph (v @ NL # r) = takeWhile graph v" by (rule takeWhile_graph_line)
  show ?thesis unfolding cfgcprsln_def Let_def l k dv tv using assms by (simp add: key_ok_def val_ok_def)
qed

definition changed :: "entries \<Rightarrow> entries \<Rightarrow> entries" where
  "changed ds es = filter (\<lambda>e. vmap ds (fst e) \<noteq> Some (takeWhile graph (snd e))) es"

lemma unmrg_loop_lines:
  assumes "entries_ok es" "entries_ok ds" "name_ok dn"
  shows "unmrg_loop (show_stanza dn ds) (concat (map show_line es) @ [NL]) =
    Some (concat (map show_line (changed ds es)) @ [NL])"
  using assms(1)
proof (induction es)
  case Nil
  then show ?case by (simp add: unmrg_loop.simps changed_def)
next
  case (Cons e es)
  obtain k v where e: "e = (k, v)" by fastforce
  have ok: "key_ok k" "val_ok v" "entries_ok es" using Cons.prems e by (auto simp: entries_ok_def)
  let ?r = "concat (map show_line es) @ [NL]"
  have pk: "peek ?r \<noteq> CHR ''*''" by (cases es) (simp_all add: show_line_def)
  have c1: "\<not> (show_line e @ ?r = [] \<or> peek (show_line e @ ?r) = NL)" by (simp add: show_line_def)
  have nx: "next_key_line (show_line e @ ?r) = Some ?r" using next_key_line_line [OF ok(1,2) pk] e by simp
  have pl: "cfgcprsln (show_line e @ ?r) = Some (k, takeWhile graph v)" using cfgcprsln_line [OF ok(1,2)] e by simp
  have IH: "unmrg_loop (show_stanza dn ds) ?r = Some (concat (map show_line (changed ds es)) @ [NL])"
    using Cons.IH ok(3) by blast
  have "unmrg_loop (show_stanza dn ds) (show_line e @ ?r) =
    (if vmap ds k = Some (takeWhile graph v) then unmrg_loop (show_stanza dn ds) ?r
     else map_option (append (take (length (show_line e @ ?r) - length ?r) (show_line e @ ?r)))
       (unmrg_loop (show_stanza dn ds) ?r))"
    unfolding unmrg_loop.simps [of _ "show_line e @ ?r"] if_not_P [OF c1] nx pl option.case prod.case
      cfgcskwd_show_stanza [OF ok(1) assms(2,3)]
    by (cases "vmap ds k") auto
  then show ?case using IH e by (simp add: changed_def)
qed

lemma cfgcunmrgdft_stanza:
  assumes "entries_ok es" "entries_ok ds" "name_ok dn" "name_ok n"
  shows "cfgcunmrgdft (cfgcsvdflt (show_stanza dn ds) sf) (show_stanza n es) = Some (show_stanza n (changed ds es))"
proof -
  let ?r = "concat (map show_line es) @ [NL]"
  have nl: "NL \<notin> set (n @ '':'')" using assms(4) graph_not by (auto simp: name_ok_def)
  have pk: "peek ?r \<noteq> CHR ''*''" by (cases es) (simp_all add: show_line_def)
  have st: "show_stanza n es = (n @ '':'') @ NL # ?r" by (simp add: show_stanza_def)
  have nx: "next_key_line (show_stanza n es) = Some ?r"
    unfolding st using strchr_line [OF nl, of ?r] pk by (simp add: next_key_line.simps)
  have "show_stanza dn ds \<noteq> []" by (simp add: show_stanza_def)
  then show ?thesis
    using unmrg_loop_lines [OF assms(1,2,3)] nx
    by (simp add: cfgcunmrgdft_def cfgcsvdflt_def) (simp add: show_stanza_def)
qed

subsection \<open>Searching by name\<close>

definition texts :: "(cstring \<times> entries) list \<Rightarrow> string" where
  "texts sts = concat (map (\<lambda>st. show_stanza (fst st) (snd st)) sts)"

definition sts_ok :: "nat \<Rightarrow> (cstring \<times> entries) list \<Rightarrow> bool" where
  "sts_ok nbyte sts \<longleftrightarrow> (\<forall>st \<in> set sts. name_ok (fst st) \<and> fst st \<noteq> ''default'' \<and> entries_ok (snd st) \<and>
     length (show_stanza (fst st) (snd st)) < nbyte)"

lemma stanza_matches_show:
  assumes "name_ok m" "CHR '':'' \<notin> set n"
  shows "stanza_matches n (show_stanza m es) \<longleftrightarrow> n = m"
proof
  assume "stanza_matches n (show_stanza m es)"
  then have t: "take (length n) (show_stanza m es) = n" and p: "peek (drop (length n) (show_stanza m es)) = CHR '':''"
    by (auto simp: stanza_matches_def strncmp_eq_0)
  have m: "CHR '':'' \<notin> set m" using assms(1) by (auto simp: name_ok_def)
  let ?r = "CHR '':'' # NL # concat (map show_line es) @ [NL]"
  have s: "show_stanza m es = m @ ?r" by (simp add: show_stanza_def)
  consider "length n < length m" | "length n = length m" | "length m < length n" by linarith
  then show "n = m"
  proof cases
    case 1
    then have "peek (drop (length n) (show_stanza m es)) = m ! length n" by (simp add: s peek_def Cons_nth_drop_Suc [symmetric])
    with 1 m p show ?thesis by (metis nth_mem)
  next
    case 2
    then show ?thesis using t s by simp
  next
    case 3
    then obtain j where "length n = length m + Suc j" by (auto simp: less_iff_Suc_add)
    then have "CHR '':'' \<in> set (take (length n) (show_stanza m es))" by (simp add: s)
    then show ?thesis using t assms(2) by simp
  qed
qed (simp add: stanza_matches_def strncmp_eq_0 show_stanza_def)

lemma take_snoc_iff:
  assumes "c \<noteq> NUL"
  shows "take (Suc (length p)) buf = p @ [c] \<longleftrightarrow> take (length p) buf = p \<and> peek (drop (length p) buf) = c"
proof (induction p arbitrary: buf)
  case Nil
  then show ?case using assms by (cases buf) auto
next
  case (Cons x p)
  then show ?case by (cases buf) auto
qed

lemma default_name: "strncmp ''default:'' buf 8 = 0 \<longleftrightarrow> stanza_matches ''default'' buf"
proof -
  have "take (Suc (length ''default'')) buf = ''default'' @ [CHR '':''] \<longleftrightarrow> stanza_matches ''default'' buf"
    by (subst take_snoc_iff) (auto simp: stanza_matches_def strncmp_eq_0)
  moreover have "strncmp ''default:'' buf 8 = 0 \<longleftrightarrow> take (Suc (length ''default'')) buf = ''default'' @ [CHR '':'']"
    using strncmp_eq_0 [of "''default:''" buf 8] by (auto simp: eval_nat_numeral)
  ultimately show ?thesis by blast
qed

lemma rdsz_read:
  assumes "name_ok m" "entries_ok es" "length (show_stanza m es) < nbyte" "m \<noteq> ''default''"
    and "unread sf = show_stanza m es @ r" "defbuf sf = None" "CHR '':'' \<notin> set n"
  shows "rdsz_loop nbyte (Some n) startloc rewound buf sf =
    (if n = m then Some (CFG_SUCC, show_stanza m es, sf\<lparr>unread := r\<rparr>)
     else if rewound \<and> startloc \<le> ftell (sf\<lparr>unread := r\<rparr>)
     then Some (CFG_SZNF, show_stanza m es, sf\<lparr>unread := r\<rparr>)
     else rdsz_loop nbyte (Some n) startloc rewound (show_stanza m es) (sf\<lparr>unread := r\<rparr>))"
proof -
  have nd: "\<not> strncmp ''default:'' (show_stanza m es) 8 = 0"
    using stanza_matches_show [OF assms(1), of "''default''" es] assms(4) unfolding default_name by simp
  show ?thesis
    by (subst rdsz_loop.simps)
      (use nd cfgcread_stanza [OF assms(1,2,3,5)] stanza_matches_show [OF assms(1,7)] assms(6) in simp)
qed

text \<open>Passing over stanzas with other names, before and after the wrap to the start of the file.\<close>

lemma ftell_sub: "length r \<le> length (sfile sf) \<Longrightarrow> ftell (sf\<lparr>unread := r\<rparr>) = length (sfile sf) - length r"
  by (simp add: ftell_def)

lemma texts_Cons: "texts ((m, es) # sts) = show_stanza m es @ texts sts"
  by (simp add: texts_def)

lemma texts_append: "texts (xs @ ys) = texts xs @ texts ys"
  by (simp add: texts_def)

lemma texts_nonempty: "sts \<noteq> [] \<Longrightarrow> 0 < length (texts sts)"
  by (cases sts) (auto simp: texts_def show_stanza_def)

lemma rdsz_skip:
  assumes "sts_ok nbyte sts" "n \<notin> fst ` set sts" "CHR '':'' \<notin> set n" "unread sf = texts sts @ r" "defbuf sf = None"
    and "length (unread sf) \<le> length (sfile sf)"
    and "\<not> rewound \<or> sts = [] \<or> length (sfile sf) - length r < startloc"
  shows "\<exists>buf'. rdsz_loop nbyte (Some n) startloc rewound buf sf =
    rdsz_loop nbyte (Some n) startloc rewound buf' (sf\<lparr>unread := r\<rparr>)"
  using assms
proof (induction sts arbitrary: buf sf)
  case Nil
  have "sf\<lparr>unread := r\<rparr> = sf" using Nil.prems(4) by (simp add: texts_def)
  then show ?case by auto
next
  case (Cons st sts)
  obtain m es where st: "st = (m, es)" by fastforce
  let ?sf = "sf\<lparr>unread := texts sts @ r\<rparr>"
  have ok: "name_ok m" "entries_ok es" "length (show_stanza m es) < nbyte" "m \<noteq> ''default''" "sts_ok nbyte sts"
    using Cons.prems(1) st by (auto simp: sts_ok_def)
  have un: "unread sf = show_stanza m es @ texts sts @ r" using Cons.prems(4) st by (simp add: texts_Cons)
  have le: "length (texts sts @ r) \<le> length (sfile sf)" using Cons.prems(6) un by simp
  have ft: "\<not> (rewound \<and> startloc \<le> ftell ?sf)"
    using Cons.prems(7) le by (simp add: ftell_sub) linarith
  have "rdsz_loop nbyte (Some n) startloc rewound buf sf =
      rdsz_loop nbyte (Some n) startloc rewound (show_stanza m es) ?sf"
    using rdsz_read [OF ok(1-4) un Cons.prems(5,3)] ft Cons.prems(2) st by auto
  moreover have "\<exists>buf'. rdsz_loop nbyte (Some n) startloc rewound (show_stanza m es) ?sf =
      rdsz_loop nbyte (Some n) startloc rewound buf' (?sf\<lparr>unread := r\<rparr>)"
    using ok(5) Cons.prems le by (intro Cons.IH) auto
  ultimately show ?case by auto
qed

lemma rdsz_found:
  assumes "sts_ok nbyte (pre @ (n, es) # post)" "n \<notin> fst ` set pre" "unread sf = texts (pre @ (n, es) # post) @ r"
    and "defbuf sf = None" "length (unread sf) \<le> length (sfile sf)"
    and "\<not> rewound \<or> pre = [] \<or> length (sfile sf) - length (texts ((n, es) # post) @ r) < startloc"
  shows "rdsz_loop nbyte (Some n) startloc rewound buf sf =
    Some (CFG_SUCC, show_stanza n es, sf\<lparr>unread := texts post @ r\<rparr>)"
proof -
  let ?t = "texts ((n, es) # post) @ r"
  have ok: "sts_ok nbyte pre" "name_ok n" "entries_ok es" "length (show_stanza n es) < nbyte" "n \<noteq> ''default''"
    using assms(1) by (auto simp: sts_ok_def)
  have nc: "CHR '':'' \<notin> set n" using ok(2) by (auto simp: name_ok_def)
  have "unread sf = texts pre @ ?t" using assms(3) by (simp add: texts_append)
  from rdsz_skip [OF ok(1) assms(2) nc this assms(4,5,6)] obtain buf' where
    "rdsz_loop nbyte (Some n) startloc rewound buf sf =
       rdsz_loop nbyte (Some n) startloc rewound buf' (sf\<lparr>unread := ?t\<rparr>)" by blast
  also have "\<dots> = Some (CFG_SUCC, show_stanza n es, sf\<lparr>unread := texts post @ r\<rparr>)"
    using rdsz_read [OF ok(2-5) _ _ nc, of "sf\<lparr>unread := ?t\<rparr>" "texts post @ r"] assms(4)
    by (simp add: texts_Cons)
  finally show ?thesis .
qed

lemma cfgcread_eof: "unread sf = [] \<Longrightarrow> cfgcread nbyte buf sf = (CFG_EOF, buf, sf)"
  by (simp add: cfgcread_def)

lemma rdsz_eof:
  assumes "unread sf = []"
  shows "rdsz_loop nbyte (Some n) startloc rewound buf sf =
    (if rewound then Some (CFG_SZNF, buf, sf) else rdsz_loop nbyte (Some n) startloc True buf (cfgcrwnd sf))"
  unfolding rdsz_loop.simps [of nbyte "Some n" startloc rewound buf sf] cfgcread_eof [OF assms] by simp

lemma map_of_split:
  assumes "map_of sts n = Some es"
  shows "\<exists>pre post. sts = pre @ (n, es) # post \<and> n \<notin> fst ` set pre"
  using assms
proof (induction sts)
  case (Cons st sts)
  obtain m fs where st: "st = (m, fs)" by fastforce
  show ?case
  proof (cases "m = n")
    case True
    then have "st # sts = [] @ (n, es) # sts" using Cons.prems st by simp
    then show ?thesis by fastforce
  next
    case False
    then obtain pre post where "sts = pre @ (n, es) # post" "n \<notin> fst ` set pre"
      using Cons.IH Cons.prems st by auto
    then have "st # sts = (st # pre) @ (n, es) # post" "n \<notin> fst ` set (st # pre)" using False st by auto
    then show ?thesis by blast
  qed
qed simp

lemma rdsz_absent:
  assumes "sts_ok nbyte (pre @ post)" "n \<notin> fst ` set (pre @ post)" "CHR '':'' \<notin> set n" "defbuf sf = None"
    and "sfile sf = texts (pre @ post)" "unread sf = sfile sf" "startloc = length (texts pre)"
  shows "\<exists>buf' u. rdsz_loop nbyte (Some n) startloc True buf sf = Some (CFG_SZNF, buf', sf\<lparr>unread := u\<rparr>)"
proof (cases "pre @ post = []")
  case True
  then have "unread sf = []" using assms(5,6) by (simp add: texts_def)
  then show ?thesis using rdsz_eof [of sf nbyte n startloc True buf] by (metis sft.surjective sft.update_convs(2))
next
  case False
  define k where "k = (if pre = [] then [] else butlast pre)"
  obtain m es sts where st: "pre @ post = k @ (m, es) # sts" and fin: "startloc \<le> length (texts (k @ [(m, es)]))"
    and beg: "k = [] \<or> length (texts k) < startloc"
  proof (cases "pre = []")
    case True
    with False obtain m es sts where "post = (m, es) # sts" by (cases post) auto
    with True that [of m es sts] assms(7) show thesis by (simp add: k_def texts_def)
  next
    case np: False
    then obtain m es where l: "last pre = (m, es)" by fastforce
    have p: "pre = k @ [(m, es)]" using np l k_def by (metis append_butlast_last_id)
    have "length (texts k) < length (texts pre)" using texts_nonempty [of "[(m, es)]"] by (simp add: p texts_append)
    with that [of m es post] p assms(7) show thesis by simp
  qed
  have ok: "sts_ok nbyte k" "name_ok m" "entries_ok es" "length (show_stanza m es) < nbyte" "m \<noteq> ''default''"
    using assms(1) unfolding st by (auto simp: sts_ok_def)
  have nk: "n \<notin> fst ` set k" "n \<noteq> m" using assms(2) unfolding st by auto
  let ?r = "texts ((m, es) # sts)"
  have un: "unread sf = texts k @ ?r" using assms(5,6) st by (simp add: texts_append)
  have "length (unread sf) = length (texts k) + length ?r" unfolding un by simp
  then have "length (sfile sf) - length ?r = length (texts k)" unfolding assms(6) by simp
  with beg have c: "\<not> True \<or> k = [] \<or> length (sfile sf) - length ?r < startloc" by auto
  from rdsz_skip [OF ok(1) nk(1) assms(3) un assms(4) _ c] assms(6) obtain buf' where
    "rdsz_loop nbyte (Some n) startloc True buf sf = rdsz_loop nbyte (Some n) startloc True buf' (sf\<lparr>unread := ?r\<rparr>)"
    by auto
  moreover have "startloc \<le> ftell (sf\<lparr>unread := texts sts\<rparr>)"
    using fin assms(5,6) st by (simp add: ftell_def texts_append texts_Cons texts_def)
  then have "rdsz_loop nbyte (Some n) startloc True buf' (sf\<lparr>unread := ?r\<rparr>) =
      Some (CFG_SZNF, show_stanza m es, sf\<lparr>unread := texts sts\<rparr>)"
    using rdsz_read [OF ok(2-5) _ _ assms(3), of "sf\<lparr>unread := ?r\<rparr>" "texts sts" startloc True buf'] assms(4) nk(2)
    by (simp add: texts_Cons)
  ultimately show ?thesis by auto
qed

subsection \<open>Properties of the attribute file reader\<close>

lemmas cfgc_eval = cfgcrdsz_def rdsz_loop.simps cfgcread_def cfgcsvdflt_def cfgcmrgdflt_def cfgcskwd_def
  skwd_loop.simps stanza_matches_def strncmp_def strchr_def cfgckwd_def graph_def code_def wrap16_def
  cstr_def Let_def

lemmas text_eval = show_stanza_def show_line_def texts_def sts_ok_def name_ok_def entries_ok_def key_ok_def
  val_ok_def missing_def graph_def code_def

text \<open>
  C25: the stanza search. In a file that is a sequence of written stanzas (none of
  them the default stanza, each smaller than the buffer), read up to some stanza boundary,
  \<open>cfgcrdsz\<close> with a stanza name terminates and returns the first stanza of that name in
  cyclic order, from the current position to the end and then from the start of the file;
  when there is none it returns \<open>CFG_SZNF\<close>. The file itself is not changed.
\<close>

theorem cfgcrdsz_finds:
  assumes "sts_ok nbyte (pre @ post)" "name_ok n" "defbuf sf = None"
    and "sfile sf = texts (pre @ post)" "unread sf = texts post"
  shows "\<exists>buf u. cfgcrdsz nbyte (Some n) sf =
    Some (case map_of (post @ pre) n of
            Some es \<Rightarrow> (CFG_SUCC, show_stanza n es, sf\<lparr>unread := u\<rparr>)
          | None \<Rightarrow> (CFG_SZNF, buf, sf\<lparr>unread := u\<rparr>))"
proof -
  have nc: "CHR '':'' \<notin> set n" using assms(2) by (auto simp: name_ok_def)
  have sl: "ftell sf = length (texts pre)" using assms(4,5) by (simp add: ftell_def texts_append)
  have le: "length (unread sf) \<le> length (sfile sf)" using assms(4,5) by (simp add: texts_append)
  have okp: "sts_ok nbyte post" "sts_ok nbyte pre" using assms(1) by (auto simp: sts_ok_def)
  show ?thesis
  proof (cases "map_of post n")
    case (Some es)
    then obtain p q where pq: "post = p @ (n, es) # q" "n \<notin> fst ` set p" using map_of_split by metis
    have "rdsz_loop nbyte (Some n) (ftell sf) False [] sf = Some (CFG_SUCC, show_stanza n es, sf\<lparr>unread := texts q @ []\<rparr>)"
      using rdsz_found [of nbyte p n es q sf "[]" False] okp(1) pq assms(3,5) le by auto
    then show ?thesis using Some by (auto simp: cfgcrdsz_def)
  next
    case None
    then have np: "n \<notin> fst ` set post" by (simp add: map_of_eq_None_iff)
    let ?sf = "sf\<lparr>unread := []\<rparr>"
    let ?sw = "sf\<lparr>unread := sfile sf\<rparr>"
    obtain b where "rdsz_loop nbyte (Some n) (ftell sf) False [] sf = rdsz_loop nbyte (Some n) (ftell sf) False b ?sf"
      using rdsz_skip [OF okp(1) np nc _ assms(3) le, of "[]" False "ftell sf" "[]"] assms(5) by auto
    also have "\<dots> = rdsz_loop nbyte (Some n) (ftell sf) True b (cfgcrwnd ?sf)"
      by (subst rdsz_eof) simp_all
    also have "cfgcrwnd ?sf = ?sw" using assms(3) by (simp add: cfgcrwnd_def)
    finally have w: "cfgcrdsz nbyte (Some n) sf = rdsz_loop nbyte (Some n) (ftell sf) True b ?sw"
      by (simp add: cfgcrdsz_def)
    show ?thesis
    proof (cases "map_of pre n")
      case (Some es)
      then obtain p q where pq: "pre = p @ (n, es) # q" "n \<notin> fst ` set p" using map_of_split by metis
      have "0 < length (show_stanza n es)" by (simp add: show_stanza_def)
      then have c: "length (sfile ?sw) - length (texts ((n, es) # q @ post)) < ftell sf"
        using assms(4) pq(1) sl by (simp add: texts_append texts_Cons)
      have "rdsz_loop nbyte (Some n) (ftell sf) True b ?sw = Some (CFG_SUCC, show_stanza n es, ?sw\<lparr>unread := texts (q @ post) @ []\<rparr>)"
        by (rule rdsz_found [where pre = p]) (use assms(1,3,4) pq c in auto)
      then show ?thesis using w None Some by (auto simp: map_add_def map_of_append)
    next
      case pn: None
      then have "n \<notin> fst ` set (pre @ post)" using np by (auto simp: map_of_eq_None_iff)
      from rdsz_absent [OF assms(1) this nc, of ?sw "ftell sf" b] assms(3,4) sl obtain b' u where
        "rdsz_loop nbyte (Some n) (ftell sf) True b ?sw = Some (CFG_SZNF, b', ?sw\<lparr>unread := u\<rparr>)" by auto
      then show ?thesis using w None pn by (auto simp: map_add_def map_of_append)
    qed
  qed
qed

theorem cfgcrdsz_finds_witness:
  "\<exists>buf u. cfgcrdsz 100 (Some ''a'') \<lparr>sfile = texts ([(''a'', [(''k'', ''v'')])] @ [(''b'', [])]),
       unread = texts [(''b'', [])], defbuf = None, defmap = []\<rparr> =
     Some (case map_of ([(''b'', [])] @ [(''a'', [(''k'', ''v'')])]) ''a'' of
             Some es \<Rightarrow> (0, show_stanza ''a'' es,
               \<lparr>sfile = texts ([(''a'', [(''k'', ''v'')])] @ [(''b'', [])]),
                unread = texts [(''b'', [])], defbuf = None, defmap = []\<rparr>\<lparr>unread := u\<rparr>)
           | None \<Rightarrow> (-4015, buf, \<lparr>sfile = texts ([(''a'', [(''k'', ''v'')])] @ [(''b'', [])]),
                unread = texts [(''b'', [])], defbuf = None, defmap = []\<rparr>\<lparr>unread := u\<rparr>))"
  by (rule cfgcrdsz_finds) (simp_all add: text_eval)

text \<open>
  C37: reading a keyword. On a written stanza \<open>cfgcskwd\<close> never faults and returns
  the value of the first line with exactly that keyword, without a comment behind it; keywords that have the requested
  one as a proper prefix are passed over, and \<open>CFG_MNFD\<close> is returned when there is no line.
\<close>

theorem cfgcskwd_lookup:
  assumes "key_ok k" "entries_ok es" "name_ok n"
  shows "cfgcskwd k (show_stanza n es) =
    Some (case vmap es k of Some v \<Rightarrow> (CFG_SUCC, Some v) | None \<Rightarrow> (CFG_MNFD, None))"
  by (rule cfgcskwd_show_stanza [OF assms])

theorem cfgcskwd_lookup_witness:
  "cfgcskwd ''ab'' (show_stanza ''s'' [(''abc'', ''1''), (''ab'', ''2  * how many'')]) = Some (0, Some ''2'')"
  by (subst cfgcskwd_lookup) (simp_all add: text_eval)

lemma map_of_missing: "map_of (es @ missing es ds) k = (map_of ds ++ map_of es) k"
proof (cases "map_of es k")
  case None
  have "map_of (filter (\<lambda>e. map_of es (fst e) = None) ds) k = map_of ds k"
    using None by (induction ds) auto
  with None show ?thesis by (simp add: missing_def map_of_append map_add_def)
qed (simp add: map_of_append map_add_def)

lemma vmap_missing: "vmap (es @ missing es ds) k = (vmap ds ++ vmap es) k"
  using map_of_missing [of es ds k] by (auto simp: vmap_def map_add_def split: option.splits)

lemma entries_ok_missing: "entries_ok es \<Longrightarrow> entries_ok ds \<Longrightarrow> entries_ok (es @ missing es ds)"
  by (auto simp: entries_ok_def missing_def)

lemma name_ok_default: "name_ok ''default''"
  by (simp add: name_ok_def graph_def code_def)

lemma rdsz_after_default:
  assumes "unread sf = show_stanza ''default'' ds @ show_stanza n es @ r"
    and "name_ok n" "n \<noteq> ''default''" "entries_ok ds" "entries_ok es"
    and "length (show_stanza ''default'' ds) < nbyte" "length (show_stanza ''default'' ds) < 2 ^ 15"
    and "length (show_stanza n (es @ missing es ds)) < nbyte"
  shows "cfgcrdsz nbyte None sf = Some (CFG_SUCC, show_stanza n (es @ missing es ds),
    (cfgcsvdflt (show_stanza ''default'' ds) sf)\<lparr>unread := r\<rparr>)"
proof -
  let ?d = "show_stanza ''default'' ds"
  let ?t = "show_stanza n es @ r"
  let ?sf1 = "cfgcsvdflt ?d (sf\<lparr>unread := ?t\<rparr>)"
  let ?m = "show_stanza n (es @ missing es ds)"
  have len: "length (show_stanza n es) < nbyte" using assms(8) by (simp add: show_stanza_def)
  have r1: "cfgcread nbyte [] sf = (CFG_SUCC, ?d, sf\<lparr>unread := ?t\<rparr>)"
    by (rule cfgcread_stanza [OF name_ok_default assms(4,6,1)])
  have r2: "cfgcread nbyte ?d ?sf1 = (CFG_SUCC, show_stanza n es, ?sf1\<lparr>unread := r\<rparr>)"
    by (rule cfgcread_stanza [OF assms(2,5) len]) (simp add: cfgcsvdflt_def)
  have d1: "strncmp ''default:'' ?d 8 = 0"
    unfolding default_name using stanza_matches_show [OF name_ok_default, of "''default''" ds] by simp
  have d2: "\<not> strncmp ''default:'' (show_stanza n es) 8 = 0"
    unfolding default_name using stanza_matches_show [OF assms(2), of "''default''" es] assms(3) by simp
  have mg: "cfgcmrgdflt (show_stanza n es) (?sf1\<lparr>unread := r\<rparr>) nbyte = Some (CFG_SUCC, ?m)"
    using cfgcmrgdflt_stanza [OF assms(4,5,2) name_ok_default assms(7,8), of "sf\<lparr>unread := ?t\<rparr>"]
    by simp
  have db: "defbuf (?sf1\<lparr>unread := r\<rparr>) = Some ?d" "?d \<noteq> []" by (simp_all add: cfgcsvdflt_def show_stanza_def)
  have "cfgcrdsz nbyte None sf = rdsz_loop nbyte None (ftell sf) False ?d ?sf1"
    unfolding cfgcrdsz_def by (subst rdsz_loop.simps) (use d1 in \<open>simp add: r1 Let_def\<close>)
  also have "\<dots> = Some (CFG_SUCC, ?m, ?sf1\<lparr>unread := r\<rparr>)"
    by (subst rdsz_loop.simps) (use d2 db mg in \<open>simp add: r2\<close>)
  finally show ?thesis by (simp add: cfgcsvdflt_def)
qed



text \<open>
  merging and removing the default information are inverse. When the default
  stanza sets each keyword once and the stanza repeats none of its lines, \<open>cfgcunmrgdft\<close>
  applied to the result of \<open>cfgcmrgdflt\<close> gives the stanza back.
\<close>

theorem merge_unmerge:
  assumes "entries_ok ds" "entries_ok es" "name_ok n" "distinct (map fst ds)"
    and "length (show_stanza ''default'' ds) < 2 ^ 15" "length (show_stanza n (es @ missing es ds)) < nbyte"
    and "\<forall>e \<in> set es. vmap ds (fst e) \<noteq> Some (takeWhile graph (snd e))"
  shows "\<exists>buf. cfgcmrgdflt (show_stanza n es) (cfgcsvdflt (show_stanza ''default'' ds) sf) nbyte = Some (CFG_SUCC, buf) \<and>
    cfgcunmrgdft (cfgcsvdflt (show_stanza ''default'' ds) sf) buf = Some (show_stanza n es)"
proof -
  let ?d = "show_stanza ''default'' ds"
  have in_ds: "vmap ds (fst e) = Some (takeWhile graph (snd e))" if "e \<in> set ds" for e
    using assms(4) that by (cases e) (simp add: vmap_def)
  have "changed ds (missing es ds) = []"
    by (auto simp: changed_def missing_def in_ds filter_empty_conv)
  moreover have "changed ds es = es" using assms(7) by (auto simp: changed_def filter_id_conv)
  ultimately have "changed ds (es @ missing es ds) = es" by (simp add: changed_def)
  then show ?thesis
    using cfgcmrgdflt_stanza [OF assms(1,2,3) name_ok_default assms(5,6), of sf]
      cfgcunmrgdft_stanza [OF entries_ok_missing [OF assms(2,1)] assms(1) name_ok_default assms(3), of sf]
    by simp
qed

theorem merge_unmerge_witness:
  "\<exists>buf. cfgcmrgdflt (show_stanza ''d0'' [(''y'', ''3'')])
       (cfgcsvdflt (show_stanza ''default'' [(''x'', ''1''), (''y'', ''2'')])
         \<lparr>sfile = [], unread = [], defbuf = None, defmap = []\<rparr>) 100 = Some (0, buf) \<and>
     cfgcunmrgdft (cfgcsvdflt (show_stanza ''default'' [(''x'', ''1''), (''y'', ''2'')])
         \<lparr>sfile = [], unread = [], defbuf = None, defmap = []\<rparr>) buf = Some (show_stanza ''d0'' [(''y'', ''3'')])"
  by (rule merge_unmerge) (simp_all add: text_eval)

lemma stanza_matches_name:
  assumes "stanza_matches n buf" "CHR '':'' \<notin> set n"
  shows "takeWhile (\<lambda>c. c \<noteq> CHR '':'') buf = n"
proof -
  have t: "take (length n) buf = n" and p: "peek (drop (length n) buf) = CHR '':''"
    using assms(1) by (auto simp: stanza_matches_def strncmp_eq_0)
  obtain r where "drop (length n) buf = CHR '':'' # r" using p by (cases "drop (length n) buf") auto
  then have "buf = n @ CHR '':'' # r" using t by (metis append_take_drop_id)
  then show ?thesis using assms(2) by (auto intro!: takeWhile_stop)
qed

lemma rdsz_SZBF:
  assumes "rdsz_loop nbyte (Some n) sl rew b s = Some (CFG_SZBF, buf, sf')" "n \<noteq> ''default''" "CHR '':'' \<notin> set n"
  shows "\<exists>buf0. cfgcmrgdflt buf0 sf' nbyte = Some (CFG_SZBF, buf)"
  using assms(1)
proof (induction nbyte "Some n" sl rew b s rule: rdsz_loop.induct)
  case (1 nbyte sl rew b s)
  obtain rc b1 s1 where r: "cfgcread nbyte b s = (rc, b1, s1)" by (metis prod_cases3)
  note IH = "1.hyps" [OF r [symmetric] refl]
  have nd: "\<not> (strncmp ''default:'' b1 8 = 0 \<and> stanza_matches n b1)"
    using stanza_matches_name [of n b1] stanza_matches_name [of "''default''" b1] assms(2,3)
    unfolding default_name by auto
  note u = "1.prems" [unfolded rdsz_loop.simps [of nbyte "Some n" sl rew b s] r prod.case]
  show ?case
  proof (cases "rc = CFG_SUCC \<or> rc = CFG_SZBF")
    case False
    then have eof: "rc = CFG_EOF" using cfgcread_cases [OF r] by blast
    then show ?thesis using u IH(4) by (auto split: if_splits)
  next
    case rc: True
    show ?thesis
    proof (cases "strncmp ''default:'' b1 8 = 0")
      case True
      then show ?thesis using u IH(1) rc nd by (auto simp: Let_def)
    next
      case False
      then show ?thesis using u IH(2,3) rc
        by (auto simp: bind_eq_Some_conv split: if_splits option.splits)
    qed
  qed
qed

text \<open>
  a stanza that does not fit the buffer is never returned, and no
  \<open>CFG_SZBF\<close> is reported for it, although the header documents that code for a requested
  stanza larger than \<open>nbyte\<close>: for a named request other than the default stanza the
  result \<open>CFG_SZBF\<close> only comes from the merge with the default stanza.
\<close>

theorem oversized_not_reported:
  assumes "cfgcrdsz nbyte (Some n) sf = Some (CFG_SZBF, buf, sf')" "n \<noteq> ''default''" "CHR '':'' \<notin> set n"
  shows "\<exists>buf0. cfgcmrgdflt buf0 sf' nbyte = Some (CFG_SZBF, buf)"
  using rdsz_SZBF [OF assms(1) [unfolded cfgcrdsz_def] assms(2,3)] .

theorem oversized_not_reported_witness:
  "\<exists>buf0 buf sf'. cfgcmrgdflt buf0 sf' 24 = Some (-4016, buf)"
proof -
  let ?f = "''default:\<newline> k = v\<newline>\<newline>a:\<newline> j = 123456789012\<newline>\<newline>''"
  have "\<exists>buf sf'. cfgcrdsz 24 (Some ''a'') \<lparr>sfile = ?f, unread = ?f, defbuf = None, defmap = []\<rparr> =
      Some (-4016, buf, sf')"
    by (simp add: cfgc_eval numeral_eq_Suc)
  then obtain buf sf' where
    "cfgcrdsz 24 (Some ''a'') \<lparr>sfile = ?f, unread = ?f, defbuf = None, defmap = []\<rparr> = Some (-4016, buf, sf')"
    by blast
  from oversized_not_reported [OF this] show ?thesis by auto
qed

end
