(* ===== verification/Htxd_Ecg.thy ===== *)
theory Htxd_Ecg
  imports Htx_Shm Cfgc_Stanza
begin

text \<open>
  Loading an ECG into shared memory (\<open>bin/htxd/htxd_ecg.c\<close>): the entry of one device from its
  stanza (\<open>htxd_extract_ecg_to_shm_HE\<close>), the table of exercisers, the loop over the file
  (\<open>htxd_set_shm_exercisers_values\<close>) and the key numbers of a new ECG.

  The local buffer \<open>workstr\<close> of the extraction is threaded through: a keyword that is missing leaves in it what the
  previous keyword put there. A value that does not fit the array it is copied to is a fault.
\<close>

subsection \<open>\<open>htxd_unquote\<close> and keyword values\<close>

definition htxd_unquote :: "cstring \<Rightarrow> cstring fault" where
  "htxd_unquote s = (let t = filter (\<lambda>c. c \<noteq> CHR 0x22) s in if length t < 100 then Some t else None)"

text \<open>\<open>cfgcskwd (kw, stanza, workstr)\<close>.\<close>

definition into_work :: "cstring \<Rightarrow> cstring \<Rightarrow> cstring \<Rightarrow> cstring fault" where
  "into_work kw stanza work =
     do { (rc, v) \<leftarrow> cfgcskwd kw stanza; Some (case v of None \<Rightarrow> work | Some v \<Rightarrow> v) }"

text \<open>The keyword's value, unquoted in place.\<close>

definition kw_value :: "cstring \<Rightarrow> cstring \<Rightarrow> cstring \<Rightarrow> cstring fault" where
  "kw_value kw stanza work = do { w \<leftarrow> into_work kw stanza work; htxd_unquote w }"

definition kw_string :: "nat \<Rightarrow> cstring \<Rightarrow> cstring \<Rightarrow> cstring \<Rightarrow> cstring fault" where
  "kw_string sz kw stanza work =
     do { w \<leftarrow> kw_value kw stanza work; if length w < sz then Some w else None }"

definition is_yes :: "cstring \<Rightarrow> nat" where
  "is_yes w = (if peek w = CHR ''y'' \<or> peek w = CHR ''Y'' then 1 else 0)"

text \<open>The keywords before which \<open>workstr\<close> is cleared; an empty value means 0.\<close>

definition kw_number0 :: "cstring \<Rightarrow> cstring \<Rightarrow> (int \<times> cstring) fault" where
  "kw_number0 kw stanza =
     do { w \<leftarrow> into_work kw stanza [];
          if w = [] then Some (0, w)
          else do { w \<leftarrow> htxd_unquote w; Some (atoi w, w) } }"

definition halt_level :: "cstring \<Rightarrow> int" where
  "halt_level w =
     (if w = ''0'' then 0 else if w = ''1'' then 1 else if w = ''2'' then 2 else if w = ''3'' then 3
      else if w = ''4'' then 4 else if w = ''5'' then 5 else if w = ''6'' then 6 else if w = ''7'' then 7
      else if w = ''HTX_HE_HARD_ERROR'' then 1
      else if w = ''HTX_HE_SOFT_ERROR'' then 4 else 1)"

definition slot_text :: "cstring \<Rightarrow> cstring" where
  "slot_text w =
     (let w = (if w = ''0'' then ''NA          '' else w)
      in take 13 (w @ replicate (13 - length w) SP))"

subsection \<open>The entry of a device\<close>

text \<open>The device id: the text up to the colon. The first character is copied before it is looked at.\<close>

definition stanza_device :: "cstring \<Rightarrow> cstring fault" where
  "stanza_device stanza =
     (case stanza of
        [] \<Rightarrow> None
      | c # s \<Rightarrow> (let name = c # takeWhile (\<lambda>c. c \<noteq> CHR '':'') s
                 in if CHR '':'' \<in> set s \<and> length name < 40 then Some name else None))"

definition extract_names :: "cstring \<Rightarrow> cstring \<Rightarrow> htxshm_HE \<Rightarrow> (cstring \<times> htxshm_HE) fault" where
  "extract_names st w h =
     do { w \<leftarrow> kw_string 40 ''HE_name'' st w;       let h = h\<lparr>he_HE_name := w\<rparr>;
          w \<leftarrow> kw_string 12 ''adapt_desc'' st w;    let h = h\<lparr>he_adapt_desc := w\<rparr>;
          w \<leftarrow> kw_string 16 ''device_desc'' st w;   let h = h\<lparr>he_device_desc := w\<rparr>;
          w \<leftarrow> kw_string 100 ''emc_rules'' st w;    let h = h\<lparr>he_emc_rules := w\<rparr>;
          w \<leftarrow> kw_string 100 ''reg_rules'' st w;    let h = h\<lparr>he_reg_rules := w\<rparr>;
          w \<leftarrow> kw_string 16 ''log_vpd'' st w;       let h = h\<lparr>he_log_vpd := is_yes w\<rparr>;
          w \<leftarrow> kw_string 16 ''dup_device'' st w;    let h = h\<lparr>he_dup_device := is_yes w\<rparr>;
          Some (w, h) }"

definition extract_numbers :: "cstring \<Rightarrow> cstring \<Rightarrow> htxshm_HE \<Rightarrow> (cstring \<times> htxshm_HE) fault" where
  "extract_numbers st w h =
     do { w \<leftarrow> kw_value ''dma_chan'' st w;    let h = h\<lparr>he_dma_chan := ushort (atoi w)\<rparr>;
          w \<leftarrow> kw_value ''idle_time'' st w;   let h = h\<lparr>he_idle_time := ushort (atoi w)\<rparr>;
          w \<leftarrow> kw_value ''intrpt_lev'' st w;  let h = h\<lparr>he_intrpt_lev := ushort (atoi w)\<rparr>;
          w \<leftarrow> kw_value ''load_seq'' st w;    let h = h\<lparr>he_load_seq := ushort (atoi w)\<rparr>;
          w \<leftarrow> kw_value ''max_run_tm'' st w;  let h = h\<lparr>he_max_run_tm := ushort (atoi w)\<rparr>;
          w \<leftarrow> kw_value ''port'' st w;        let h = h\<lparr>he_port := ushort (atoi w)\<rparr>;
          w \<leftarrow> kw_value ''priority'' st w;    let h = h\<lparr>he_priority := ushort (atoi w)\<rparr>;
          Some (w, h) }"

definition extract_periods :: "cstring \<Rightarrow> htxshm_HE \<Rightarrow> (cstring \<times> htxshm_HE) fault" where
  "extract_periods st h =
     do { (n, w) \<leftarrow> kw_number0 ''start_delay'' st;     let h = h\<lparr>he_test_start_delay := n\<rparr>;
          (n, w) \<leftarrow> kw_number0 ''run_time'' st;        let h = h\<lparr>he_test_run_period := n\<rparr>;
          (n, w) \<leftarrow> kw_number0 ''equaliser_flag'' st;  let h = h\<lparr>he_equaliser_flag := bit1 n\<rparr>;
          (n, w) \<leftarrow> kw_number0 ''offline_cpu'' st;     let h = h\<lparr>he_offline_cpu := bit1 n\<rparr>;
          w \<leftarrow> into_work ''cpu_utilization'' st [];
          (if w = [] then Some (w, h\<lparr>he_cpu_utilization := []\<rparr>)
           else do { w \<leftarrow> htxd_unquote w; Some (w, h\<lparr>he_cpu_utilization := w\<rparr>) }) }"

definition extract_control :: "cstring \<Rightarrow> cstring \<Rightarrow> htxshm_HE \<Rightarrow> htxshm_HE fault" where
  "extract_control st w h =
     do { w \<leftarrow> kw_value ''slot'' st w;
          let h = h\<lparr>he_slot := ushort (atoi w), he_slot_port := slot_text w, he_PID := 0, he_is_child := 1\<rparr>;
          let w = slot_text w;
          w \<leftarrow> kw_value ''max_cycles'' st w;    let h = h\<lparr>he_max_cycles := word_of_int (atoi w mod 2 ^ 32)\<rparr>;
          w \<leftarrow> kw_value ''cont_on_err'' st w;   let h = h\<lparr>he_cont_on_err := is_yes w\<rparr>;
          w \<leftarrow> kw_value ''halt_level'' st w;    let h = h\<lparr>he_halt_sev_level := halt_level w, he_err_ack := 1\<rparr>;
          w \<leftarrow> kw_value ''start_halted'' st w;  let h = h\<lparr>he_start_halted := is_yes w\<rparr>;
          Some (h\<lparr>he_tm_last_err := 0, he_tm_last_upd := - 1, he_test_started_time := 0,
                   he_started_delay_flag := 0, he_bad_others := 0, he_bad_reads := 0, he_bad_writes := 0,
                   he_bytes_read1 := 0, he_bytes_read2 := 0, he_bytes_writ1 := 0, he_bytes_writ2 := 0,
                   he_good_others := 0, he_good_reads := 0, he_good_writes := 0\<rparr>) }"

definition extract_entry :: "cstring \<Rightarrow> cstring \<Rightarrow> htxshm_HE \<Rightarrow> htxshm_HE fault" where
  "extract_entry st junk h =
     do { (w, h) \<leftarrow> extract_names st junk h;
          (w, h) \<leftarrow> extract_numbers st w h;
          (w, h) \<leftarrow> extract_periods st h;
          extract_control st w h }"

subsection \<open>The table of exercisers\<close>

fun position_where :: "('a \<Rightarrow> bool) \<Rightarrow> 'a list \<Rightarrow> nat \<Rightarrow> nat option" where
  "position_where P [] i = None"
| "position_where P (x # xs) i = (if P x then Some i else position_where P xs (Suc i))"

definition htxd_get_exer_position_in_exer_table_by_pid :: "texer_list list \<Rightarrow> int \<Rightarrow> nat option" where
  "htxd_get_exer_position_in_exer_table_by_pid tbl pid = position_where (\<lambda>e. exer_pid e = pid) tbl 0"

definition htxd_get_exer_position_in_exer_table_by_exer_name :: "texer_list list \<Rightarrow> cstring \<Rightarrow> nat option" where
  "htxd_get_exer_position_in_exer_table_by_exer_name tbl name =
     position_where (\<lambda>e. strcmp name (dev_name e) = 0) tbl 0"

datatype dup_status = DUP_DEVICE_NOT_FOUND | DUP_DEVICE_FOUND | DUP_DEVICE_TERMINATED

definition htxd_get_device_dup_status :: "texer_list list \<Rightarrow> cstring \<Rightarrow> dup_status" where
  "htxd_get_device_dup_status tbl name =
     (case htxd_get_exer_position_in_exer_table_by_exer_name tbl name of
        None \<Rightarrow> DUP_DEVICE_NOT_FOUND
      | Some i \<Rightarrow> if exer_pid (tbl ! i) = 0 then DUP_DEVICE_TERMINATED else DUP_DEVICE_FOUND)"

text \<open>What an ECG contributes to the entries it loads.\<close>

record ecg_keys =
  k_shm_key :: int
  k_sem_key :: int
  k_sem_id :: int

text \<open>The table has room for \<open>cap\<close> entries, cleared when it is made; writing past it is a fault.\<close>

definition htxd_update_exer_table ::
  "nat \<Rightarrow> ecg_keys \<Rightarrow> htxshm_HE \<Rightarrow> int \<Rightarrow> texer_list list \<Rightarrow> texer_list list fault" where
  "htxd_update_exer_table cap k h pos tbl =
     (let fill = (\<lambda>pid. \<lparr>exer_pos = pos, ecg_sem_key = k_sem_key k, ecg_shm_key = k_shm_key k,
                        ecg_semhe_id = k_sem_id k, dev_name = he_sdev_id h, exer_pid = pid\<rparr>)
      in case htxd_get_exer_position_in_exer_table_by_exer_name tbl (he_sdev_id h) of
           Some i \<Rightarrow> Some (tbl[i := fill (exer_pid (tbl ! i))])
         | None \<Rightarrow> if length tbl < cap then Some (tbl @ [fill 0]) else None)"

definition htxd_update_exer_pid_in_exer_list :: "texer_list list \<Rightarrow> cstring \<Rightarrow> int \<Rightarrow> texer_list list" where
  "htxd_update_exer_pid_in_exer_list tbl name pid =
     (case htxd_get_exer_position_in_exer_table_by_exer_name tbl name of
        None \<Rightarrow> tbl
      | Some i \<Rightarrow> tbl[i := (tbl ! i)\<lparr>exer_pid := pid\<rparr>])"

subsection \<open>Loading the file\<close>

text \<open>\<open>htxd_extract_ecg_to_shm_HE\<close> without a default stanza of its own, as all callers call it. The result is
  the code, the duplicate flag, the device name, the entry and the file. \<open>junk\<close> is the initial contents of
  \<open>workstr\<close>.\<close>

definition htxd_extract_ecg_to_shm_HE ::
  "nat \<Rightarrow> cstring \<Rightarrow> texer_list list \<Rightarrow> htxshm_HE \<Rightarrow> sft \<Rightarrow> (int \<times> bool \<times> cstring \<times> htxshm_HE \<times> sft) fault" where
  "htxd_extract_ecg_to_shm_HE nbyte junk tbl h sf =
     do { (rc, stanza, sf) \<leftarrow> cfgcrdsz nbyte None sf;
          if rc \<noteq> CFG_SUCC then Some (rc, False, [], h, sf)
          else do {
            name \<leftarrow> stanza_device stanza;
            let h = h\<lparr>he_sdev_id := name\<rparr>;
            case htxd_get_device_dup_status tbl name of
              DUP_DEVICE_FOUND \<Rightarrow> Some (rc, True, name, h, sf)
            | d \<Rightarrow> do { h \<leftarrow> extract_entry stanza junk h;
                        Some (rc, d = DUP_DEVICE_TERMINATED, name, h, sf) } } }"

text \<open>The loop of \<open>htxd_set_shm_exercisers_values\<close>. \<open>hs\<close> is the array of entries, \<open>n\<close> the number filled
  so far and the position of the next; a device that is in the table already is not counted. Running out of array is a
  fault. The file shrinks with every stanza.\<close>

lemma rdsz_loop_shorter:
  "rdsz_loop nbyte None startloc rew buf sf = Some (rc, b, sf') \<Longrightarrow>
   length (unread sf') \<le> length (unread sf) \<and> (rc = CFG_SUCC \<longrightarrow> length (unread sf') < length (unread sf))"
proof (induction "length (unread sf)" arbitrary: buf sf rule: less_induct)
  case less
  obtain retc buf1 sf1 where r: "cfgcread nbyte buf sf = (retc, buf1, sf1)" by (cases "cfgcread nbyte buf sf")
  show ?case
  proof (cases "retc = CFG_SUCC \<or> retc = CFG_SZBF")
    case False
    then show ?thesis using less.prems cfgcread_cases [OF r] by (subst (asm) rdsz_loop.simps) (auto simp: r)
  next
    case True
    then have l: "length (unread sf1) < length (unread sf)" using cfgcread_cases [OF r] by auto
    have ih: "length (unread sf') < length (unread sf)"
      if "rdsz_loop nbyte None startloc rew b1 sf2 = Some (rc, b, sf')" "unread sf2 = unread sf1" for b1 sf2
      using less.hyps [of sf2, OF _ that(1)] l that(2) by simp
    have "length (unread sf') < length (unread sf)"
    proof (cases "strncmp ''default:'' buf1 8 = 0")
      case True
      then show ?thesis using less.prems \<open>retc = CFG_SUCC \<or> retc = CFG_SZBF\<close> ih
        by (subst (asm) rdsz_loop.simps) (auto simp: r Let_def cfgcsvdflt_def)
    next
      case False
      then show ?thesis using less.prems \<open>retc = CFG_SUCC \<or> retc = CFG_SZBF\<close> ih l
        by (subst (asm) rdsz_loop.simps)
          (auto simp: r Let_def split: if_splits option.splits bind_splits)
    qed
    then show ?thesis by simp
  qed
qed

lemma extract_shorter:
  "htxd_extract_ecg_to_shm_HE nbyte junk tbl h sf = Some (CFG_SUCC, dup, name, h', sf') \<Longrightarrow>
   length (unread sf') < length (unread sf)"
  by (auto simp: htxd_extract_ecg_to_shm_HE_def cfgcrdsz_def Let_def dest!: rdsz_loop_shorter
      split: bind_splits if_splits dup_status.splits)

record load_state =
  l_HEs :: "htxshm_HE list"
  l_count :: nat
  l_table :: "texer_list list"

function load_loop :: "nat \<Rightarrow> (nat \<Rightarrow> cstring) \<Rightarrow> nat \<Rightarrow> ecg_keys \<Rightarrow> load_state \<Rightarrow> sft \<Rightarrow> (int \<times> load_state) fault" where
  "load_loop nbyte junk cap k s sf =
     (case htxd_extract_ecg_to_shm_HE nbyte (junk (length (unread sf))) (l_table s)
             (if l_count s < length (l_HEs s) then l_HEs s ! l_count s else zero_HE) sf of
        None \<Rightarrow> None
      | Some (rc, dup, name, h, sf') \<Rightarrow>
          if rc \<noteq> CFG_SUCC then Some (if rc = CFG_EOF then 0 else - 1, s)
          else if length (l_HEs s) \<le> l_count s then None
          else
            (let s = s\<lparr>l_HEs := (l_HEs s)[l_count s := h]\<rparr>
             in if dup then load_loop nbyte junk cap k s sf'
                else case htxd_update_exer_table cap k h (int (l_count s)) (l_table s) of
                    None \<Rightarrow> None
                  | Some tbl \<Rightarrow> load_loop nbyte junk cap k (s\<lparr>l_table := tbl, l_count := Suc (l_count s)\<rparr>) sf'))"
  by pat_completeness auto
termination
  by (relation "measure (\<lambda>(nbyte, junk, cap, k, s, sf). length (unread sf))") (auto dest: extract_shorter)

declare load_loop.simps [simp del]

abbreviation (input) STANZA_SIZE :: nat where "STANZA_SIZE \<equiv> 4096"

text \<open>The file must have a default stanza; reading on after it finds the stanzas behind it.\<close>

definition htxd_set_shm_exercisers_values ::
  "string option \<Rightarrow> (nat \<Rightarrow> cstring) \<Rightarrow> nat \<Rightarrow> ecg_keys \<Rightarrow> load_state \<Rightarrow> (int \<times> load_state) fault" where
  "htxd_set_shm_exercisers_values contents junk cap k s =
     (case cfgcopsf contents of
        None \<Rightarrow> Some (- 1, s)
      | Some sf \<Rightarrow>
          do { (rc, _, sf) \<leftarrow> cfgcrdsz STANZA_SIZE (Some ''default'') sf;
               if rc \<noteq> CFG_SUCC then Some (- 1, s) else load_loop STANZA_SIZE junk cap k s sf })"

subsection \<open>Keys of a new ECG\<close>

abbreviation (input) KEY_OFFSET_LIMIT :: int where "KEY_OFFSET_LIMIT \<equiv> 1000"
abbreviation (input) ECG_SHMKEY_START :: int where "ECG_SHMKEY_START \<equiv> 10601"
abbreviation (input) ECG_SEMKEY_START :: int where "ECG_SEMKEY_START \<equiv> 10201"

text \<open>The scan of \<open>htxd_get_next_key_offset\<close>: after a hit the offset is advanced and the scan goes on from the
  same node.\<close>

function key_scan :: "int \<Rightarrow> int list \<Rightarrow> int" where
  "key_scan off [] = off"
| "key_scan off (key # keys) =
     (if off < KEY_OFFSET_LIMIT then
        (if key = ECG_SHMKEY_START + off then key_scan (off + 1) (key # keys) else key_scan off keys)
      else off)"
  by pat_completeness auto
termination
  by (relation "measures [\<lambda>(off, keys). nat (1001 - off), \<lambda>(off, keys). length keys]") auto

text \<open>The static offset is the state; the keys are those of the nodes in the list, the new one included.\<close>

definition htxd_get_next_key_offset :: "int list \<Rightarrow> int \<Rightarrow> int" where
  "htxd_get_next_key_offset keys off =
     (if keys = [] then off
      else (let off = key_scan off keys in if off > KEY_OFFSET_LIMIT then - 1 else off))"

subsection \<open>Key numbers are not shared\<close>

lemma key_scan_no_hit: "off < KEY_OFFSET_LIMIT \<Longrightarrow> ECG_SHMKEY_START + off \<notin> set keys \<Longrightarrow> key_scan off keys = off"
  by (induction keys) auto

lemma key_scan_append:
  "off < KEY_OFFSET_LIMIT \<Longrightarrow> ECG_SHMKEY_START + off \<notin> set ks \<Longrightarrow> key_scan off (ks @ rest) = key_scan off rest"
  by (induction ks) auto

lemma key_scan_step:
  assumes "off + 1 < KEY_OFFSET_LIMIT" and "\<forall>key\<in>set ks. key \<le> ECG_SHMKEY_START + off"
  shows "key_scan off (ks @ rest) =
    (if ECG_SHMKEY_START + off \<in> set ks then key_scan (off + 1) rest else key_scan off rest)"
proof (cases "ECG_SHMKEY_START + off \<in> set ks")
  case True
  then obtain as bs where ks: "ks = as @ (ECG_SHMKEY_START + off) # bs" "ECG_SHMKEY_START + off \<notin> set as"
    by (meson split_list_first)
  have "key_scan off (ks @ rest) = key_scan (off + 1) (bs @ rest)" using assms(1) ks by (simp add: key_scan_append)
  also have "ECG_SHMKEY_START + (off + 1) \<notin> set bs" using assms(2) ks by force
  then have "key_scan (off + 1) (bs @ rest) = key_scan (off + 1) rest" using assms(1) by (intro key_scan_append) auto
  finally show ?thesis using True by simp
next
  case False
  then show ?thesis using assms(1) by (simp add: key_scan_append)
qed

text \<open>A new ECG never gets the key of one that is loaded. The invariant that no loaded ECG has a key above the
  static offset is kept, and the result is at most two above the previous one, whatever key the memory of the new node
  happens to hold.\<close>

theorem key_offset_fresh:
  assumes "\<forall>key\<in>set keys. key \<le> ECG_SHMKEY_START + off" and "off + 2 < KEY_OFFSET_LIMIT"
  shows "let r = htxd_get_next_key_offset (keys @ [uninit]) off
         in ECG_SHMKEY_START + r \<notin> set keys \<and> off \<le> r \<and> r \<le> off + 2 \<and>
            (\<forall>key\<in>set (keys @ [ECG_SHMKEY_START + r]). key \<le> ECG_SHMKEY_START + r)"
proof -
  have u: "key_scan m [uninit] = (if uninit = ECG_SHMKEY_START + m then m + 1 else m)"
    if "m + 1 < KEY_OFFSET_LIMIT" for m using that by simp
  have "key_scan off (keys @ [uninit]) = (let m = (if ECG_SHMKEY_START + off \<in> set keys then off + 1 else off)
      in if uninit = ECG_SHMKEY_START + m then m + 1 else m)"
    using key_scan_step [OF _ assms(1), of "[uninit]"] assms(2) u [of off] u [of "off + 1"]
    by (simp only: Let_def split: if_splits) auto
  then show ?thesis using assms
    by (force simp: htxd_get_next_key_offset_def Let_def split: if_splits)
qed

theorem key_offset_fresh_witness:
  "htxd_get_next_key_offset ([10601, 10602] @ [0]) 1 = 2"
  using key_offset_fresh [of "[10601, 10602]" 1 0] by (simp add: htxd_get_next_key_offset_def)

lemma key_scan_bounds:
  "off \<le> KEY_OFFSET_LIMIT \<Longrightarrow> off \<le> key_scan off keys \<and> key_scan off keys \<le> KEY_OFFSET_LIMIT"
  by (induction off keys rule: key_scan.induct) auto

lemma next_key_offset_ge:
  "off \<le> KEY_OFFSET_LIMIT \<Longrightarrow> off \<le> htxd_get_next_key_offset keys off \<and> htxd_get_next_key_offset keys off \<le> KEY_OFFSET_LIMIT"
  using key_scan_bounds [of off keys] by (simp add: htxd_get_next_key_offset_def Let_def)

text \<open>Exhaustion of the key numbers is never reported: the test for an offset above the limit cannot hold, and at the
  limit the same key is handed out again although it is in use.\<close>

theorem key_offset_exhaustion:
  assumes "0 \<le> off" and "off \<le> KEY_OFFSET_LIMIT"
  shows "0 \<le> htxd_get_next_key_offset keys off \<and>
    htxd_get_next_key_offset keys off \<le> KEY_OFFSET_LIMIT \<and>
    htxd_get_next_key_offset keys KEY_OFFSET_LIMIT = KEY_OFFSET_LIMIT"
proof -
  have "key_scan KEY_OFFSET_LIMIT keys = KEY_OFFSET_LIMIT" by (cases keys) simp_all
  then show ?thesis using assms next_key_offset_ge [of off keys] by (auto simp: htxd_get_next_key_offset_def Let_def)
qed

theorem key_offset_exhaustion_witness:
  "htxd_get_next_key_offset [11601] 1000 = 1000 \<and> 0 \<le> htxd_get_next_key_offset [11601] 999"
  using key_offset_exhaustion [of 999 "[11601]"] by simp

subsection \<open>The entry as a function of the attributes\<close>

text \<open>What a stanza with the attributes \<open>m\<close> should give: every field from its own keyword.\<close>

definition uq :: "(cstring \<rightharpoonup> cstring) \<Rightarrow> cstring \<Rightarrow> cstring" where
  "uq m k = filter (\<lambda>c. c \<noteq> CHR 0x22) (case m k of Some v \<Rightarrow> v | None \<Rightarrow> [])"

definition num0 :: "(cstring \<rightharpoonup> cstring) \<Rightarrow> cstring \<Rightarrow> int" where
  "num0 m k = (if m k = None then 0 else atoi (uq m k))"

definition entry_of :: "(cstring \<rightharpoonup> cstring) \<Rightarrow> htxshm_HE \<Rightarrow> htxshm_HE" where
  "entry_of m h =
     h\<lparr>he_HE_name := uq m ''HE_name'', he_adapt_desc := uq m ''adapt_desc'',
       he_device_desc := uq m ''device_desc'', he_emc_rules := uq m ''emc_rules'',
       he_reg_rules := uq m ''reg_rules'', he_log_vpd := is_yes (uq m ''log_vpd''),
       he_dup_device := is_yes (uq m ''dup_device''), he_dma_chan := ushort (atoi (uq m ''dma_chan'')),
       he_idle_time := ushort (atoi (uq m ''idle_time'')), he_intrpt_lev := ushort (atoi (uq m ''intrpt_lev'')),
       he_load_seq := ushort (atoi (uq m ''load_seq'')), he_max_run_tm := ushort (atoi (uq m ''max_run_tm'')),
       he_port := ushort (atoi (uq m ''port'')), he_priority := ushort (atoi (uq m ''priority'')),
       he_test_start_delay := num0 m ''start_delay'', he_test_run_period := num0 m ''run_time'',
       he_equaliser_flag := bit1 (num0 m ''equaliser_flag''), he_offline_cpu := bit1 (num0 m ''offline_cpu''),
       he_cpu_utilization := uq m ''cpu_utilization'',
       he_slot := ushort (atoi (uq m ''slot'')), he_slot_port := slot_text (uq m ''slot''), he_PID := 0,
       he_is_child := 1, he_max_cycles := word_of_int (atoi (uq m ''max_cycles'') mod 2 ^ 32),
       he_cont_on_err := is_yes (uq m ''cont_on_err''), he_halt_sev_level := halt_level (uq m ''halt_level''),
       he_err_ack := 1, he_start_halted := is_yes (uq m ''start_halted''), he_tm_last_err := 0,
       he_tm_last_upd := - 1, he_test_started_time := 0, he_started_delay_flag := 0, he_bad_others := 0,
       he_bad_reads := 0, he_bad_writes := 0, he_bytes_read1 := 0, he_bytes_read2 := 0, he_bytes_writ1 := 0,
       he_bytes_writ2 := 0, he_good_others := 0, he_good_reads := 0, he_good_writes := 0\<rparr>"

definition string_keys :: "(cstring \<times> nat) list" where
  "string_keys = [(''HE_name'', 40), (''adapt_desc'', 12), (''device_desc'', 16), (''emc_rules'', 100),
     (''reg_rules'', 100), (''log_vpd'', 16), (''dup_device'', 16)]"

definition value_keys :: "cstring list" where
  "value_keys = [''dma_chan'', ''idle_time'', ''intrpt_lev'', ''load_seq'', ''max_run_tm'', ''port'', ''priority'',
     ''slot'', ''max_cycles'', ''cont_on_err'', ''halt_level'', ''start_halted'']"

definition optional_keys :: "cstring list" where
  "optional_keys = [''start_delay'', ''run_time'', ''equaliser_flag'', ''offline_cpu'', ''cpu_utilization'']"

text \<open>All keywords that are read into the uncleared buffer are there, and every value fits.\<close>

definition complete :: "(cstring \<rightharpoonup> cstring) \<Rightarrow> bool" where
  "complete m \<longleftrightarrow>
     (\<forall>p\<in>set string_keys. m (fst p) \<noteq> None \<and> length (uq m (fst p)) < min (snd p) 100) \<and>
     (\<forall>k\<in>set value_keys. m k \<noteq> None \<and> length (uq m k) < 100) \<and>
     (\<forall>k\<in>set optional_keys. length (uq m k) < 100)"

lemma keys_ok: "\<forall>k\<in>set (map fst string_keys) \<union> set value_keys \<union> set optional_keys. key_ok k"
  by (simp add: string_keys_def value_keys_def optional_keys_def key_ok_def graph_def code_def)

lemma into_work_stanza:
  assumes "name_ok n" "entries_ok es" "key_ok k"
  shows "into_work k (show_stanza n es) w = Some (case vmap es k of None \<Rightarrow> w | Some v \<Rightarrow> v)"
  using cfgcskwd_show_stanza [OF assms(3,2,1)] by (simp add: into_work_def split: option.split)

lemma kw_value_stanza:
  assumes "name_ok n" "entries_ok es" "key_ok k" "vmap es k \<noteq> None" "length (uq (vmap es) k) < 100"
  shows "kw_value k (show_stanza n es) w = Some (uq (vmap es) k)"
  using assms by (auto simp: kw_value_def into_work_stanza htxd_unquote_def uq_def Let_def)

lemma kw_value_missing:
  assumes "name_ok n" "entries_ok es" "key_ok k" "vmap es k = None"
  shows "kw_value k (show_stanza n es) w = htxd_unquote w"
  using assms by (simp add: kw_value_def into_work_stanza)

lemma htxd_unquote_uq: "length (uq m k) < 100 \<Longrightarrow> htxd_unquote (uq m k) = Some (uq m k)"
  by (simp add: htxd_unquote_def uq_def)

lemma val_ok_entry: "entries_ok es \<Longrightarrow> vmap es k = Some v \<Longrightarrow> v \<noteq> []"
  by (fastforce simp: entries_ok_def val_ok_def vmap_def takeWhile_eq_Nil_iff dest: map_of_SomeD)

lemma kw_number0_stanza:
  assumes "name_ok n" "entries_ok es" "key_ok k" "length (uq (vmap es) k) < 100"
  shows "kw_number0 k (show_stanza n es) = Some (num0 (vmap es) k, uq (vmap es) k)"
  using assms
  by (auto simp: kw_number0_def into_work_stanza num0_def uq_def htxd_unquote_def Let_def
      dest: val_ok_entry split: option.splits)

lemma extract_names_stanza:
  assumes "name_ok n" "entries_ok es" "complete (vmap es)"
  shows "extract_names (show_stanza n es) w h = Some (uq (vmap es) ''dup_device'',
    h\<lparr>he_HE_name := uq (vmap es) ''HE_name'', he_adapt_desc := uq (vmap es) ''adapt_desc'',
      he_device_desc := uq (vmap es) ''device_desc'', he_emc_rules := uq (vmap es) ''emc_rules'',
      he_reg_rules := uq (vmap es) ''reg_rules'', he_log_vpd := is_yes (uq (vmap es) ''log_vpd''),
      he_dup_device := is_yes (uq (vmap es) ''dup_device'')\<rparr>)"
proof -
  have "kw_string (snd p) (fst p) (show_stanza n es) w = Some (uq (vmap es) (fst p))" if "p \<in> set string_keys" for p w
    using kw_value_stanza [OF assms(1,2), of "fst p" w] keys_ok assms(3) that
    by (auto simp: kw_string_def complete_def)
  note k = this [unfolded string_keys_def]
  show ?thesis
    using k [of "(''HE_name'', 40)"] k [of "(''adapt_desc'', 12)"] k [of "(''device_desc'', 16)"]
      k [of "(''emc_rules'', 100)"] k [of "(''reg_rules'', 100)"] k [of "(''log_vpd'', 16)"]
      k [of "(''dup_device'', 16)"]
    by (simp add: extract_names_def Let_def)
qed

lemma complete_value:
  assumes "name_ok n" "entries_ok es" "complete (vmap es)" "k \<in> set value_keys"
  shows "kw_value k (show_stanza n es) w = Some (uq (vmap es) k)"
  using kw_value_stanza [OF assms(1,2), of k w] keys_ok assms(3,4) by (auto simp: complete_def)

lemma complete_optional:
  assumes "name_ok n" "entries_ok es" "complete (vmap es)" "k \<in> set optional_keys"
  shows "kw_number0 k (show_stanza n es) = Some (num0 (vmap es) k, uq (vmap es) k)"
  using kw_number0_stanza [OF assms(1,2), of k] keys_ok assms(3,4) by (auto simp: complete_def)

lemma extract_numbers_stanza:
  assumes "name_ok n" "entries_ok es" "complete (vmap es)"
  shows "extract_numbers (show_stanza n es) w h = Some (uq (vmap es) ''priority'',
    h\<lparr>he_dma_chan := ushort (atoi (uq (vmap es) ''dma_chan'')),
      he_idle_time := ushort (atoi (uq (vmap es) ''idle_time'')),
      he_intrpt_lev := ushort (atoi (uq (vmap es) ''intrpt_lev'')),
      he_load_seq := ushort (atoi (uq (vmap es) ''load_seq'')),
      he_max_run_tm := ushort (atoi (uq (vmap es) ''max_run_tm'')),
      he_port := ushort (atoi (uq (vmap es) ''port'')),
      he_priority := ushort (atoi (uq (vmap es) ''priority''))\<rparr>)"
  by (simp add: extract_numbers_def complete_value [OF assms] value_keys_def Let_def)

lemma extract_periods_stanza:
  assumes "name_ok n" "entries_ok es" "complete (vmap es)"
  shows "extract_periods (show_stanza n es) h = Some (uq (vmap es) ''cpu_utilization'',
    h\<lparr>he_test_start_delay := num0 (vmap es) ''start_delay'', he_test_run_period := num0 (vmap es) ''run_time'',
      he_equaliser_flag := bit1 (num0 (vmap es) ''equaliser_flag''),
      he_offline_cpu := bit1 (num0 (vmap es) ''offline_cpu''),
      he_cpu_utilization := uq (vmap es) ''cpu_utilization''\<rparr>)"
proof -
  have k: "key_ok ''cpu_utilization''" "length (uq (vmap es) ''cpu_utilization'') < 100"
    using keys_ok assms(3) by (auto simp: optional_keys_def complete_def)
  show ?thesis using k val_ok_entry [OF assms(2)]
    by (auto simp: extract_periods_def complete_optional [OF assms] optional_keys_def Let_def
        into_work_stanza [OF assms(1,2)] uq_def [of _ "''cpu_utilization''"] htxd_unquote_def split: option.splits)
qed

lemma extract_control_stanza:
  assumes "name_ok n" "entries_ok es" "complete (vmap es)"
  shows "extract_control (show_stanza n es) w h = Some (
    h\<lparr>he_slot := ushort (atoi (uq (vmap es) ''slot'')), he_slot_port := slot_text (uq (vmap es) ''slot''),
      he_PID := 0, he_is_child := 1,
      he_max_cycles := word_of_int (atoi (uq (vmap es) ''max_cycles'') mod 2 ^ 32),
      he_cont_on_err := is_yes (uq (vmap es) ''cont_on_err''),
      he_halt_sev_level := halt_level (uq (vmap es) ''halt_level''), he_err_ack := 1,
      he_start_halted := is_yes (uq (vmap es) ''start_halted''), he_tm_last_err := 0,
      he_tm_last_upd := - 1, he_test_started_time := 0, he_started_delay_flag := 0, he_bad_others := 0,
      he_bad_reads := 0, he_bad_writes := 0, he_bytes_read1 := 0, he_bytes_read2 := 0, he_bytes_writ1 := 0,
      he_bytes_writ2 := 0, he_good_others := 0, he_good_reads := 0, he_good_writes := 0\<rparr>)"
  by (simp add: extract_control_def complete_value [OF assms] value_keys_def Let_def)

lemma extract_entry_stanza:
  assumes "name_ok n" "entries_ok es" "complete (vmap es)"
  shows "extract_entry (show_stanza n es) junk h = Some (entry_of (vmap es) h)"
  by (simp add: extract_entry_def extract_names_stanza [OF assms] extract_numbers_stanza [OF assms]
      extract_periods_stanza [OF assms] extract_control_stanza [OF assms] entry_of_def)

text \<open>C35: For a stanza that has all mandatory keywords with values that fit, the extraction gives every field of the
  entry from its own keyword, whatever the order of the lines and whatever the buffer held before.\<close>

theorem extract_reference:
  assumes "name_ok n" "entries_ok es" "complete (vmap es)"
  shows "extract_entry (show_stanza n es) junk h = Some (entry_of (vmap es) h)"
  by (rule extract_entry_stanza [OF assms])

lemma map_of_const: "map_of (map (\<lambda>k. (k, v)) ks) k = (if k \<in> set ks then Some v else None)"
  by (induction ks) auto

definition sample_keys :: "cstring list" where
  "sample_keys = map fst string_keys @ value_keys"

definition sample_entries :: entries where
  "sample_entries = map (\<lambda>k. (k, ''7'')) sample_keys"

lemma map_of_sample: "vmap sample_entries k = (if k \<in> set sample_keys then Some ''7'' else None)"
  by (simp add: sample_entries_def vmap_def map_of_const graph_def code_def)

lemma complete_short:
  assumes "\<And>k. length (uq m k) \<le> 1" and "\<And>k. k \<in> set sample_keys \<Longrightarrow> m k \<noteq> None"
  shows "complete m"
proof -
  have u: "length (uq m k) < n" if "1 < n" for k n using assms(1) [of k] that by simp
  have "1 < min (snd p) 100" if "p \<in> set string_keys" for p using that by (auto simp: string_keys_def)
  then show ?thesis unfolding complete_def using u assms(2) by (auto simp: sample_keys_def)
qed

lemma sample_ok: "entries_ok sample_entries" "complete (vmap sample_entries)" "name_ok ''mem0''"
proof -
  have v: "val_ok ''7''" by (simp add: val_ok_def graph_def code_def)
  have k: "key_ok k" if "k \<in> set sample_keys" for k using keys_ok that by (auto simp: sample_keys_def)
  show "entries_ok sample_entries" using k v by (auto simp: entries_ok_def sample_entries_def)
  show "complete (vmap sample_entries)" by (rule complete_short) (simp_all add: uq_def map_of_sample)
  show "name_ok ''mem0''" by (simp add: name_ok_def graph_def code_def)
qed

lemma atoi_7: "ushort (atoi ''7'') = 7"
  by (simp add: ushort_def atoi_def strtol_def strtol_sign_def dec_val_def digit_val_def clamp64_def wrap32_def
      cstr_simps)

theorem extract_reference_witness:
  "map_option he_port (extract_entry (show_stanza ''mem0'' sample_entries) ''junk'' zero_HE) = Some 7"
proof -
  have "uq (vmap sample_entries) ''port'' = ''7''"
    by (simp add: uq_def map_of_sample sample_keys_def value_keys_def)
  then show ?thesis using extract_reference [OF sample_ok(3,1,2), of "''junk''" zero_HE]
    by (simp add: entry_of_def atoi_7)
qed

text \<open>A keyword missing from a stanza and from the defaults is not an error: the field silently takes the value of the
  keyword looked up before it. Without \<open>port\<close> the port is the maximum run time, for instance.\<close>

theorem missing_keyword_inherits:
  assumes "name_ok n" "entries_ok es" "complete ((vmap es)(''port'' \<mapsto> ''0''))" "vmap es ''port'' = None"
  shows "map_option (\<lambda>p. he_port (snd p)) (extract_numbers (show_stanza n es) w h) =
    Some (ushort (atoi (uq (vmap es) ''max_run_tm'')))"
proof -
  have u: "uq ((vmap es)(''port'' \<mapsto> ''0'')) k = uq (vmap es) k" if "k \<noteq> ''port''" for k
    using that by (simp add: uq_def)
  have "kw_value k (show_stanza n es) w' = Some (uq (vmap es) k)"
    if "k \<in> set value_keys" "k \<noteq> ''port''" for k w'
    using kw_value_stanza [OF assms(1,2), of k w'] keys_ok assms(3) that u [of k]
    by (auto simp: complete_def split: if_splits)
  note k = this [unfolded value_keys_def]
  have l: "length (uq (vmap es) ''max_run_tm'') < 100"
    using assms(3) u [of "''max_run_tm''"] by (auto simp: complete_def value_keys_def)
  have p: "kw_value ''port'' (show_stanza n es) w' = htxd_unquote w'" for w'
    using keys_ok by (intro kw_value_missing [OF assms(1,2)]) (auto simp: value_keys_def assms(4))
  show ?thesis
    using k [of "''dma_chan''"] k [of "''idle_time''"] k [of "''intrpt_lev''"] k [of "''load_seq''"]
      k [of "''max_run_tm''"] k [of "''priority''"]
    by (simp add: extract_numbers_def Let_def p htxd_unquote_uq [OF l])
qed

lemma map_of_filter_key: "vmap (filter (\<lambda>e. fst e \<noteq> x) es) k = (if k = x then None else vmap es k)"
  by (induction es) auto

theorem missing_keyword_inherits_witness:
  "map_option (\<lambda>p. he_port (snd p))
     (extract_numbers (show_stanza ''mem0'' (filter (\<lambda>e. fst e \<noteq> ''port'') sample_entries)) [] zero_HE) = Some 7"
proof -
  let ?es = "filter (\<lambda>e. fst e \<noteq> ''port'') sample_entries"
  have m: "vmap ?es k = (if k = ''port'' then None else vmap sample_entries k)" for k
    by (rule map_of_filter_key)
  have e: "entries_ok ?es" using sample_ok(1) by (auto simp: entries_ok_def)
  have "uq ((vmap ?es)(''port'' \<mapsto> ''0'')) k = (if k = ''port'' then ''0'' else uq (vmap sample_entries) k)" for k
    by (simp add: uq_def m)
  then have c: "complete ((vmap ?es)(''port'' \<mapsto> ''0''))"
    using sample_ok(2) by (auto simp: complete_def m string_keys_def)
  have "uq (vmap ?es) ''max_run_tm'' = ''7''"
    by (simp add: uq_def m map_of_sample sample_keys_def value_keys_def)
  then show ?thesis using missing_keyword_inherits [OF sample_ok(3) e c, of "[]" zero_HE]
    by (simp add: m atoi_7)
qed

subsection \<open>The table\<close>

lemma position_where_Some:
  "position_where P xs k = Some i \<Longrightarrow> k \<le> i \<and> i - k < length xs \<and> P (xs ! (i - k)) \<and> (\<forall>j<i - k. \<not> P (xs ! j))"
proof (induction xs arbitrary: k)
  case (Cons x xs)
  show ?case
  proof (cases "P x")
    case False
    then have "position_where P xs (Suc k) = Some i" using Cons.prems by simp
    note ih = Cons.IH [OF this]
    then have "i - k = Suc (i - Suc k)" by linarith
    then show ?thesis using False ih by (auto simp: less_Suc_eq_0_disj)
  qed (use Cons.prems in auto)
qed simp

lemma position_where_None: "position_where P xs k = None \<longleftrightarrow> (\<forall>x\<in>set xs. \<not> P x)"
  by (induction xs arbitrary: k) auto

lemmas name_position = htxd_get_exer_position_in_exer_table_by_exer_name_def

lemma name_position_None: "htxd_get_exer_position_in_exer_table_by_exer_name tbl n = None \<longleftrightarrow> n \<notin> dev_name ` set tbl"
  by (auto simp: name_position position_where_None)

lemma name_position_Some:
  "htxd_get_exer_position_in_exer_table_by_exer_name tbl n = Some i \<Longrightarrow> i < length tbl \<and> dev_name (tbl ! i) = n"
  by (auto simp: name_position dest: position_where_Some)


definition sample_ecg_keys :: ecg_keys where
  "sample_ecg_keys = \<lparr>k_shm_key = 10601, k_sem_key = 10201, k_sem_id = 3\<rparr>"


subsection \<open>Loading a whole file\<close>

lemma rdsz_default_first:
  assumes "unread sf = show_stanza ''default'' ds @ r" "entries_ok ds" "length (show_stanza ''default'' ds) < nbyte"
  shows "cfgcrdsz nbyte (Some ''default'') sf =
    Some (CFG_SUCC, show_stanza ''default'' ds, cfgcsvdflt (show_stanza ''default'' ds) (sf\<lparr>unread := r\<rparr>))"
proof -
  let ?d = "show_stanza ''default'' ds"
  have r1: "cfgcread nbyte [] sf = (CFG_SUCC, ?d, sf\<lparr>unread := r\<rparr>)"
    by (rule cfgcread_stanza [OF name_ok_default assms(2,3,1)])
  have m: "stanza_matches ''default'' ?d" using stanza_matches_show [OF name_ok_default, of "''default''" ds] by simp
  then have "strncmp ''default:'' ?d 8 = 0" by (simp add: default_name)
  then show ?thesis unfolding cfgcrdsz_def by (subst rdsz_loop.simps) (use m in \<open>simp add: r1 Let_def\<close>)
qed

lemma rdsz_next_default:
  assumes "name_ok n" "n \<noteq> ''default''" "entries_ok ds" "entries_ok es"
    and "length (show_stanza ''default'' ds) < 2 ^ 15" "length (show_stanza n (es @ missing es ds)) < nbyte"
  shows "cfgcrdsz nbyte None ((cfgcsvdflt (show_stanza ''default'' ds) sf)\<lparr>unread := show_stanza n es @ r\<rparr>) =
    Some (CFG_SUCC, show_stanza n (es @ missing es ds), (cfgcsvdflt (show_stanza ''default'' ds) sf)\<lparr>unread := r\<rparr>)"
proof -
  let ?d = "show_stanza ''default'' ds"
  let ?sf = "(cfgcsvdflt ?d sf)\<lparr>unread := show_stanza n es @ r\<rparr>"
  have len: "length (show_stanza n es) < nbyte" using assms(6) by (simp add: show_stanza_def)
  have r1: "cfgcread nbyte [] ?sf = (CFG_SUCC, show_stanza n es, ?sf\<lparr>unread := r\<rparr>)"
    by (rule cfgcread_stanza [OF assms(1,4) len]) simp
  have d2: "\<not> strncmp ''default:'' (show_stanza n es) 8 = 0"
    unfolding default_name using stanza_matches_show [OF assms(1), of "''default''" es] assms(2) by simp
  have mg: "cfgcmrgdflt (show_stanza n es) (?sf\<lparr>unread := r\<rparr>) nbyte = Some (CFG_SUCC, show_stanza n (es @ missing es ds))"
    using cfgcmrgdflt_stanza [OF assms(3,4,1) name_ok_default assms(5,6), of sf] by simp
  have db: "defbuf (?sf\<lparr>unread := r\<rparr>) = Some ?d" "?d \<noteq> []" by (simp_all add: cfgcsvdflt_def show_stanza_def)
  show ?thesis unfolding cfgcrdsz_def by (subst rdsz_loop.simps) (use d2 db mg in \<open>simp add: r1\<close>)
qed

lemma rdsz_next_eof: "unread sf = [] \<Longrightarrow> cfgcrdsz nbyte None sf = Some (CFG_EOF, [], sf)"
  unfolding cfgcrdsz_def by (subst rdsz_loop.simps) (simp add: cfgcread_eof)

lemma stanza_device_show: "name_ok n \<Longrightarrow> length n < 40 \<Longrightarrow> stanza_device (show_stanza n es) = Some n"
  by (cases n) (auto simp: stanza_device_def show_stanza_def name_ok_def takeWhile_all_append Let_def)

text \<open>A stanza htxd can load over the defaults \<open>ds\<close>, the entry and the table entry it gives.\<close>

definition device_ok :: "entries \<Rightarrow> cstring \<times> entries \<Rightarrow> bool" where
  "device_ok ds st \<longleftrightarrow>
     name_ok (fst st) \<and> fst st \<noteq> ''default'' \<and> length (fst st) < 40 \<and> entries_ok (snd st) \<and>
     length (show_stanza (fst st) (snd st @ missing (snd st) ds)) < STANZA_SIZE \<and>
     complete (vmap ds ++ vmap (snd st))"

definition device_entry :: "entries \<Rightarrow> cstring \<times> entries \<Rightarrow> htxshm_HE \<Rightarrow> htxshm_HE" where
  "device_entry ds st h = entry_of (vmap ds ++ vmap (snd st)) (h\<lparr>he_sdev_id := fst st\<rparr>)"

definition table_entry :: "ecg_keys \<Rightarrow> cstring \<Rightarrow> nat \<Rightarrow> texer_list" where
  "table_entry k name pos = \<lparr>exer_pos = int pos, ecg_sem_key = k_sem_key k, ecg_shm_key = k_shm_key k,
     ecg_semhe_id = k_sem_id k, dev_name = name, exer_pid = 0\<rparr>"

lemma extract_next_device:
  assumes "device_ok ds st" "entries_ok ds" "length (show_stanza ''default'' ds) < 2 ^ 15" "fst st \<notin> dev_name ` set tbl"
  shows "htxd_extract_ecg_to_shm_HE STANZA_SIZE junk tbl h
      ((cfgcsvdflt (show_stanza ''default'' ds) sf)\<lparr>unread := show_stanza (fst st) (snd st) @ r\<rparr>) =
    Some (CFG_SUCC, False, fst st, device_entry ds st h, (cfgcsvdflt (show_stanza ''default'' ds) sf)\<lparr>unread := r\<rparr>)"
proof -
  note ok = assms(1) [unfolded device_ok_def]
  have m: "vmap (snd st @ missing (snd st) ds) = vmap ds ++ vmap (snd st)" by (rule ext) (rule vmap_missing)
  have x: "extract_entry (show_stanza (fst st) (snd st @ missing (snd st) ds)) junk h' =
      Some (entry_of (vmap ds ++ vmap (snd st)) h')" for h'
    using ok assms(2) entries_ok_missing
    by (intro extract_entry_stanza [of _ "snd st @ missing (snd st) ds", unfolded m]) auto
  have "htxd_get_device_dup_status tbl (fst st) = DUP_DEVICE_NOT_FOUND"
    using assms(4) by (simp add: htxd_get_device_dup_status_def name_position_None [THEN iffD2])
  then show ?thesis
    using ok assms(2,3) rdsz_next_default [where n = "fst st" and ds = ds and es = "snd st" and nbyte = STANZA_SIZE and sf = sf and r = r]
    by (simp add: htxd_extract_ecg_to_shm_HE_def stanza_device_show x device_entry_def Let_def)
qed

lemma load_loop_stanzas:
  assumes "entries_ok ds" "length (show_stanza ''default'' ds) < 2 ^ 15"
    and "\<forall>st\<in>set sts. device_ok ds st" "distinct (map fst sts)"
    and "fst ` set sts \<inter> dev_name ` set (l_table s) = {}"
    and "l_count s + length sts \<le> length (l_HEs s)" "length (l_table s) + length sts \<le> cap"
  shows "\<exists>s'. load_loop STANZA_SIZE junk cap k s
      ((cfgcsvdflt (show_stanza ''default'' ds) sf)\<lparr>unread := texts sts\<rparr>) = Some (0, s') \<and>
    l_count s' = l_count s + length sts \<and> length (l_HEs s') = length (l_HEs s) \<and>
    l_table s' = l_table s @ map (\<lambda>i. table_entry k (fst (sts ! i)) (l_count s + i)) [0..<length sts] \<and>
    (\<forall>j<length (l_HEs s). l_HEs s' ! j =
       (if l_count s \<le> j \<and> j < l_count s + length sts
        then device_entry ds (sts ! (j - l_count s)) (l_HEs s ! j) else l_HEs s ! j))"
  using assms(3-)
proof (induction sts arbitrary: s)
  case Nil
  have "htxd_extract_ecg_to_shm_HE STANZA_SIZE w (l_table s) h
      ((cfgcsvdflt (show_stanza ''default'' ds) sf)\<lparr>unread := []\<rparr>) =
    Some (CFG_EOF, False, [], h, (cfgcsvdflt (show_stanza ''default'' ds) sf)\<lparr>unread := []\<rparr>)" for w h
    by (simp add: htxd_extract_ecg_to_shm_HE_def rdsz_next_eof)
  then show ?case by (subst load_loop.simps) (auto simp: texts_def)
next
  case (Cons st sts)
  let ?sf = "\<lambda>u. (cfgcsvdflt (show_stanza ''default'' ds) sf)\<lparr>unread := u\<rparr>"
  let ?h = "device_entry ds st (l_HEs s ! l_count s)"
  let ?s = "s\<lparr>l_HEs := (l_HEs s)[l_count s := ?h], l_table := l_table s @ [table_entry k (fst st) (l_count s)],
     l_count := Suc (l_count s)\<rparr>"
  have n: "fst st \<notin> dev_name ` set (l_table s)" using Cons.prems(3) by auto
  have x: "htxd_extract_ecg_to_shm_HE STANZA_SIZE w (l_table s) h (?sf (texts (st # sts))) =
      Some (CFG_SUCC, False, fst st, device_entry ds st h, ?sf (texts sts))" for w h
    using extract_next_device [OF _ assms(1,2) n, where junk = w and h = h and sf = sf and r = "texts sts"] Cons.prems(1) by (simp add: texts_def)
  have i: "he_sdev_id ?h = fst st" by (simp add: device_entry_def entry_of_def)
  have "htxd_update_exer_table cap k ?h (int (l_count s)) (l_table s) =
      Some (l_table s @ [table_entry k (fst st) (l_count s)])"
    using n Cons.prems(5) by (simp add: htxd_update_exer_table_def i name_position_None [THEN iffD2] table_entry_def)
  then have "load_loop STANZA_SIZE junk cap k s (?sf (texts (st # sts))) = load_loop STANZA_SIZE junk cap k ?s (?sf (texts sts))"
    using Cons.prems(4) by (subst load_loop.simps) (simp add: x Let_def)
  moreover have "\<exists>s'. load_loop STANZA_SIZE junk cap k ?s (?sf (texts sts)) = Some (0, s') \<and>
    l_count s' = l_count ?s + length sts \<and> length (l_HEs s') = length (l_HEs ?s) \<and>
    l_table s' = l_table ?s @ map (\<lambda>i. table_entry k (fst (sts ! i)) (l_count ?s + i)) [0..<length sts] \<and>
    (\<forall>j<length (l_HEs ?s). l_HEs s' ! j =
       (if l_count ?s \<le> j \<and> j < l_count ?s + length sts
        then device_entry ds (sts ! (j - l_count ?s)) (l_HEs ?s ! j) else l_HEs ?s ! j))"
    using Cons.prems by (intro Cons.IH) (auto simp: table_entry_def)
  moreover have "map (\<lambda>i. table_entry k (fst ((st # sts) ! i)) (l_count s + i)) [0..<length (st # sts)] =
      table_entry k (fst st) (l_count s) # map (\<lambda>i. table_entry k (fst (sts ! i)) (Suc (l_count s) + i)) [0..<length sts]"
    by (simp add: upt_conv_Cons map_Suc_upt [symmetric] del: upt_Suc)
  ultimately show ?case by (auto simp: nth_list_update nth_Cons' Suc_le_eq)
qed

lemma exercisers_values_stanzas:
  assumes "entries_ok ds" "length (show_stanza ''default'' ds) < STANZA_SIZE"
    and "\<forall>st\<in>set sts. device_ok ds st" "distinct (map fst sts)"
    and "fst ` set sts \<inter> dev_name ` set (l_table s) = {}"
    and "l_count s + length sts \<le> length (l_HEs s)" "length (l_table s) + length sts \<le> cap"
  shows "\<exists>s'. htxd_set_shm_exercisers_values (Some (texts ((''default'', ds) # sts))) junk cap k s = Some (0, s') \<and>
    l_count s' = l_count s + length sts \<and> length (l_HEs s') = length (l_HEs s) \<and>
    l_table s' = l_table s @ map (\<lambda>i. table_entry k (fst (sts ! i)) (l_count s + i)) [0..<length sts] \<and>
    (\<forall>j<length (l_HEs s). l_HEs s' ! j =
       (if l_count s \<le> j \<and> j < l_count s + length sts
        then device_entry ds (sts ! (j - l_count s)) (l_HEs s ! j) else l_HEs s ! j))"
proof -
  let ?f = "texts ((''default'', ds) # sts)"
  let ?sf = "\<lparr>sfile = ?f, unread = ?f, defbuf = None, defmap = []\<rparr>"
  have "cfgcrdsz STANZA_SIZE (Some ''default'') ?sf = Some (CFG_SUCC, show_stanza ''default'' ds,
      (cfgcsvdflt (show_stanza ''default'' ds) ?sf)\<lparr>unread := texts sts\<rparr>)"
    using rdsz_default_first [OF _ assms(1,2), of ?sf "texts sts"] by (simp add: texts_def cfgcsvdflt_def)
  then have e: "htxd_set_shm_exercisers_values (Some ?f) junk cap k s =
      load_loop STANZA_SIZE junk cap k s ((cfgcsvdflt (show_stanza ''default'' ds) ?sf)\<lparr>unread := texts sts\<rparr>)"
    by (simp add: htxd_set_shm_exercisers_values_def cfgcopsf_def)
  show ?thesis unfolding e
    using assms(2) by (intro load_loop_stanzas [OF assms(1) _ assms(3-)]) simp
qed

text \<open>C15: Loading an ECG file that starts with its default stanza and goes on with stanzas of new, distinct devices, each
  complete together with the defaults: the load succeeds, the entries are those of the stanzas in the order of the file,
  each field from the stanza's own keyword or else from the default stanza, the table gets one entry per device with the
  keys of the ECG, and nothing else changes.\<close>

theorem load_ecg_file:
  assumes "entries_ok ds" "length (show_stanza ''default'' ds) < STANZA_SIZE"
    and "\<forall>st\<in>set sts. device_ok ds st" "distinct (map fst sts)"
    and "fst ` set sts \<inter> dev_name ` set (l_table s) = {}"
    and "l_count s + length sts \<le> length (l_HEs s)" "length (l_table s) + length sts \<le> cap"
  shows "\<exists>s'. htxd_set_shm_exercisers_values (Some (texts ((''default'', ds) # sts))) junk cap k s = Some (0, s') \<and>
    l_count s' = l_count s + length sts \<and> length (l_HEs s') = length (l_HEs s) \<and>
    l_table s' = l_table s @ map (\<lambda>i. table_entry k (fst (sts ! i)) (l_count s + i)) [0..<length sts] \<and>
    (\<forall>j<length (l_HEs s). l_HEs s' ! j =
       (if l_count s \<le> j \<and> j < l_count s + length sts
        then device_entry ds (sts ! (j - l_count s)) (l_HEs s ! j) else l_HEs s ! j))"
  by (rule exercisers_values_stanzas [OF assms])

theorem load_ecg_file_witness:
  "\<exists>s'. htxd_set_shm_exercisers_values (Some (texts [(''default'', sample_entries), (''mem0'', [(''port'', ''8'')])]))
       (\<lambda>_. []) 4 sample_ecg_keys \<lparr>l_HEs = [zero_HE, zero_HE], l_count = 0, l_table = []\<rparr> = Some (0, s') \<and>
     l_count s' = 1 \<and> l_table s' = [table_entry sample_ecg_keys ''mem0'' 0] \<and> he_slot (l_HEs s' ! 0) = 7"
proof -
  let ?es = "[(''port'', ''8'')]"
  let ?m = "vmap sample_entries ++ vmap ?es"
  have v: "val_ok ''8''" "key_ok ''port''" by (simp_all add: val_ok_def key_ok_def graph_def code_def)
  have c: "complete ?m" by (rule complete_short) (simp_all add: uq_def map_add_def map_of_sample)
  have l: "length (show_stanza n sample_entries) < 500" if "length n < 10" for n
    using that by (simp add: show_stanza_def show_line_def sample_entries_def sample_keys_def string_keys_def value_keys_def)
  have l': "length (show_stanza n (?es @ missing ?es sample_entries)) < 600" if "length n < 10" for n
    using that
    by (simp add: show_stanza_def show_line_def sample_entries_def sample_keys_def string_keys_def value_keys_def missing_def)
  have d: "device_ok sample_entries (''mem0'', ?es)"
    using v c sample_ok(3) l' [of "''mem0''"] by (simp add: device_ok_def entries_ok_def)
  have "he_slot (device_entry sample_entries (''mem0'', ?es) zero_HE) = 7"
    by (simp add: device_entry_def entry_of_def uq_def map_add_def map_of_sample sample_keys_def value_keys_def atoi_7)
  then show ?thesis
    using load_ecg_file [OF sample_ok(1), of "[(''mem0'', ?es)]" "\<lparr>l_HEs = [zero_HE, zero_HE], l_count = 0, l_table = []\<rparr>" 4
        "\<lambda>_. []" sample_ecg_keys] d l [of "''default''"] by auto
qed

end
