(* ===== verification/Htxd_Ipc.thy ===== *)
theory Htxd_Ipc
  imports Htx_Shm
begin

text \<open>
  The semaphore set of an ECG as htxd uses it (\<open>bin/htxd/htxd_ipc.c\<close>): six system-wide semaphores, then three per
  device (run, error, acknowledgement). A set is the list of its values; \<open>semctl\<close> on a number outside the set
  fails with -1.
\<close>

type_synonym sems = "nat list"

definition semctl_GETVAL :: "sems \<Rightarrow> nat \<Rightarrow> int" where
  "semctl_GETVAL ss i = (if i < length ss then int (ss ! i) else - 1)"

text \<open>The macro \<open>SEMCTL\<close> is the comma expression \<open>semctl_arg.val = a, semctl (...)\<close>: in an assignment
  \<open>rc = SEMCTL (...)\<close> the variable gets the value assigned to \<open>val\<close>, and the result of \<open>semctl\<close> is
  dropped.\<close>

definition SEMCTL_SETVAL :: "sems \<Rightarrow> nat \<Rightarrow> nat \<Rightarrow> int \<times> sems" where
  "SEMCTL_SETVAL ss i v = (int v, if i < length ss then ss[i := v] else ss)"

definition sem_length :: "int \<Rightarrow> nat \<Rightarrow> nat" where
  "sem_length number_of_device max_added_device =
     nat ((number_of_device + int max_added_device) * int SEM_PER_EXER + int SEM_GLOBAL)"

fun zero_loop :: "nat \<Rightarrow> nat \<Rightarrow> sems \<Rightarrow> sems" where
  "zero_loop 0 i ss = ss"
| "zero_loop (Suc n) i ss = zero_loop n (Suc i) (snd (SEMCTL_SETVAL ss i 0))"

text \<open>A set that exists already keeps its values until they are set; \<open>old\<close> is what \<open>semget\<close> returns.\<close>

definition htxd_init_sem :: "int \<Rightarrow> nat \<Rightarrow> sems \<Rightarrow> sems" where
  "htxd_init_sem number_of_device max_added_device old =
     zero_loop (sem_length number_of_device max_added_device) 0 old"

definition htxd_release_all_semaphore :: "sems \<Rightarrow> sems" where
  "htxd_release_all_semaphore ss = replicate (length ss) 0"

definition run_index :: "nat \<Rightarrow> nat" where
  "run_index pos = pos * SEM_PER_EXER + SEM_GLOBAL"

definition htxd_set_device_run_sem_status :: "sems \<Rightarrow> nat \<Rightarrow> nat \<Rightarrow> int \<times> sems" where
  "htxd_set_device_run_sem_status ss pos new_status = SEMCTL_SETVAL ss (run_index pos) new_status"

definition htxd_set_device_error_sem_status :: "sems \<Rightarrow> nat \<Rightarrow> nat \<Rightarrow> int \<times> sems" where
  "htxd_set_device_error_sem_status ss pos new_status = SEMCTL_SETVAL ss (run_index pos + 1) new_status"

definition htxd_get_device_run_sem_status :: "sems \<Rightarrow> nat \<Rightarrow> int" where
  "htxd_get_device_run_sem_status ss pos = semctl_GETVAL ss (run_index pos)"

definition htxd_get_device_error_sem_status :: "sems \<Rightarrow> nat \<Rightarrow> int" where
  "htxd_get_device_error_sem_status ss pos = semctl_GETVAL ss (run_index pos + 1)"

definition htxd_get_global_activate_halt_sem_status :: "sems \<Rightarrow> int" where
  "htxd_get_global_activate_halt_sem_status ss = semctl_GETVAL ss 0"

definition htxd_set_global_activate_halt_sem_status :: "sems \<Rightarrow> nat \<Rightarrow> int \<times> sems" where
  "htxd_set_global_activate_halt_sem_status ss v = SEMCTL_SETVAL ss 0 v"

subsection \<open>The semaphores as a store\<close>

text \<open>A store of cells: what a read gives after a write, and which cells exist.\<close>

locale cell_store =
  fixes read :: "'s \<Rightarrow> 'k \<Rightarrow> int"
    and wr :: "'s \<Rightarrow> 'k \<Rightarrow> nat \<Rightarrow> 's"
    and has :: "'s \<Rightarrow> 'k \<Rightarrow> bool"
  assumes read_wr: "has s k \<Longrightarrow> read (wr s k v) l = (if l = k then int v else read s l)"
    and has_wr: "has (wr s k v) l = has s l"
    and read_absent: "\<not> has s k \<Longrightarrow> read s k = - 1"
    and wr_absent: "\<not> has s k \<Longrightarrow> wr s k v = s"
begin

text \<open>Writing one value to several cells.\<close>

lemma has_fold: "has (fold (\<lambda>k s. wr s k v) ks s) l = has s l"
  by (induction ks arbitrary: s) (simp_all add: has_wr)

lemma read_fold:
  "read (fold (\<lambda>k s. wr s k v) ks s) l = (if l \<in> set ks \<and> has s l then int v else read s l)"
proof (induction ks arbitrary: s)
  case (Cons k ks)
  then show ?case by (cases "has s k") (auto simp: has_wr read_wr wr_absent read_absent)
qed simp

lemma wr_wr_read:
  assumes "has s k" and "read s k = int v"
  shows "read (wr (wr s k u) k v) l = read s l"
  using assms by (simp add: has_wr read_wr)

end

datatype dev_sem = Run nat | Err nat | Ack nat | System

fun sem_index :: "dev_sem \<Rightarrow> nat" where
  "sem_index (Run p) = run_index p"
| "sem_index (Err p) = run_index p + 1"
| "sem_index (Ack p) = run_index p + 2"
| "sem_index System = 0"

lemma sem_index_inject [simp]: "sem_index k = sem_index l \<longleftrightarrow> k = l"
proof
  assume "sem_index k = sem_index l"
  then have "sem_index k mod 3 = sem_index l mod 3" "sem_index k div 3 = sem_index l div 3" by simp_all
  then show "k = l" by (cases k; cases l) (auto simp: run_index_def mod_Suc)
qed simp

definition sem_read :: "sems \<Rightarrow> dev_sem \<Rightarrow> int" where
  "sem_read ss k = semctl_GETVAL ss (sem_index k)"

definition sem_write :: "sems \<Rightarrow> dev_sem \<Rightarrow> nat \<Rightarrow> sems" where
  "sem_write ss k v = snd (SEMCTL_SETVAL ss (sem_index k) v)"

interpretation sem_store: cell_store sem_read sem_write "\<lambda>ss k. sem_index k < length ss"
  by unfold_locales (auto simp: sem_read_def sem_write_def semctl_GETVAL_def SEMCTL_SETVAL_def nth_list_update)

lemma device_sem_ops:
  "htxd_set_device_run_sem_status ss p v = (int v, sem_write ss (Run p) v)"
  "htxd_set_device_error_sem_status ss p v = (int v, sem_write ss (Err p) v)"
  "htxd_set_global_activate_halt_sem_status ss v = (int v, sem_write ss System v)"
  "htxd_get_device_run_sem_status ss p = sem_read ss (Run p)"
  "htxd_get_device_error_sem_status ss p = sem_read ss (Err p)"
  "htxd_get_global_activate_halt_sem_status ss = sem_read ss System"
  by (simp_all add: htxd_set_device_run_sem_status_def htxd_set_device_error_sem_status_def
      htxd_set_global_activate_halt_sem_status_def htxd_get_device_run_sem_status_def
      htxd_get_device_error_sem_status_def htxd_get_global_activate_halt_sem_status_def
      sem_read_def sem_write_def SEMCTL_SETVAL_def)

lemma length_sem_write [simp]: "length (sem_write ss k v) = length ss"
  by (simp add: sem_write_def SEMCTL_SETVAL_def)

lemma zero_loop_result:
  "length (zero_loop n i ss) = length ss \<and>
   (\<forall>j<length ss. zero_loop n i ss ! j = (if i \<le> j \<and> j < i + n then 0 else ss ! j))"
  by (induction n i ss rule: zero_loop.induct) (auto simp: SEMCTL_SETVAL_def nth_list_update)

lemma init_sem_result:
  "length ss = sem_length n a \<Longrightarrow> htxd_init_sem n a ss = replicate (length ss) 0"
  using zero_loop_result [of "sem_length n a" 0 ss] by (simp add: htxd_init_sem_def list_eq_iff_nth_eq)

lemma device_has_sems:
  assumes "p < n + a" and "length ss = sem_length n a"
  shows "sem_index (Run p) < length ss" "sem_index (Err p) < length ss" "sem_index (Ack p) < length ss"
  using assms by (auto simp: sem_length_def run_index_def)

text \<open>In a set made for \<open>n\<close> devices and \<open>a\<close> later ones, all semaphores start at zero, and setting the run or
  error semaphore of a device changes that one alone: every other semaphore, of any device or of the system, reads as
  before.\<close>

theorem device_sem_isolation:
  assumes "length old = sem_length n a" and "p < n + a" and "k = Run p \<or> k = Err p"
  shows "let ss = htxd_init_sem n a old;
             set_dev = (\<lambda>ss v. case k of Run _ \<Rightarrow> snd (htxd_set_device_run_sem_status ss p v)
                                     | _ \<Rightarrow> snd (htxd_set_device_error_sem_status ss p v))
         in (\<forall>l. sem_index l < length ss \<longrightarrow> sem_read ss l = 0) \<and>
            (\<forall>ss v l. length ss = length old \<longrightarrow>
               sem_read (set_dev ss v) l = (if l = k then int v else sem_read ss l))"
proof -
  have "sem_read (replicate (length old) 0) l = 0" if "sem_index l < length old" for l
    using that by (simp add: sem_read_def semctl_GETVAL_def)
  moreover have "sem_read (sem_write ss k v) l = (if l = k then int v else sem_read ss l)"
    if "length ss = length old" for ss v l
    using assms device_has_sems [of p n a ss] that by (intro sem_store.read_wr) auto
  ultimately show ?thesis using assms(3)
    by (auto simp: Let_def init_sem_result [OF assms(1)] device_sem_ops)
qed

theorem device_sem_isolation_witness:
  "let ss = htxd_init_sem 2 1 (replicate 15 7)
   in sem_read ss (Run 1) = 0 \<and> sem_read (snd (htxd_set_device_run_sem_status ss 1 1)) (Run 1) = 1 \<and>
      sem_read (snd (htxd_set_device_run_sem_status ss 1 1)) (Ack 0) = 0"
  using device_sem_isolation [of "replicate 15 7" 2 1 1 "Run 1"]
  by (simp add: Let_def sem_length_def run_index_def init_sem_result)

text \<open>Because of the comma in \<open>SEMCTL\<close>, setting a device semaphore reports the value that was to be set, whether
  or not the semaphore exists: a successful halt looks like error 1, and a failed activation like success.\<close>

theorem set_reports_value:
  "fst (htxd_set_device_run_sem_status ss p v) = int v \<and>
   fst (htxd_set_device_error_sem_status ss p v) = int v \<and>
   (length ss \<le> run_index p \<longrightarrow> snd (htxd_set_device_run_sem_status ss p 0) = ss \<and>
      fst (htxd_set_device_run_sem_status ss p 0) = 0)"
  by (simp add: htxd_set_device_run_sem_status_def htxd_set_device_error_sem_status_def SEMCTL_SETVAL_def)

theorem set_reports_value_witness:
  "fst (htxd_set_device_run_sem_status [0, 0] 4 0) = 0 \<and> snd (htxd_set_device_run_sem_status [0, 0] 4 0) = [0, 0]"
  using set_reports_value [of "[0, 0]" 4 0] by (simp add: run_index_def)

end
