(* ===== verification/Htxd_List.thy ===== *)
theory Htxd_List
  imports Htxd_Ecg Htxd_Ipc
begin

text \<open>
  The list of loaded ECGs that the manager of htxd keeps (\<open>bin/htxd/htxd_ecg.c\<close>): nodes linked in both directions
  on the heap. The heap is an explicit store from addresses to nodes, a null pointer is \<open>None\<close>, and reading or
  writing through a null or dangling pointer is a fault. The list refines a HOL list of addresses.
\<close>

text \<open>\<open>htxd_ecg_equaliser_details\<close>.\<close>

record equaliser_details =
  eq_enable_flag :: int
  eq_debug_flag :: int
  eq_offline_cpu :: int
  eq_time_quantum :: int
  eq_startup_time_delay :: int
  eq_log_duration :: int
  eq_pattern_length :: int
  eq_config_file :: string

text \<open>\<open>htxd_ecg_info\<close> without its links. The semaphore set and the shared memory it points to are part of it; \<open>None\<close>
  is a pointer that is null or was never set.\<close>

record ecg_info =
  ei_name :: string
  ei_start_time :: string
  ei_run_start_time :: int
  ei_status :: int
  ei_shm_key :: int
  ei_sem_key :: int
  ei_sem_id :: int
  ei_exer_entries :: int
  ei_max_entries :: int
  ei_shm_entries :: nat
  ei_equaliser :: equaliser_details
  ei_sems :: sems
  ei_shm :: "(htxshm_hdr \<times> htxshm_HE list) option"

record ecg_node =
  n_next :: "nat option"
  n_prev :: "nat option"
  n_info :: ecg_info

type_synonym node_heap = "nat \<Rightarrow> ecg_node option"

record ecg_manager =
  m_heap :: node_heap
  m_list :: "nat option"
  m_length :: int
  m_current :: "nat option"
  m_loaded_count :: int
  m_device_count :: int
  m_table :: "texer_list list"
  m_selected :: string
  m_running :: string

definition htxd_init_ecg_manager :: "node_heap \<Rightarrow> ecg_manager" where
  "htxd_init_ecg_manager h =
     \<lparr>m_heap = h, m_list = None, m_length = 0, m_current = None, m_loaded_count = 0, m_device_count = 0,
      m_table = [], m_selected = [], m_running = []\<rparr>"

text \<open>Writing a field of the node at an address.\<close>

definition at_node :: "nat \<Rightarrow> (ecg_node \<Rightarrow> ecg_node) \<Rightarrow> node_heap \<Rightarrow> node_heap fault" where
  "at_node a f h = do { n \<leftarrow> h a; Some (h(a \<mapsto> f n)) }"

subsection \<open>Walking the list\<close>

text \<open>On a circular list the walks would not end.\<close>

partial_function (option) last_node :: "node_heap \<Rightarrow> nat \<Rightarrow> nat option" where
  "last_node h p = do { n \<leftarrow> h p; case n_next n of None \<Rightarrow> Some p | Some q \<Rightarrow> last_node h q }"

partial_function (option) find_node :: "node_heap \<Rightarrow> string \<Rightarrow> nat option \<Rightarrow> nat option option" where
  "find_node h name p =
     (case p of
        None \<Rightarrow> Some None
      | Some a \<Rightarrow> do { n \<leftarrow> h a; if ei_name (n_info n) = name then Some (Some a) else find_node h name (n_next n) })"

definition htxd_get_ecg_info_node :: "ecg_manager \<Rightarrow> string \<Rightarrow> nat option option" where
  "htxd_get_ecg_info_node m name = find_node (m_heap m) name (m_list m)"

text \<open>\<open>htxd_get_active_ecg_name_list\<close>: the names, one per line.\<close>

partial_function (option) name_list :: "node_heap \<Rightarrow> nat option \<Rightarrow> string \<Rightarrow> string option" where
  "name_list h p acc =
     (case p of
        None \<Rightarrow> Some acc
      | Some a \<Rightarrow> do { n \<leftarrow> h a; name_list h (n_next n) (acc @ ei_name (n_info n) @ [NL]) })"

definition htxd_get_active_ecg_name_list :: "ecg_manager \<Rightarrow> string option" where
  "htxd_get_active_ecg_name_list m = name_list (m_heap m) (m_list m) []"

text \<open>\<open>htxd_get_running_ecg_list\<close>: the names separated by a comma and a blank.\<close>

partial_function (option) comma_list :: "node_heap \<Rightarrow> nat option \<Rightarrow> string \<Rightarrow> string option" where
  "comma_list h p acc =
     (case p of
        None \<Rightarrow> Some acc
      | Some a \<Rightarrow> do { n \<leftarrow> h a; comma_list h (n_next n) (acc @ ei_name (n_info n) @ '', '') })"

definition htxd_get_running_ecg_list :: "ecg_manager \<Rightarrow> string option" where
  "htxd_get_running_ecg_list m =
     do { s \<leftarrow> comma_list (m_heap m) (m_list m) [];
          Some (if 0 < length s then take (length s - 2) s else s) }"

subsection \<open>Adding and removing\<close>

text \<open>\<open>htxd_allocate_ecg_info\<close>: \<open>a\<close> is the address \<open>malloc\<close> returns and \<open>junk\<close> what the memory holds.\<close>

definition htxd_allocate_ecg_info :: "nat \<Rightarrow> ecg_node \<Rightarrow> ecg_manager \<Rightarrow> ecg_manager fault" where
  "htxd_allocate_ecg_info a junk m =
     (case m_list m of
        None \<Rightarrow> Some (m\<lparr>m_heap := (m_heap m)(a \<mapsto> junk\<lparr>n_next := None, n_prev := None\<rparr>),
                       m_list := Some a, m_current := Some a\<rparr>)
      | Some p \<Rightarrow>
          do { l \<leftarrow> last_node (m_heap m) p;
               h \<leftarrow> at_node l (\<lambda>n. n\<lparr>n_next := Some a\<rparr>) (m_heap m);
               Some (m\<lparr>m_heap := h(a \<mapsto> junk\<lparr>n_next := None, n_prev := Some l\<rparr>), m_current := Some a\<rparr>) })"

text \<open>What \<open>htxd_init_ecg_info\<close> does to the list: the node is made first, and the length is counted up at the very
  end.\<close>

definition attach_ecg :: "(nat \<Rightarrow> ecg_node) \<Rightarrow> nat \<Rightarrow> ecg_manager \<Rightarrow> ecg_manager fault" where
  "attach_ecg new a m =
     do { m \<leftarrow> htxd_allocate_ecg_info a (new a) m; Some (m\<lparr>m_length := m_length m + 1\<rparr>) }"

definition htxd_remove_ecg_info_node :: "nat \<Rightarrow> ecg_manager \<Rightarrow> ecg_manager fault" where
  "htxd_remove_ecg_info_node a m =
     do { m \<leftarrow>
            (if m_length m = 1 then Some (m\<lparr>m_list := None\<rparr>)
             else do {
               n \<leftarrow> m_heap m a;
               m \<leftarrow> (case n_prev n of
                       Some p \<Rightarrow> do { h \<leftarrow> at_node p (\<lambda>q. q\<lparr>n_next := n_next n\<rparr>) (m_heap m); Some (m\<lparr>m_heap := h\<rparr>) }
                     | None \<Rightarrow>
                         (case n_next n of
                            None \<Rightarrow> None
                          | Some q \<Rightarrow> do { h \<leftarrow> at_node q (\<lambda>x. x\<lparr>n_prev := n_prev n\<rparr>) (m_heap m);
                                          Some (m\<lparr>m_heap := h, m_list := n_next n\<rparr>) }));
               (case n_next n of
                  None \<Rightarrow> Some m
                | Some q \<Rightarrow> do { h \<leftarrow> at_node q (\<lambda>x. x\<lparr>n_prev := n_prev n\<rparr>) (m_heap m); Some (m\<lparr>m_heap := h\<rparr>) }) });
          Some (m\<lparr>m_length := m_length m - 1\<rparr>) }"

subsection \<open>An abstract list with operations\<close>

datatype 'a list_op = Add 'a | Del 'a

text \<open>Sequences of operations, on the list and on a representation.\<close>

fun abs_op :: "'a list_op \<Rightarrow> 'a list \<Rightarrow> 'a list" where
  "abs_op (Add a) xs = xs @ [a]"
| "abs_op (Del a) xs = remove1 a xs"

fun op_ok :: "'a list_op \<Rightarrow> 'a list \<Rightarrow> bool" where
  "op_ok (Add a) xs \<longleftrightarrow> a \<notin> set xs"
| "op_ok (Del a) xs \<longleftrightarrow> a \<in> set xs"

fun ops_ok :: "'a list_op list \<Rightarrow> 'a list \<Rightarrow> bool" where
  "ops_ok [] xs \<longleftrightarrow> True"
| "ops_ok (p # ps) xs \<longleftrightarrow> op_ok p xs \<and> ops_ok ps (abs_op p xs)"

fun run_ops :: "('a \<Rightarrow> 's \<Rightarrow> 's option) \<Rightarrow> ('a \<Rightarrow> 's \<Rightarrow> 's option) \<Rightarrow> 'a list_op list \<Rightarrow> 's \<Rightarrow> 's option" where
  "run_ops add del [] s = Some s"
| "run_ops add del (Add a # ps) s = do { s \<leftarrow> add a s; run_ops add del ps s }"
| "run_ops add del (Del a # ps) s = do { s \<leftarrow> del a s; run_ops add del ps s }"

locale node_list =
  fixes rep :: "'s \<Rightarrow> 'a list \<Rightarrow> bool"
    and add :: "'a \<Rightarrow> 's \<Rightarrow> 's option"
    and del :: "'a \<Rightarrow> 's \<Rightarrow> 's option"
  assumes rep_add: "rep s xs \<Longrightarrow> a \<notin> set xs \<Longrightarrow> \<exists>s'. add a s = Some s' \<and> rep s' (xs @ [a])"
    and rep_del: "rep s xs \<Longrightarrow> a \<in> set xs \<Longrightarrow> \<exists>s'. del a s = Some s' \<and> rep s' (remove1 a xs)"
begin

lemma run_refines:
  "rep s xs \<Longrightarrow> ops_ok ps xs \<Longrightarrow> \<exists>s'. run_ops add del ps s = Some s' \<and> rep s' (fold abs_op ps xs)"
proof (induction ps arbitrary: s xs)
  case (Cons p ps)
  show ?case
  proof (cases p)
    case (Add a)
    then show ?thesis using Cons.IH rep_add [OF Cons.prems(1), of a] Cons.prems(2) by fastforce
  next
    case (Del a)
    then show ?thesis using Cons.IH rep_del [OF Cons.prems(1), of a] Cons.prems(2) by fastforce
  qed
qed simp

end

subsection \<open>The linked list represents a list\<close>

text \<open>A stretch of the list: from \<open>p\<close>, entered from \<open>prev\<close>, over the nodes \<open>xs\<close>, left to \<open>q\<close>.\<close>

fun seg :: "node_heap \<Rightarrow> nat option \<Rightarrow> nat option \<Rightarrow> nat list \<Rightarrow> nat option \<Rightarrow> bool" where
  "seg h prev p [] q \<longleftrightarrow> p = q"
| "seg h prev p (a # xs) q \<longleftrightarrow>
     p = Some a \<and> (case h a of None \<Rightarrow> False | Some n \<Rightarrow> n_prev n = prev \<and> seg h (Some a) (n_next n) xs q)"

definition manages :: "ecg_manager \<Rightarrow> nat list \<Rightarrow> bool" where
  "manages m xs \<longleftrightarrow> seg (m_heap m) None (m_list m) xs None \<and> distinct xs \<and> m_length m = int (length xs)"

definition end_of :: "nat option \<Rightarrow> nat list \<Rightarrow> nat option" where
  "end_of prev xs = (if xs = [] then prev else Some (last xs))"

lemma end_of_simps [simp]: "end_of prev [] = prev" "end_of prev (a # xs) = end_of (Some a) xs"
  by (simp_all add: end_of_def)

lemma seg_append:
  "seg h prev p (xs @ ys) q \<longleftrightarrow> (\<exists>r. seg h prev p xs r \<and> seg h (end_of prev xs) r ys q)"
  by (induction xs arbitrary: prev p) (auto split: option.splits)

lemma seg_appendI: "seg h prev p xs r \<Longrightarrow> seg h (end_of prev xs) r ys q \<Longrightarrow> seg h prev p (xs @ ys) q"
  by (auto simp: seg_append)

lemma seg_upd: "a \<notin> set xs \<Longrightarrow> seg (h(a := n)) prev p xs q = seg h prev p xs q"
  by (induction xs arbitrary: prev p) (auto split: option.splits)

text \<open>Redirecting the last node of a stretch, and the first one.\<close>

lemma seg_set_next:
  "seg h prev p (xs @ [l]) q \<Longrightarrow> l \<notin> set xs \<Longrightarrow> h l = Some n \<Longrightarrow>
   seg (h(l \<mapsto> n\<lparr>n_next := q'\<rparr>)) prev p (xs @ [l]) q'"
  by (auto simp: seg_append seg_upd)

lemma seg_set_prev:
  "seg h prev p (b # xs) q \<Longrightarrow> b \<notin> set xs \<Longrightarrow> h b = Some n \<Longrightarrow>
   seg (h(b \<mapsto> n\<lparr>n_prev := prev'\<rparr>)) prev' p (b # xs) q"
  by (auto simp: seg_upd)

lemma seg_first: "seg h prev p (xs @ [l]) q \<Longrightarrow> \<exists>a. p = Some a"
  by (cases xs) auto

lemma last_node_seg: "seg h prev (Some a) (xs @ [l]) None \<Longrightarrow> last_node h a = Some l"
proof (induction xs arbitrary: a prev)
  case Nil
  then show ?case by (subst last_node.simps) (auto split: option.splits)
next
  case (Cons b xs)
  then obtain n where n: "h a = Some n" "seg h (Some a) (n_next n) (xs @ [l]) None" by (auto split: option.splits)
  moreover obtain c where "n_next n = Some c" using seg_first [OF n(2)] by blast
  ultimately show ?case using Cons.IH [of "Some a" c] by (subst last_node.simps) simp
qed

lemma seg_node: "seg h prev p xs q \<Longrightarrow> a \<in> set xs \<Longrightarrow> \<exists>n. h a = Some n"
  by (induction xs arbitrary: prev p) (auto split: option.splits)

lemma find_node_seg:
  "seg h prev p xs None \<Longrightarrow> find_node h name p = Some (find (\<lambda>a. map_option (ei_name \<circ> n_info) (h a) = Some name) xs)"
proof (induction xs arbitrary: prev p)
  case Nil
  then show ?case by (subst find_node.simps) simp
next
  case (Cons a xs)
  then obtain n where n: "p = Some a" "h a = Some n" "seg h (Some a) (n_next n) xs None" by (auto split: option.splits)
  then show ?case using Cons.IH [OF n(3)] by (subst find_node.simps) simp
qed

lemma allocate_manages:
  assumes "manages m xs" "a \<notin> set xs"
  shows "\<exists>m'. htxd_allocate_ecg_info a junk m = Some m' \<and> seg (m_heap m') None (m_list m') (xs @ [a]) None \<and>
    m_length m' = m_length m \<and> m_current m' = Some a \<and>
    m_heap m' a = Some (junk\<lparr>n_next := None, n_prev := end_of None xs\<rparr>)"
proof (cases xs rule: rev_cases)
  case Nil
  then show ?thesis using assms by (auto simp: manages_def htxd_allocate_ecg_info_def)
next
  case (snoc ys l)
  have s: "seg (m_heap m) None (m_list m) (ys @ [l]) None" and d: "l \<notin> set ys" "a \<noteq> l" "a \<notin> set ys"
    using assms snoc by (auto simp: manages_def)
  obtain p where p: "m_list m = Some p" using seg_first [OF s] by auto
  obtain n where n: "m_heap m l = Some n" using seg_node [OF s] by auto
  have "last_node (m_heap m) p = Some l" using last_node_seg s p by simp
  moreover have "seg ((m_heap m)(l \<mapsto> n\<lparr>n_next := Some a\<rparr>)) None (Some p) (ys @ [l]) (Some a)"
    using seg_set_next [OF s d(1) n, of "Some a"] p by simp
  then have "seg ((m_heap m)(l \<mapsto> n\<lparr>n_next := Some a\<rparr>, a \<mapsto> j)) None (Some p) (ys @ [l]) (Some a)" for j
    by (subst seg_upd) (use d in auto)
  ultimately show ?thesis using p n d snoc
    by (auto simp: htxd_allocate_ecg_info_def at_node_def seg_append [of _ _ _ "ys @ [l]"] end_of_def simp del: append_assoc)
qed

lemma attach_manages:
  assumes "manages m xs" "a \<notin> set xs"
  shows "\<exists>m'. attach_ecg new a m = Some m' \<and> manages m' (xs @ [a])"
proof -
  obtain m' where "htxd_allocate_ecg_info a (new a) m = Some m'" "seg (m_heap m') None (m_list m') (xs @ [a]) None"
    "m_length m' = m_length m" using allocate_manages [OF assms, of "new a"] by blast
  then show ?thesis using assms by (auto simp: attach_ecg_def manages_def)
qed

lemma remove_manages:
  assumes "manages m xs" "a \<in> set xs"
  shows "\<exists>m'. htxd_remove_ecg_info_node a m = Some m' \<and> manages m' (remove1 a xs)"
proof -
  obtain ys zs where xs: "xs = ys @ a # zs" "a \<notin> set ys" using assms(2) by (meson split_list_first)
  have d: "distinct (ys @ a # zs)" and len: "m_length m = int (length ys + length zs) + 1"
    using assms(1) xs by (simp_all add: manages_def)
  have r: "remove1 a xs = ys @ zs" using xs by (simp add: remove1_append)
  obtain n q where s: "seg (m_heap m) None (m_list m) ys (Some a)" "m_heap m a = Some n"
      "n_prev n = end_of None ys" "n_next n = q" "seg (m_heap m) (Some a) q zs None"
    using assms(1) xs by (auto simp: manages_def seg_append split: option.splits)
  consider "ys = []" "zs = []" | b zs' where "ys = []" "zs = b # zs'" | ys' l where "ys = ys' @ [l]" "zs = []"
    | ys' l b zs' where "ys = ys' @ [l]" "zs = b # zs'"
    by (metis list.exhaust rev_exhaust)
  then show ?thesis
  proof cases
    case 1
    then show ?thesis using len r by (simp add: htxd_remove_ecg_info_node_def manages_def)
  next
    case 2
    then obtain x where x: "m_heap m b = Some x" "q = Some b" using s(5) by (auto split: option.splits)
    have "seg ((m_heap m)(b \<mapsto> x\<lparr>n_prev := None\<rparr>)) None q zs None"
      using seg_set_prev [of "m_heap m" _ _ b zs'] s(5) d x 2 by simp
    then show ?thesis using 2 s x len r d
      by (auto simp: htxd_remove_ecg_info_node_def manages_def at_node_def)
  next
    case 3
    then obtain x where x: "m_heap m l = Some x" using seg_node [OF s(1)] by auto
    have "seg ((m_heap m)(l \<mapsto> x\<lparr>n_next := None\<rparr>)) None (m_list m) ys None"
      using seg_set_next [of "m_heap m" _ _ ys' l] s(1) d x 3 by auto
    then show ?thesis using 3 s x len r d
      by (auto simp: htxd_remove_ecg_info_node_def manages_def at_node_def end_of_def)
  next
    case 4
    then obtain x where x: "m_heap m l = Some x" using seg_node [OF s(1)] by auto
    obtain y where y: "m_heap m b = Some y" "q = Some b" using s(5) 4 by (auto split: option.splits)
    let ?h = "(m_heap m)(l \<mapsto> x\<lparr>n_next := q\<rparr>)"
    have n: "l \<noteq> b" "l \<notin> set zs" "b \<notin> set ys" using d 4 by auto
    have "seg ?h None (m_list m) ys q"
      using seg_set_next [of "m_heap m" _ _ ys' l] s(1) d x 4 by auto
    then have "seg (?h(b \<mapsto> y\<lparr>n_prev := Some l\<rparr>)) None (m_list m) ys q" using n by (subst seg_upd) auto
    moreover have "seg ?h (Some a) q zs None" using s(5) n by (subst seg_upd) auto
    then have "seg (?h(b \<mapsto> y\<lparr>n_prev := Some l\<rparr>)) (end_of None ys) q zs None"
      using seg_set_prev [of ?h "Some a" q b zs' None y "Some l"] d y n 4 by (auto simp: end_of_def)
    ultimately have "seg (?h(b \<mapsto> y\<lparr>n_prev := Some l\<rparr>)) None (m_list m) (ys @ zs) None"
      by (rule seg_appendI)
    then show ?thesis using 4 s x y n len r d
      by (auto simp: htxd_remove_ecg_info_node_def manages_def at_node_def end_of_def)
  qed
qed

interpretation ecgs: node_list manages "attach_ecg new" htxd_remove_ecg_info_node for new
  by unfold_locales (blast intro: attach_manages remove_manages)+

subsection \<open>The list over its life\<close>

definition name_at :: "node_heap \<Rightarrow> nat \<Rightarrow> string" where
  "name_at h a = (case h a of None \<Rightarrow> [] | Some n \<Rightarrow> ei_name (n_info n))"

lemma name_list_seg:
  "seg h prev p xs None \<Longrightarrow> name_list h p acc = Some (acc @ concat (map (\<lambda>a. name_at h a @ [NL]) xs))"
proof (induction xs arbitrary: prev p acc)
  case Nil
  then show ?case by (subst name_list.simps) simp
next
  case (Cons a xs)
  then obtain n where n: "p = Some a" "h a = Some n" "seg h (Some a) (n_next n) xs None" by (auto split: option.splits)
  then show ?case using Cons.IH [OF n(3)] by (subst name_list.simps) (simp add: name_at_def)
qed

lemma comma_list_seg:
  "seg h prev p xs None \<Longrightarrow> comma_list h p acc = Some (acc @ concat (map (\<lambda>a. name_at h a @ '', '') xs))"
proof (induction xs arbitrary: prev p acc)
  case Nil
  then show ?case by (subst comma_list.simps) simp
next
  case (Cons a xs)
  then obtain n where n: "p = Some a" "h a = Some n" "seg h (Some a) (n_next n) xs None" by (auto split: option.splits)
  then show ?case using Cons.IH [OF n(3)] by (subst comma_list.simps) (simp add: name_at_def)
qed

lemma manages_init: "manages (htxd_init_ecg_manager h) []"
  by (simp add: manages_def htxd_init_ecg_manager_def)

fun comma_separated :: "string list \<Rightarrow> string" where
  "comma_separated [] = []"
| "comma_separated [x] = x"
| "comma_separated (x # xs) = x @ '', '' @ comma_separated xs"

lemma comma_separated_butlast:
  "take (length (concat (map (\<lambda>x. x @ '', '') xs)) - 2) (concat (map (\<lambda>x. x @ '', '') xs)) = comma_separated xs"
proof (induction xs rule: comma_separated.induct)
  case (3 x y ys)
  let ?c = "concat (map (\<lambda>x. x @ '', '') (y # ys))"
  have "2 \<le> length ?c" by simp
  then have "take (length (x @ '', '' @ ?c) - 2) (x @ '', '' @ ?c) = x @ '', '' @ take (length ?c - 2) ?c" by simp
  then show ?case using 3 by (simp only: list.map concat.simps append_assoc comma_separated.simps)
qed simp_all

text \<open>C16: Any sequence of loading ECGs at fresh addresses and removing loaded ones runs without touching a null or
  dangling pointer, and afterwards the linked list, its back links and its length are exactly those of the abstract
  list; a lookup gives the first node of that name, and the two name lists name the loaded ECGs in order.\<close>

theorem ecg_list_refines:
  assumes "ops_ok ps []"
  shows "\<exists>m. run_ops (attach_ecg new) htxd_remove_ecg_info_node ps (htxd_init_ecg_manager h) = Some m \<and>
    (let xs = fold abs_op ps []
     in manages m xs \<and>
        (\<forall>name. htxd_get_ecg_info_node m name =
           Some (find (\<lambda>a. map_option (ei_name \<circ> n_info) (m_heap m a) = Some name) xs)) \<and>
        htxd_get_active_ecg_name_list m = Some (concat (map (\<lambda>a. name_at (m_heap m) a @ [NL]) xs)) \<and>
        htxd_get_running_ecg_list m = Some (comma_separated (map (name_at (m_heap m)) xs)))"
proof -
  obtain m where m: "run_ops (attach_ecg new) htxd_remove_ecg_info_node ps (htxd_init_ecg_manager h) = Some m"
    "manages m (fold abs_op ps [])"
    using ecgs.run_refines [OF manages_init assms] by blast
  let ?xs = "fold abs_op ps []"
  have s: "seg (m_heap m) None (m_list m) ?xs None" using m(2) by (simp add: manages_def)
  have "concat (map (\<lambda>a. name_at (m_heap m) a @ '', '') ?xs) = concat (map (\<lambda>x. x @ '', '') (map (name_at (m_heap m)) ?xs))"
    by (simp add: comp_def)
  then have "htxd_get_running_ecg_list m = Some (comma_separated (map (name_at (m_heap m)) ?xs))"
    using comma_list_seg [OF s, of "[]"] comma_separated_butlast [of "map (name_at (m_heap m)) ?xs"]
    by (cases "concat (map (\<lambda>x. x @ '', '') (map (name_at (m_heap m)) ?xs)) = []")
      (auto simp: htxd_get_running_ecg_list_def)
  then show ?thesis using m find_node_seg [OF s] name_list_seg [OF s, of "[]"]
    by (auto simp: Let_def htxd_get_ecg_info_node_def htxd_get_active_ecg_name_list_def)
qed

theorem ecg_list_refines_witness:
  "\<forall>new. \<exists>m. run_ops (attach_ecg new) htxd_remove_ecg_info_node [Add 1, Add 2, Add 3, Del 2, Add 2]
     (htxd_init_ecg_manager (\<lambda>_. None)) = Some m \<and> manages m [1, 3, 2]"
  using ecg_list_refines [of "[Add 1, Add 2, Add 3, Del 2, Add 2]" _ "\<lambda>_. None"] by (fastforce simp: Let_def)

end
