(* ===== verification/Htxd_Command.thy ===== *)
theory Htxd_Command
  imports Htx_Prelude
begin

text \<open>
  The protocol between \<open>htxcmdline\<close> and htxd: the table of commands (\<open>htxd_common.h\<close>), the arguments of the client
  (\<open>htxcmd_parse_command.c\<close>), the command string it sends and the response it reads (\<open>htxcmd_socket.c\<close>), and the
  daemon's side (\<open>htxd_socket.c\<close>, \<open>htxd_update_command_object\<close> of \<open>htxd_instance.c\<close>,
  \<open>htxd_verify_command_buffer_format\<close> of \<open>htxd_daemon.c\<close>).

  A connection is the list of the pieces in which the bytes arrive. A text that does not fit the array it is copied to is
  a fault. Where the client prints its usage and exits, the result is \<open>Inl\<close> with the first line printed.
\<close>

subsection \<open>The table of commands\<close>

abbreviation (input) IDLE :: nat where "IDLE \<equiv> 1"
abbreviation (input) CREATING_MDT :: nat where "CREATING_MDT \<equiv> 2"
abbreviation (input) SELECTING_MDT :: nat where "SELECTING_MDT \<equiv> 4"
abbreviation (input) SELECTED_MDT :: nat where "SELECTED_MDT \<equiv> 8"
abbreviation (input) STARTING_MDT :: nat where "STARTING_MDT \<equiv> 16"
abbreviation (input) RUNNING_MDT :: nat where "RUNNING_MDT \<equiv> 32"
abbreviation (input) SHUTTING_DOWN_MDT :: nat where "SHUTTING_DOWN_MDT \<equiv> 64"

text \<open>The states in which a command is admitted, as bit masks.\<close>

abbreviation (input) SELECTED_RUNNING :: nat where "SELECTED_RUNNING \<equiv> 40"
abbreviation (input) IDLE_SELECTED_RUNNING :: nat where "IDLE_SELECTED_RUNNING \<equiv> 41"
abbreviation (input) IDLE_SELECTED :: nat where "IDLE_SELECTED \<equiv> 9"
abbreviation (input) STATE_ALL :: nat where "STATE_ALL \<equiv> 127"

abbreviation (input) HTXCMDLINE_COMMAND :: nat where "HTXCMDLINE_COMMAND \<equiv> 1"
abbreviation (input) HTXSCREEN_COMMAND :: nat where "HTXSCREEN_COMMAND \<equiv> 2"

record option_entry =
  option_string :: string
  parameter_flag :: bool
  running_ecg_display_flag :: bool
  command_type :: nat
  command_state :: nat

definition opt :: "string \<Rightarrow> bool \<Rightarrow> bool \<Rightarrow> nat \<Rightarrow> nat \<Rightarrow> option_entry" where
  "opt s p d t st = \<lparr>option_string = s, parameter_flag = p, running_ecg_display_flag = d, command_type = t,
     command_state = st\<rparr>"

definition option_list :: "option_entry list" where
  "option_list =
     [opt ''-createmdt'' False False HTXCMDLINE_COMMAND IDLE,
      opt ''-listmdt'' False False HTXCMDLINE_COMMAND STATE_ALL,
      opt ''-run'' True False HTXCMDLINE_COMMAND IDLE_SELECTED,
      opt ''-getactecg'' False True HTXCMDLINE_COMMAND SELECTED_RUNNING,
      opt ''-shutdown'' True False HTXCMDLINE_COMMAND SELECTED_RUNNING,
      opt ''-refresh'' False True HTXCMDLINE_COMMAND IDLE,
      opt ''-activate'' True True HTXCMDLINE_COMMAND SELECTED_RUNNING,
      opt ''-suspend'' True True HTXCMDLINE_COMMAND SELECTED_RUNNING,
      opt ''-terminate'' True True HTXCMDLINE_COMMAND RUNNING_MDT,
      opt ''-restart'' True True HTXCMDLINE_COMMAND RUNNING_MDT,
      opt ''-coe'' True True HTXCMDLINE_COMMAND SELECTED_RUNNING,
      opt ''-soe'' True True HTXCMDLINE_COMMAND SELECTED_RUNNING,
      opt ''-status'' True True HTXCMDLINE_COMMAND SELECTED_RUNNING,
      opt ''-getstats'' True True HTXCMDLINE_COMMAND RUNNING_MDT,
      opt ''-geterrlog'' False True HTXCMDLINE_COMMAND STATE_ALL,
      opt ''-clrerrlog'' False True HTXCMDLINE_COMMAND STATE_ALL,
      opt ''-cmd'' True True HTXCMDLINE_COMMAND STATE_ALL,
      opt ''-set_eeh'' True False HTXCMDLINE_COMMAND IDLE_SELECTED_RUNNING,
      opt ''-set_kdblevel'' True False HTXCMDLINE_COMMAND IDLE_SELECTED_RUNNING,
      opt ''-set_hxecom'' True False HTXCMDLINE_COMMAND IDLE_SELECTED_RUNNING,
      opt ''-getvpd'' False True HTXCMDLINE_COMMAND STATE_ALL,
      opt ''-getecgsum'' True True HTXCMDLINE_COMMAND RUNNING_MDT,
      opt ''-getecglist'' False True HTXCMDLINE_COMMAND STATE_ALL,
      opt ''-select'' True False HTXCMDLINE_COMMAND IDLE,
      opt ''-exersetupinfo'' True True HTXCMDLINE_COMMAND RUNNING_MDT,
      opt ''-bootme'' True True HTXCMDLINE_COMMAND STATE_ALL,
      opt ''-query'' True True HTXCMDLINE_COMMAND SELECTED_RUNNING,
      opt ''-screen_2'' True False HTXSCREEN_COMMAND STATE_ALL,
      opt ''-screen_4'' True False HTXSCREEN_COMMAND STATE_ALL,
      opt ''-screen_5'' True False HTXSCREEN_COMMAND STATE_ALL,
      opt ''-get_file'' True False HTXCMDLINE_COMMAND STATE_ALL,
      opt ''-get_daemon_state'' True False HTXSCREEN_COMMAND STATE_ALL,
      opt ''-coe_soe'' True False HTXSCREEN_COMMAND SELECTED_RUNNING,
      opt ''-activate_halt'' True False HTXSCREEN_COMMAND SELECTED_RUNNING,
      opt ''-device_count'' True False HTXSCREEN_COMMAND STATE_ALL,
      opt ''-test_activate_halt'' False False HTXSCREEN_COMMAND STATE_ALL,
      opt ''-config_net'' True False HTXSCREEN_COMMAND STATE_ALL,
      opt ''-append_net_mdt'' True False HTXSCREEN_COMMAND STATE_ALL,
      opt ''-test_net'' False False HTXSCREEN_COMMAND STATE_ALL,
      opt ''-set_htx_env'' True False HTXCMDLINE_COMMAND STATE_ALL,
      opt ''-get_htx_env'' True False HTXCMDLINE_COMMAND STATE_ALL,
      opt ''-get_run_time'' True True HTXCMDLINE_COMMAND RUNNING_MDT,
      opt ''-get_last_update_time'' True True HTXCMDLINE_COMMAND RUNNING_MDT,
      opt ''-get_fail_status'' True True HTXCMDLINE_COMMAND RUNNING_MDT,
      opt ''-get_dev_cycles'' True True HTXCMDLINE_COMMAND RUNNING_MDT]"

definition fits :: "nat \<Rightarrow> string \<Rightarrow> string fault" where
  "fits sz s = (if length s < sz then Some s else None)"

lemma fits_Some [simp]: "fits sz s = Some t \<longleftrightarrow> length s < sz \<and> t = s"
  by (auto simp: fits_def)

subsection \<open>The arguments of the client\<close>

type_synonym 'a outcome = "(string + 'a) fault"

abbreviation (input) MAX_SUT_HOSTNAME_LENGTH :: nat where "MAX_SUT_HOSTNAME_LENGTH \<equiv> 256"
abbreviation (input) MAX_ECG_NAME_LENGTH :: nat where "MAX_ECG_NAME_LENGTH \<equiv> 512"
abbreviation (input) MAX_OPTION_LIST_LENGTH :: nat where "MAX_OPTION_LIST_LENGTH \<equiv> 512"
abbreviation (input) MAX_COMMAND_NAME_LENGTH :: nat where "MAX_COMMAND_NAME_LENGTH \<equiv> 50"

record htxcmd_command =
  sut_hostname :: string
  daemon_port_number :: int
  command_name :: string
  command_index :: int
  cmd_ecg_name :: string
  option_flag :: bool
  cmd_option_list :: string
  command_argument_vector_position :: int

definition initialize_command_object :: htxcmd_command where
  "initialize_command_object =
     \<lparr>sut_hostname = ''localhost'', daemon_port_number = 3492, command_name = [], command_index = - 1,
      cmd_ecg_name = [], option_flag = False, cmd_option_list = [], command_argument_vector_position = - 1\<rparr>"

text \<open>The first option whose name is a prefix of the argument.\<close>

fun option_match :: "string \<Rightarrow> option_entry list \<Rightarrow> nat \<Rightarrow> nat option" where
  "option_match name [] i = None"
| "option_match name (e # es) i =
     (if strncmp name (option_string e) (length (option_string e)) = 0 then Some i else option_match name es (Suc i))"

definition htxcmd_validate_command_name :: "htxcmd_command \<Rightarrow> htxcmd_command outcome" where
  "htxcmd_validate_command_name c =
     (let name = command_name c
      in if peek name \<noteq> CHR ''-'' then
           do { t \<leftarrow> fits 256 (''Error : provided option <'' @ name @ ''> is invalid''); Some (Inl t) }
         else case option_match name option_list 0 of
             Some i \<Rightarrow> Some (Inr (c\<lparr>command_index := int i,
               option_flag := (option_flag c \<or> parameter_flag (option_list ! i))\<rparr>))
           | None \<Rightarrow> do { t \<leftarrow> fits 256 (''Error : invalid command option <'' @ name @ ''> is provided''); Some (Inl t) })"

text \<open>The loops over the arguments after the program name.\<close>

fun htxcmd_get_sut_hostname :: "string list \<Rightarrow> string \<Rightarrow> string outcome" where
  "htxcmd_get_sut_hostname [] host = Some (Inr host)"
| "htxcmd_get_sut_hostname (a # as) host =
     (if strncmp ''-sut'' a 4 = 0 then
        (case as of
           [] \<Rightarrow> Some (Inl ''Error : SUT hostname not provided with option'')
         | b # _ \<Rightarrow>
             if MAX_SUT_HOSTNAME_LENGTH < length b
             then Some (Inl ''Error : SUT hostname exceeded maximum length limit value <256>'')
             else if peek b \<noteq> CHR ''-'' then do { b \<leftarrow> fits MAX_SUT_HOSTNAME_LENGTH b; Some (Inr b) }
             else Some (Inl ''Error : Invalid SUT hostname''))
      else htxcmd_get_sut_hostname as host)"

fun htxcmd_get_daemon_port_number :: "string list \<Rightarrow> int \<Rightarrow> int outcome" where
  "htxcmd_get_daemon_port_number [] port = Some (Inr port)"
| "htxcmd_get_daemon_port_number (a # as) port =
     (if strncmp ''-port'' a 5 = 0 then
        (case as of
           [] \<Rightarrow> Some (Inl ''Error : Invalid daemon port number'')
         | b # _ \<Rightarrow> if peek b \<noteq> CHR ''-'' then Some (Inr (atoi b))
                    else Some (Inl ''Error : Invalid daemon port number''))
      else htxcmd_get_daemon_port_number as port)"

fun name_loop :: "nat \<Rightarrow> string list \<Rightarrow> (string \<times> nat) option" where
  "name_loop pos [] = None"
| "name_loop pos (a # as) =
     (if a \<in> {''-sut'', ''-port'', ''-mdt'', ''-ecg''} then
        (case as of [] \<Rightarrow> None | b # bs \<Rightarrow> name_loop (pos + 2) bs)
      else Some (a, pos))"

definition htxcmd_get_command_name :: "string list \<Rightarrow> htxcmd_command \<Rightarrow> htxcmd_command outcome" where
  "htxcmd_get_command_name as c =
     (case name_loop 1 as of
        None \<Rightarrow> Some (Inl ''Error : no valid command option is provided'')
      | Some (a, pos) \<Rightarrow>
          do { a \<leftarrow> fits MAX_COMMAND_NAME_LENGTH a;
               htxcmd_validate_command_name (c\<lparr>command_name := a, command_argument_vector_position := int pos\<rparr>) })"

text \<open>A name of exactly the maximal length passes the test and overruns the array.\<close>

fun htxcmd_get_ecg_name :: "string list \<Rightarrow> string outcome" where
  "htxcmd_get_ecg_name [] = Some (Inr [])"
| "htxcmd_get_ecg_name (a # as) =
     (if strncmp ''-ecg'' a 4 = 0 \<or> strncmp ''-mdt'' a 4 = 0 then
        (case as of
           [] \<Rightarrow> Some (Inl ''Error : ECG name is not provided with <-ecg> option'')
         | b # _ \<Rightarrow>
             if MAX_ECG_NAME_LENGTH < length b
             then Some (Inl ''Error : provided ECG name exceeded maximum length limit value <256>'')
             else if peek b \<noteq> CHR ''-'' then do { b \<leftarrow> fits MAX_ECG_NAME_LENGTH b; Some (Inr b) }
             else Some (Inl ''Error : invalid ECG name is provided''))
      else htxcmd_get_ecg_name as)"

definition htxcmd_get_argument_list :: "string list \<Rightarrow> nat \<Rightarrow> string fault" where
  "htxcmd_get_argument_list as pos =
     do { t \<leftarrow> fits MAX_ECG_NAME_LENGTH
             (concat (map (\<lambda>a. a @ '' '') (takeWhile (\<lambda>a. peek a \<noteq> CHR ''-'') (drop pos as))));
          Some (butlast t) }"

text \<open>\<open>htxcmd_extract_command_details\<close>: the first error ends the program.\<close>

definition and_then :: "'a outcome \<Rightarrow> ('a \<Rightarrow> 'b outcome) \<Rightarrow> 'b outcome" where
  "and_then r f = (case r of None \<Rightarrow> None | Some (Inl e) \<Rightarrow> Some (Inl e) | Some (Inr x) \<Rightarrow> f x)"

definition htxcmd_extract_command_details :: "string list \<Rightarrow> htxcmd_command \<Rightarrow> htxcmd_command outcome" where
  "htxcmd_extract_command_details as c =
     and_then (htxcmd_get_sut_hostname as (sut_hostname c)) (\<lambda>host.
     and_then (htxcmd_get_daemon_port_number as (daemon_port_number c)) (\<lambda>port.
     and_then (htxcmd_get_command_name as (c\<lparr>sut_hostname := host, daemon_port_number := port\<rparr>)) (\<lambda>c.
       if option_flag c then
         and_then (htxcmd_get_ecg_name as) (\<lambda>ecg.
           do { l \<leftarrow> htxcmd_get_argument_list as (nat (command_argument_vector_position c));
                Some (Inr (c\<lparr>cmd_ecg_name := ecg, cmd_option_list := l\<rparr>)) })
       else Some (Inr c))))"

subsection \<open>Receiving bytes\<close>

text \<open>A piece is some bytes, or an error that \<open>recv\<close> reports. After the last piece the connection is closed.\<close>

datatype piece = Bytes string | Recv_Error

fun recv :: "nat \<Rightarrow> piece list \<Rightarrow> string option \<times> piece list" where
  "recv n [] = (Some [], [])"
| "recv n (Recv_Error # ps) = (None, ps)"
| "recv n (Bytes [] # ps) = recv n ps"
| "recv n (Bytes s # ps) = (Some (take n s), if n < length s then Bytes (drop n s) # ps else ps)"

function htxd_receive_bytes :: "nat \<Rightarrow> piece list \<Rightarrow> string option \<times> piece list" where
  "htxd_receive_bytes n ps =
     (if n = 0 then (Some [], ps)
      else case recv n ps of
          (None, ps') \<Rightarrow> (None, ps')
        | (Some [], ps') \<Rightarrow> (Some [], ps')
        | (Some (c # b), ps') \<Rightarrow>
            (case htxd_receive_bytes (n - length (c # b)) ps' of
               (None, ps'') \<Rightarrow> (None, ps'')
             | (Some r, ps'') \<Rightarrow> (Some (c # b @ r), ps'')))"
  by pat_completeness auto
termination
  by (relation "measure fst") auto

declare htxd_receive_bytes.simps [simp del]

subsection \<open>The command string\<close>

definition htxcmd_prepare_command_string :: "int \<Rightarrow> string \<Rightarrow> string \<Rightarrow> string" where
  "htxcmd_prepare_command_string index ecg options =
     (let t = '':'' @ fmt_010d index @ '':'' @ ecg @ '':'' @ options @ '':'' in fmt_010d (int (length t)) @ t)"

text \<open>The daemon reads the length and then so many bytes. A length below -10 makes \<open>malloc\<close> fail; one between -10 and
  -1, or one that overflows, leads outside the buffer.\<close>

definition htxd_receive_command :: "piece list \<Rightarrow> (cstring option \<times> piece list) fault" where
  "htxd_receive_command ps =
     (case htxd_receive_bytes 10 ps of
        (None, ps) \<Rightarrow> Some (None, ps)
      | (Some b, ps) \<Rightarrow>
          (let n = atoi (cstr b)
           in if n < - 10 then Some (None, ps)
              else if n < 0 \<or> 2 ^ 31 - 10 \<le> n then None
              else (case htxd_receive_bytes (nat n) ps of
                      (None, ps) \<Rightarrow> Some (None, ps)
                    | (Some b, ps) \<Rightarrow> Some (Some (cstr b), ps))))"

definition htxd_verify_command_buffer_format :: "cstring option \<Rightarrow> int" where
  "htxd_verify_command_buffer_format buf =
     (case buf of
        None \<Rightarrow> - 1
      | Some s \<Rightarrow> if length s = 0 then - 2 else if peek s \<noteq> CHR '':'' then - 3 else 0)"

text \<open>\<open>htxd_get_string_value\<close> does not stop at the end of the text; its target has 512 characters.\<close>

definition htxd_get_string_value :: "cstring \<Rightarrow> (string \<times> cstring) fault" where
  "htxd_get_string_value s =
     do { r \<leftarrow> strchr s (CHR '':'');
          v \<leftarrow> fits 512 (takeWhile (\<lambda>c. c \<noteq> CHR '':'') s);
          Some (v, tl r) }"

record htxd_command =
  c_index :: int
  c_ecg_name :: string
  c_option_list :: string

definition full_ecg_name :: "string \<Rightarrow> string \<Rightarrow> string" where
  "full_ecg_name home ecg = (if ecg \<noteq> [] \<and> strchr ecg (CHR ''/'') = None then home @ ''/mdt/'' @ ecg else ecg)"

definition htxd_update_command_object :: "string \<Rightarrow> cstring \<Rightarrow> htxd_command fault" where
  "htxd_update_command_object home s =
     do { (v, r) \<leftarrow> htxd_get_string_value (tl s);
          (ecg, r) \<leftarrow> htxd_get_string_value r;
          name \<leftarrow> fits MAX_ECG_NAME_LENGTH (full_ecg_name home ecg);
          options \<leftarrow> fits MAX_OPTION_LIST_LENGTH r;
          if options = [] then None
          else Some \<lparr>c_index = atoi v, c_ecg_name = name, c_option_list = butlast options\<rparr> }"

text \<open>The first half of \<open>htxd_command_thraead_handler\<close>: a command is given up when it cannot be read or is not in the
  format.\<close>

definition handler_command :: "string \<Rightarrow> piece list \<Rightarrow> (htxd_command option \<times> piece list) fault" where
  "handler_command home ps =
     do { (buf, ps) \<leftarrow> htxd_receive_command ps;
          case buf of
            None \<Rightarrow> Some (None, ps)
          | Some s \<Rightarrow>
              if htxd_verify_command_buffer_format buf \<noteq> 0 then Some (None, ps)
              else do { c \<leftarrow> htxd_update_command_object home s; Some (Some c, ps) } }"

subsection \<open>The response\<close>

text \<open>The text of a command line response, and that of a screen, which is always 10 KB of raw memory; \<open>past\<close> is what
  follows the result in memory.\<close>

definition htxd_send_response :: "nat \<Rightarrow> string \<Rightarrow> string \<Rightarrow> int \<Rightarrow> string" where
  "htxd_send_response ty past result rc =
     (if ty = HTXCMDLINE_COMMAND then fmt_010d rc @ fmt_010d (int (length result)) @ result
      else if ty = HTXSCREEN_COMMAND then fmt_010d rc @ fmt_010d 10240 @ take 10240 (result @ [NUL] @ past)
      else [])"

text \<open>The client exits when \<open>recv\<close> fails. A negative length is outside the buffer.\<close>

definition htxcmd_receive_response :: "piece list \<Rightarrow> ((int \<times> string) option \<times> piece list) fault" where
  "htxcmd_receive_response ps =
     (case htxd_receive_bytes 10 ps of
        (None, ps) \<Rightarrow> Some (None, ps)
      | (Some rc, ps) \<Rightarrow>
          (case htxd_receive_bytes 10 ps of
             (None, ps) \<Rightarrow> Some (None, ps)
           | (Some len, ps) \<Rightarrow>
               (let n = atoi (cstr len)
                in if n < 0 \<or> n = 2 ^ 31 - 1 then None
                   else (case htxd_receive_bytes (nat n) ps of
                           (None, ps) \<Rightarrow> Some (None, ps)
                         | (Some b, ps) \<Rightarrow> Some (Some (atoi (cstr rc), b), ps)))))"

subsection \<open>How the bytes arrive does not matter\<close>

text \<open>The bytes still to come on a connection without errors.\<close>

definition bytes :: "piece list \<Rightarrow> string" where
  "bytes ps = concat (map (\<lambda>p. case p of Bytes s \<Rightarrow> s | Recv_Error \<Rightarrow> []) ps)"

definition sound :: "piece list \<Rightarrow> bool" where
  "sound ps \<longleftrightarrow> Recv_Error \<notin> set ps"

lemma bytes_simps [simp]: "bytes [] = []" "bytes (Bytes s # ps) = s @ bytes ps"
  by (simp_all add: bytes_def)

lemma sound_simps [simp]: "sound []" "sound (Bytes s # ps) = sound ps" "\<not> sound (Recv_Error # ps)"
  by (simp_all add: sound_def)

lemma recv_sound:
  assumes "sound ps" "0 < n"
  shows "\<exists>b ps'. recv n ps = (Some b, ps') \<and> sound ps' \<and> b @ bytes ps' = bytes ps \<and> length b \<le> n \<and>
    (b = [] \<longrightarrow> bytes ps = [])"
  using assms(1)
proof (induction ps)
  case (Cons p ps)
  then show ?case using assms(2) by (cases "(n, p # ps)" rule: recv.cases) auto
qed simp

lemma receive_bytes_sound:
  assumes "sound ps"
  shows "\<exists>ps'. htxd_receive_bytes n ps = (Some (take n (bytes ps)), ps') \<and> sound ps' \<and> bytes ps' = drop n (bytes ps)"
  using assms
proof (induction n arbitrary: ps rule: less_induct)
  case (less n)
  show ?case
  proof (cases "n = 0")
    case True
    then show ?thesis using less.prems by (subst htxd_receive_bytes.simps) simp
  next
    case False
    then obtain b ps1 where b: "recv n ps = (Some b, ps1)" "sound ps1" "b @ bytes ps1 = bytes ps" "length b \<le> n"
      "b = [] \<longrightarrow> bytes ps = []" using recv_sound [OF less.prems, of n] by auto
    show ?thesis
    proof (cases b)
      case Nil
      then show ?thesis using b False by (subst htxd_receive_bytes.simps) auto
    next
      case (Cons c b')
      then obtain ps2 where "htxd_receive_bytes (n - length b) ps1 = (Some (take (n - length b) (bytes ps1)), ps2)"
        "sound ps2" "bytes ps2 = drop (n - length b) (bytes ps1)"
        using less.IH [of "n - length b" ps1] b(2) False by auto
      moreover have "take n (bytes ps) = b @ take (n - length b) (bytes ps1)" "drop n (bytes ps) = drop (n - length b) (bytes ps1)"
        using b(4) by (simp_all flip: b(3))
      ultimately show ?thesis using b(1) Cons False by (subst htxd_receive_bytes.simps) auto
    qed
  qed
qed

text \<open>A message format: what is sent for a message, and what a reader makes of the bytes that arrive.\<close>

locale framing =
  fixes enc :: "'m \<Rightarrow> string"
    and dec :: "piece list \<Rightarrow> ('r \<times> piece list) option"
    and ok :: "'m \<Rightarrow> bool"
    and meaning :: "'m \<Rightarrow> 'r"
  assumes dec_enc: "ok m \<Longrightarrow> sound ps \<Longrightarrow> bytes ps = enc m @ rest \<Longrightarrow>
    \<exists>ps'. dec ps = Some (meaning m, ps') \<and> sound ps' \<and> bytes ps' = rest"
begin

text \<open>Neither the pieces nor what follows on the connection changes what is read.\<close>

lemma pieces_irrelevant:
  assumes "ok m" "sound ps" "bytes ps = enc m @ rest" "sound qs" "bytes qs = enc m @ rest'"
  shows "map_option fst (dec ps) = map_option fst (dec qs)"
  using dec_enc [OF assms(1,2,3)] dec_enc [OF assms(1,4,5)] by auto

text \<open>Two messages that are sent as the same bytes mean the same.\<close>

lemma enc_unambiguous:
  assumes "ok m" "ok m'" "enc m = enc m'"
  shows "meaning m = meaning m'"
proof -
  have "\<exists>ps'. dec [Bytes (enc m)] = Some (meaning m, ps') \<and> sound ps' \<and> bytes ps' = []"
    by (rule dec_enc [OF assms(1)]) simp_all
  moreover have "\<exists>ps'. dec [Bytes (enc m)] = Some (meaning m', ps') \<and> sound ps' \<and> bytes ps' = []"
    by (rule dec_enc [OF assms(2)]) (simp_all add: assms(3))
  ultimately show ?thesis by auto
qed

text \<open>Messages sent one after the other are read one after the other.\<close>

lemma dec_sequence:
  assumes "\<forall>m\<in>set ms. ok m" "sound ps" "bytes ps = concat (map enc ms)"
  shows "\<exists>ps'. fold (\<lambda>_ r. do { (acc, ps) \<leftarrow> r; (x, ps) \<leftarrow> dec ps; Some (acc @ [x], ps) }) ms (Some (acc, ps)) =
    Some (acc @ map meaning ms, ps')"
  using assms
proof (induction ms arbitrary: ps acc)
  case (Cons m ms)
  obtain ps' where "dec ps = Some (meaning m, ps')" "sound ps'" "bytes ps' = concat (map enc ms)"
    using dec_enc [of m ps "concat (map enc ms)"] Cons.prems by auto
  then show ?case using Cons.IH [of ps' "acc @ [meaning m]"] Cons.prems by simp
qed simp

end

subsection \<open>Both directions of the connection\<close>

definition plain :: "string \<Rightarrow> bool" where
  "plain s \<longleftrightarrow> NUL \<notin> set s"

text \<open>A command that keeps within the limits of both programs.\<close>

fun command_ok :: "string \<Rightarrow> int \<times> string \<times> string \<Rightarrow> bool" where
  "command_ok home (index, ecg, options) \<longleftrightarrow>
     - (10 ^ 9) < index \<and> index < 2 ^ 31 \<and> plain ecg \<and> plain options \<and> CHR '':'' \<notin> set ecg \<and> length ecg < 512 \<and>
     length (full_ecg_name home ecg) < 512 \<and> length options < 511"

fun command_meaning :: "string \<Rightarrow> int \<times> string \<times> string \<Rightarrow> htxd_command option" where
  "command_meaning home (index, ecg, options) =
     Some \<lparr>c_index = index, c_ecg_name = full_ecg_name home ecg, c_option_list = options\<rparr>"

lemma cstr_plain: "plain s \<Longrightarrow> cstr s = s"
  by (auto simp: cstr_def plain_def takeWhile_eq_all_conv)

lemma plain_fmt: "plain (fmt_010d i)"
  using fmt_010d_chars [of NUL i] by (auto simp: plain_def ctype_simps)

lemma plain_append [simp]: "plain (s @ t) \<longleftrightarrow> plain s \<and> plain t" "plain [] " "plain (c # s) \<longleftrightarrow> c \<noteq> NUL \<and> plain s"
  by (auto simp: plain_def)

lemma atoi_cstr_fmt: "- (2 ^ 31) \<le> i \<Longrightarrow> i < 2 ^ 31 \<Longrightarrow> atoi (cstr (fmt_010d i)) = i"
  using atoi_fmt_010d [of i "[]"] by (simp add: cstr_plain plain_fmt peek_def ctype_simps)

lemma get_string_value:
  assumes "CHR '':'' \<notin> set v" "length v < 512"
  shows "htxd_get_string_value (v @ CHR '':'' # r) = Some (v, r)"
proof -
  have "takeWhile (\<lambda>c. c \<noteq> CHR '':'') (v @ CHR '':'' # r) = v \<and> dropWhile (\<lambda>c. c \<noteq> CHR '':'') (v @ CHR '':'' # r) = CHR '':'' # r"
    using assms(1) by (induction v) auto
  then show ?thesis using assms(2) by (simp add: htxd_get_string_value_def strchr_def fits_def)
qed

lemma update_command_object:
  assumes "command_ok home (index, ecg, options)"
  shows "htxd_update_command_object home ('':'' @ fmt_010d index @ '':'' @ ecg @ '':'' @ options @ '':'') =
    command_meaning home (index, ecg, options)"
proof -
  have "CHR '':'' \<notin> set (fmt_010d index)" using fmt_010d_chars [of "CHR '':''"] by (auto simp: ctype_simps)
  moreover have "length (fmt_010d index) = 10" using assms by (intro length_fmt_010d) auto
  moreover have "atoi (fmt_010d index) = index"
    using assms atoi_cstr_fmt [of index] by (simp add: cstr_plain plain_fmt)
  moreover have "fits 512 (full_ecg_name home ecg) = Some (full_ecg_name home ecg)"
    "fits 512 (options @ '':'') = Some (options @ '':'')" "CHR '':'' \<notin> set ecg" "length ecg < 512"
    using assms by simp_all
  ultimately show ?thesis by (simp add: htxd_update_command_object_def get_string_value del: fits_Some)
qed

lemma receive_text:
  assumes "sound ps" "bytes ps = t @ rest"
  shows "\<exists>ps'. htxd_receive_bytes (length t) ps = (Some t, ps') \<and> sound ps' \<and> bytes ps' = rest"
  using receive_bytes_sound [OF assms(1), of "length t"] assms(2) by simp

lemma receive_fmt:
  assumes "sound ps" "bytes ps = fmt_010d i @ rest" "- (10 ^ 9) < i" "i < 2 ^ 31"
  shows "\<exists>ps'. htxd_receive_bytes 10 ps = (Some (fmt_010d i), ps') \<and> sound ps' \<and> bytes ps' = rest"
  using receive_text [OF assms(1,2)] length_fmt_010d [of i] assms(3,4) by simp

lemma receive_command_reads:
  assumes "sound ps" "bytes ps = fmt_010d (int (length t)) @ t @ rest" "plain t" "length t < 2000"
  shows "\<exists>ps'. htxd_receive_command ps = Some (Some t, ps') \<and> sound ps' \<and> bytes ps' = rest"
proof -
  obtain ps1 where r1: "htxd_receive_bytes 10 ps = (Some (fmt_010d (int (length t))), ps1)" "sound ps1"
      "bytes ps1 = t @ rest"
    using receive_fmt [OF assms(1,2)] assms(4) by auto
  obtain ps2 where r2: "htxd_receive_bytes (length t) ps1 = (Some t, ps2)" "sound ps2" "bytes ps2 = rest"
    using receive_text [OF r1(2,3)] by auto
  have "atoi (cstr (fmt_010d (int (length t)))) = int (length t)" using assms(4) by (intro atoi_cstr_fmt) auto
  then show ?thesis using r1(1) r2 assms(3,4) by (simp add: htxd_receive_command_def cstr_plain)
qed

lemma handler_command_reads:
  assumes "command_ok home m" "sound ps"
    and "bytes ps = (case m of (index, ecg, options) \<Rightarrow> htxcmd_prepare_command_string index ecg options) @ rest"
  shows "\<exists>ps'. handler_command home ps = Some (command_meaning home m, ps') \<and> sound ps' \<and> bytes ps' = rest"
proof -
  obtain index ecg options where m: "m = (index, ecg, options)" by (cases m)
  define t where "t = '':'' @ fmt_010d index @ '':'' @ ecg @ '':'' @ options @ '':''"
  have "length (fmt_010d index) = 10" using assms(1) m by (intro length_fmt_010d) auto
  then have "length t < 2000" "plain t" "peek t = CHR '':''" "t \<noteq> []"
    using assms(1) m by (simp_all add: t_def plain_fmt peek_def)
  moreover have "bytes ps = fmt_010d (int (length t)) @ t @ rest"
    using assms(3) m by (simp add: htxcmd_prepare_command_string_def Let_def t_def)
  moreover have "htxd_update_command_object home t = command_meaning home m"
    using update_command_object [of home index ecg options] assms(1) m by (simp only: t_def)
  ultimately show ?thesis using receive_command_reads [OF assms(2), of t rest] m
    by (auto simp: handler_command_def htxd_verify_command_buffer_format_def)
qed

interpretation commands: framing "\<lambda>(index, ecg, options). htxcmd_prepare_command_string index ecg options"
    "handler_command home" "command_ok home" "command_meaning home" for home
  by unfold_locales (rule handler_command_reads)

fun response_ok :: "int \<times> string \<Rightarrow> bool" where
  "response_ok (rc, result) \<longleftrightarrow> - (10 ^ 9) < rc \<and> rc < 2 ^ 31 \<and> int (length result) < 2 ^ 31 - 1"

lemma receive_response_reads:
  assumes "response_ok m" "sound ps"
    and "bytes ps = (case m of (rc, result) \<Rightarrow> htxd_send_response HTXCMDLINE_COMMAND past result rc) @ rest"
  shows "\<exists>ps'. htxcmd_receive_response ps = Some (Some m, ps') \<and> sound ps' \<and> bytes ps' = rest"
proof -
  obtain rc result where m: "m = (rc, result)" by (cases m)
  let ?n = "int (length result)"
  obtain ps1 where r1: "htxd_receive_bytes 10 ps = (Some (fmt_010d rc), ps1)" "sound ps1"
      "bytes ps1 = fmt_010d ?n @ result @ rest"
    using receive_fmt [OF assms(2), of rc "fmt_010d ?n @ result @ rest"] assms(1,3) m
    by (auto simp: htxd_send_response_def)
  obtain ps2 where r2: "htxd_receive_bytes 10 ps1 = (Some (fmt_010d ?n), ps2)" "sound ps2" "bytes ps2 = result @ rest"
    using receive_fmt [OF r1(2,3)] assms(1) m by auto
  obtain ps3 where r3: "htxd_receive_bytes (length result) ps2 = (Some result, ps3)" "sound ps3" "bytes ps3 = rest"
    using receive_text [OF r2(2,3)] by auto
  have "atoi (cstr (fmt_010d ?n)) = ?n" "atoi (cstr (fmt_010d rc)) = rc"
    using assms(1) m by (auto intro!: atoi_cstr_fmt)
  then show ?thesis using r1(1) r2(1) r3 assms(1) m by (simp add: htxcmd_receive_response_def)
qed

interpretation responses: framing "\<lambda>(rc, result). htxd_send_response HTXCMDLINE_COMMAND past result rc"
    htxcmd_receive_response response_ok Some for past
  by unfold_locales (rule receive_response_reads)

subsection \<open>From the command line to the daemon\<close>

definition own_number :: "nat \<Rightarrow> nat" where
  "own_number i = (if i = 32 then 10 else if i = 33 then 6 else i)"

lemma option_match_table:
  "list_all (\<lambda>i. option_match (option_string (option_list ! i)) option_list 0 = Some (own_number i))
     [0..<length option_list]"
  by code_simp

lemma option_names:
  "list_all (\<lambda>e. let n = option_string e
     in peek n = CHR ''-'' \<and> length n < 50 \<and> n \<notin> {''-sut'', ''-port'', ''-mdt'', ''-ecg''} \<and> strncmp ''-sut'' n 4 \<noteq> 0 \<and>
        strncmp ''-port'' n 5 \<noteq> 0 \<and> strncmp ''-ecg'' n 4 \<noteq> 0 \<and> strncmp ''-mdt'' n 4 \<noteq> 0) option_list"
  by code_simp

text \<open>Given by its own name, every command is found under its own number, but for the two screen commands
  \<open>-coe_soe\<close> and \<open>-activate_halt\<close>: their names start with those of \<open>-coe\<close> and \<open>-activate\<close>, which come first in the
  table, so the command line runs these instead.\<close>

theorem command_by_name:
  "\<forall>i<length option_list. option_match (option_string (option_list ! i)) option_list 0 =
     Some (if i = 32 then 10 else if i = 33 then 6 else i)"
  using option_match_table by (simp add: list_all_iff own_number_def)

theorem command_by_name_witness:
  "option_match ''-coe_soe'' option_list 0 = Some 10 \<and> option_match ''-shutdown'' option_list 0 = Some 4"
  using command_by_name [THEN spec [of _ 32]] command_by_name [THEN spec [of _ 4]]
  by (simp add: option_list_def opt_def)

lemma no_option: "peek d \<noteq> CHR ''-'' \<Longrightarrow> 0 < n \<Longrightarrow> strncmp (CHR ''-'' # s) d n \<noteq> 0"
  by (cases d; cases n) (auto simp: strncmp_eq_0 peek_def)

lemma hostname_default:
  "\<forall>a\<in>set as. strncmp ''-sut'' a 4 \<noteq> 0 \<Longrightarrow> htxcmd_get_sut_hostname as host = Some (Inr host)"
  by (induction as) auto

lemma port_default:
  "\<forall>a\<in>set as. strncmp ''-port'' a 5 \<noteq> 0 \<Longrightarrow> htxcmd_get_daemon_port_number as port = Some (Inr port)"
  by (induction as) auto

lemma ecg_name_after:
  assumes "\<forall>a\<in>set as. strncmp ''-ecg'' a 4 \<noteq> 0 \<and> strncmp ''-mdt'' a 4 \<noteq> 0" "peek mdt \<noteq> CHR ''-''" "length mdt < 512"
  shows "htxcmd_get_ecg_name (as @ [''-mdt'', mdt]) = Some (Inr mdt)"
  using assms(1)
proof (induction as)
  case Nil
  then show ?case using assms(2,3) by (simp add: strncmp_eq_0 fits_def)
qed auto

lemma command_name_first:
  assumes "i < length option_list" "parameter_flag (option_list ! i)"
  shows "htxcmd_get_command_name (option_string (option_list ! i) # as) c =
    Some (Inr (c\<lparr>command_name := option_string (option_list ! i), command_argument_vector_position := 1,
                 command_index := int (own_number i), option_flag := True\<rparr>))"
proof -
  let ?n = "option_string (option_list ! i)"
  have "peek ?n = CHR ''-''" "length ?n < 50" "?n \<notin> {''-sut'', ''-port'', ''-mdt'', ''-ecg''}"
    using option_names assms(1) by (auto simp: list_all_length Let_def)
  moreover have "option_match ?n option_list 0 = Some (own_number i)"
    using option_match_table assms(1) by (simp add: list_all_iff)
  moreover have "parameter_flag (option_list ! 6)" "parameter_flag (option_list ! 10)"
    by (simp_all add: option_list_def opt_def)
  then have "parameter_flag (option_list ! own_number i)" using assms(2) by (simp add: own_number_def)
  ultimately show ?thesis
    by (simp add: htxcmd_get_command_name_def htxcmd_validate_command_name_def fits_def Let_def)
qed

lemma takeWhile_devs:
  "\<forall>d\<in>set devs. peek d \<noteq> CHR ''-'' \<Longrightarrow> takeWhile (\<lambda>a. peek a \<noteq> CHR ''-'') (devs @ [''-mdt'', mdt]) = devs"
  by (induction devs) (simp_all add: peek_def)

text \<open>A command with parameters, its devices and its MDT, given on the command line of the client in the usual order,
  arrives in the daemon as the number of that command, the full name of the MDT and the list of the devices separated by
  blanks, in whatever pieces the bytes arrive.\<close>

lemma command_line_reaches_daemon:
  assumes "i < length option_list" "i \<notin> {32, 33}" "parameter_flag (option_list ! i)"
    and "\<forall>d\<in>set devs. plain d \<and> peek d \<noteq> CHR ''-''" "plain mdt" "peek mdt \<noteq> CHR ''-''" "CHR '':'' \<notin> set mdt"
    and "length (full_ecg_name home mdt) < 512" "length mdt < 512" "length (concat (map (\<lambda>d. d @ '' '') devs)) < 511"
  shows "\<exists>c. htxcmd_extract_command_details (option_string (option_list ! i) # devs @ [''-mdt'', mdt])
      initialize_command_object = Some (Inr c) \<and>
    (\<forall>ps. sound ps \<and> bytes ps = htxcmd_prepare_command_string (command_index c) (cmd_ecg_name c) (cmd_option_list c) \<longrightarrow>
       (\<exists>ps'. handler_command home ps =
          Some (Some \<lparr>c_index = int i, c_ecg_name = full_ecg_name home mdt,
                      c_option_list = butlast (concat (map (\<lambda>d. d @ '' '') devs))\<rparr>, ps')))"
proof -
  let ?n = "option_string (option_list ! i)" and ?l = "concat (map (\<lambda>d. d @ '' '') devs)"
  let ?c = "initialize_command_object\<lparr>command_name := ?n, command_argument_vector_position := 1, command_index := int i,
     option_flag := True, cmd_ecg_name := mdt, cmd_option_list := butlast ?l\<rparr>"
  have n: "strncmp ''-sut'' ?n 4 \<noteq> 0" "strncmp ''-port'' ?n 5 \<noteq> 0" "strncmp ''-ecg'' ?n 4 \<noteq> 0" "strncmp ''-mdt'' ?n 4 \<noteq> 0"
    using option_names assms(1) by (auto simp: list_all_length Let_def)
  have h: "htxcmd_get_sut_hostname (?n # devs @ [''-mdt'', mdt]) host = Some (Inr host)" for host
    using n no_option assms(4,6) by (intro hostname_default) (auto simp: strncmp_eq_0 [of _ "''-mdt''"])
  have p: "htxcmd_get_daemon_port_number (?n # devs @ [''-mdt'', mdt]) port = Some (Inr port)" for port
    using n no_option assms(4,6) by (intro port_default) (auto simp: strncmp_eq_0 [of _ "''-mdt''"])
  have e: "htxcmd_get_ecg_name (?n # devs @ [''-mdt'', mdt]) = Some (Inr mdt)"
    using ecg_name_after [of "?n # devs" mdt] n no_option assms(4,6,9) by auto
  have l: "htxcmd_get_argument_list (?n # devs @ [''-mdt'', mdt]) 1 = Some (butlast ?l)"
    using assms(4,10) by (simp add: htxcmd_get_argument_list_def takeWhile_devs fits_def)
  have o: "own_number i = i" using assms(2) by (simp add: own_number_def)
  have "htxcmd_extract_command_details (?n # devs @ [''-mdt'', mdt]) initialize_command_object = Some (Inr ?c)"
    using l by (simp add: htxcmd_extract_command_details_def and_then_def h p e o command_name_first [OF assms(1,3)]
        initialize_command_object_def del: htxcmd_get_sut_hostname.simps htxcmd_get_daemon_port_number.simps
        htxcmd_get_ecg_name.simps)
  moreover have "plain ?l" using assms(4) by (induction devs) auto
  then have "plain (butlast ?l)" by (auto simp: plain_def dest: in_set_butlastD)
  moreover have "length option_list = 45" by (simp add: option_list_def)
  ultimately have "command_ok home (int i, mdt, butlast ?l)" using assms by auto
  then show ?thesis
    using \<open>htxcmd_extract_command_details _ _ = _\<close> commands.dec_enc [of home "(int i, mdt, butlast ?l)" _ "[]"]
    by (intro exI [of _ ?c]) auto
qed

lemma command_line_example:
  "\<exists>c. htxcmd_extract_command_details [''-suspend'', ''mem0'', ''fpu1'', ''-mdt'', ''mdt.bu''] initialize_command_object =
     Some (Inr c) \<and>
   (\<forall>ps. sound ps \<and> bytes ps = htxcmd_prepare_command_string (command_index c) (cmd_ecg_name c) (cmd_option_list c) \<longrightarrow>
      (\<exists>ps'. handler_command ''/usr/lpp/htx'' ps =
         Some (Some \<lparr>c_index = 7, c_ecg_name = ''/usr/lpp/htx/mdt/mdt.bu'', c_option_list = ''mem0 fpu1''\<rparr>, ps')))"
proof -
  have o: "option_list ! 7 = opt ''-suspend'' True True 1 40" "length option_list = 45"
    by (simp_all add: option_list_def)
  show ?thesis
    using command_line_reaches_daemon [of 7 "[''mem0'', ''fpu1'']" "''mdt.bu''" "''/usr/lpp/htx''"]
    by (simp add: o opt_def plain_def peek_def full_ecg_name_def strchr_def)
qed

lemma response_round_trip:
  assumes "sound ps" "bytes ps = htxd_send_response HTXCMDLINE_COMMAND past result rc"
    and "- (10 ^ 9) < rc" "rc < 2 ^ 31" "int (length result) < 2 ^ 31 - 1"
  shows "\<exists>ps'. htxcmd_receive_response ps = Some (Some (rc, result), ps') \<and> bytes ps' = []"
  using responses.dec_enc [of "(rc, result)" ps past "[]"] assms by auto

end
