(* ===== verification/Htxd_Mdt.thy ===== *)
theory Htxd_Mdt
  imports Htxd_List Htxd_Command
begin

text \<open>
  The life of an MDT (an ECG that a user runs) in htxd: loading it (\<open>htxd_init_ecg_info\<close> of \<open>htxd_ecg.c\<close>), starting its
  exercisers, the commands run, select and shutdown (\<open>htxd_option_method_run_mdt.c\<close>,
  \<open>htxd_option_method_shutdown_mdt.c\<close>), going idle (\<open>htxd_daemon.c\<close>), and the end of an exerciser
  (\<open>htxd_instance.c\<close>).

  What the system answers (process ids, the file, the outcome of the system calls) is in the record \<open>sys\<close>. Messages to
  the log, traces, shell scripts and processor binding are left out. The code that waits for other processes is modelled
  by its outcome: the wait ends only when they are gone.
\<close>

subsection \<open>What the system answers\<close>

record sys =
  y_home :: string
  y_exists :: bool
  y_file :: "string option"
  y_junk :: "nat \<Rightarrow> cstring"
  y_addr :: nat
  y_node :: ecg_node
  y_sem_id :: int
  y_old_sems :: sems
  y_shm_ok :: bool
  y_max_add :: nat
  y_cap :: nat
  y_time :: int
  y_fork :: "nat \<Rightarrow> int"
  y_msg_pid :: int
  y_stats_pid :: int
  y_eq_pid :: int
  y_syscfg :: int
  y_polls :: "nat \<Rightarrow> htxshm_HE list"

subsection \<open>Counting the devices\<close>

function count_loop :: "nat \<Rightarrow> sft \<Rightarrow> int fault" where
  "count_loop n sf =
     (case cfgcrdsz STANZA_SIZE None sf of
        None \<Rightarrow> None
      | Some (rc, _, sf') \<Rightarrow>
          if rc = CFG_SUCC then count_loop (Suc n) sf'
          else Some (if rc = CFG_EOF then int n else - 1))"
  by pat_completeness auto
termination
  by (relation "measure (\<lambda>(n, sf). length (unread sf))")
    (auto simp: cfgcrdsz_def dest: rdsz_loop_shorter split: bind_splits)

declare count_loop.simps [simp del]

definition htxd_get_number_of_device :: "string option \<Rightarrow> int fault" where
  "htxd_get_number_of_device contents =
     (case cfgcopsf contents of None \<Rightarrow> Some (- 1) | Some sf \<Rightarrow> count_loop 0 sf)"

subsection \<open>The equaliser's settings\<close>

definition eq_zero :: equaliser_details where
  "eq_zero = \<lparr>eq_enable_flag = 0, eq_debug_flag = 0, eq_offline_cpu = 0, eq_time_quantum = 0,
     eq_startup_time_delay = 0, eq_log_duration = 0, eq_pattern_length = 0, eq_config_file = []\<rparr>"

text \<open>A number that is 0 when the keyword is not there.\<close>

definition eq_number :: "cstring \<Rightarrow> cstring \<Rightarrow> int fault" where
  "eq_number kw st =
     do { (rc, v) \<leftarrow> cfgcskwd kw st;
          case v of None \<Rightarrow> Some 0 | Some v \<Rightarrow> do { v \<leftarrow> htxd_unquote v; Some (atoi v) } }"

definition eq_file :: "cstring \<Rightarrow> cstring fault" where
  "eq_file st =
     do { (rc, v) \<leftarrow> cfgcskwd ''cfg_file'' st; case v of None \<Rightarrow> Some [] | Some v \<Rightarrow> htxd_unquote v }"

text \<open>The other settings are read only when the equaliser is enabled.\<close>

definition equaliser_of :: "cstring \<Rightarrow> equaliser_details fault" where
  "equaliser_of st =
     do { e \<leftarrow> eq_number ''equaliser_flag'' st;
          if e \<noteq> 1 then Some (eq_zero\<lparr>eq_enable_flag := e\<rparr>)
          else do {
            f \<leftarrow> eq_file st;
            d \<leftarrow> eq_number ''equaliser_debug_flag'' st;
            c \<leftarrow> eq_number ''offline_cpu'' st;
            q \<leftarrow> eq_number ''eq_time_quantum'' st;
            s \<leftarrow> eq_number ''eq_startup_time_delay'' st;
            l \<leftarrow> eq_number ''eq_log_duration'' st;
            p \<leftarrow> eq_number ''eq_pattern_length'' st;
            Some \<lparr>eq_enable_flag = e, eq_debug_flag = d, eq_offline_cpu = c, eq_time_quantum = q,
                  eq_startup_time_delay = s, eq_log_duration = l, eq_pattern_length = p, eq_config_file = f\<rparr> } }"

definition htxd_init_equaliser_info :: "string option \<Rightarrow> equaliser_details fault" where
  "htxd_init_equaliser_info contents =
     (case cfgcopsf contents of
        None \<Rightarrow> Some eq_zero
      | Some sf \<Rightarrow>
          do { (rc, st, _) \<leftarrow> cfgcrdsz STANZA_SIZE (Some ''default'') sf;
               if rc = CFG_SUCC then equaliser_of st else Some eq_zero })"

subsection \<open>Devices that start halted\<close>

text \<open>The loop of \<open>htxd_init_start_halted_exerciser_mode\<close> does not move its pointer: every turn looks at the first
  entry.\<close>

fun halted_loop :: "nat \<Rightarrow> nat \<Rightarrow> htxshm_HE \<Rightarrow> sems \<Rightarrow> sems" where
  "halted_loop 0 i h ss = ss"
| "halted_loop (Suc n) i h ss =
     halted_loop n (Suc i) h (if he_start_halted h = 1 then snd (htxd_set_device_run_sem_status ss i 1) else ss)"

definition htxd_init_start_halted_exerciser_mode :: "nat \<Rightarrow> htxshm_HE list \<Rightarrow> sems \<Rightarrow> sems fault" where
  "htxd_init_start_halted_exerciser_mode n hs ss =
     (if n = 0 then Some ss else if hs = [] then None else Some (halted_loop n 0 (hs ! 0) ss))"

subsection \<open>\<open>htxd_init_ecg_info\<close>\<close>

abbreviation (input) ECG_UNLOADED :: int where "ECG_UNLOADED \<equiv> 10"
abbreviation (input) ECG_INACTIVE :: int where "ECG_INACTIVE \<equiv> 20"
abbreviation (input) ECG_ACTIVE :: int where "ECG_ACTIVE \<equiv> 30"
abbreviation (input) PSEUDO_EXTRA_ENTRIES :: int where "PSEUDO_EXTRA_ENTRIES \<equiv> 200"

text \<open>The keys of the nodes, in the order of the list.\<close>

partial_function (option) key_list :: "node_heap \<Rightarrow> nat option \<Rightarrow> int list option" where
  "key_list h p =
     (case p of
        None \<Rightarrow> Some []
      | Some a \<Rightarrow> do { n \<leftarrow> h a; ks \<leftarrow> key_list h (n_next n); Some (ei_shm_key (n_info n) # ks) })"

text \<open>The header of the new shared memory, after \<open>memset\<close> and \<open>htxd_set_shm_header_values\<close>. An \<open>unsigned\<close>
  field holds a negative number as a large one.\<close>

definition uint32 :: "int \<Rightarrow> nat" where
  "uint32 i = nat (i mod 2 ^ 32)"

definition new_header :: "int \<Rightarrow> int \<Rightarrow> nat \<Rightarrow> htxshm_hdr" where
  "new_header entries maxe add =
     \<lparr>hdr_emc = 0, hdr_started = 0, hdr_shutdown = 0, hdr_hotplug_process_flag = 0, hdr_max_entries = uint32 maxe,
      hdr_num_entries = uint32 entries, hdr_pseudo_entries = 0, hdr_pseudo_entry_0 = uint32 (maxe + int add)\<rparr>"

text \<open>The fields set before the system resources are asked for; the others keep what the memory held.\<close>

definition fresh_info :: "int \<Rightarrow> string \<Rightarrow> int \<Rightarrow> int \<Rightarrow> ecg_info \<Rightarrow> ecg_info" where
  "fresh_info now name n off i =
     i\<lparr>ei_name := name, ei_start_time := dec_digits (nat (now mod 2 ^ 64)), ei_run_start_time := 0,
       ei_status := ECG_UNLOADED, ei_exer_entries := n, ei_max_entries := n, ei_shm_entries := 0,
       ei_shm_key := ECG_SHMKEY_START + off, ei_sem_key := ECG_SEMKEY_START + off\<rparr>"

text \<open>Filling the shared memory of a node whose semaphores and memory exist. The result of
  \<open>htxd_set_shm_exercisers_values\<close> is not looked at.\<close>

definition fill_info :: "sys \<Rightarrow> texer_list list \<Rightarrow> ecg_info \<Rightarrow> (ecg_info \<times> texer_list list) fault" where
  "fill_info y tbl i =
     do { let n = ei_exer_entries i;
          let hdr = new_header n (ei_max_entries i) (y_max_add y);
          let hs = replicate (nat (n + int (y_max_add y) + PSEUDO_EXTRA_ENTRIES)) zero_HE;
          (_, l) \<leftarrow> htxd_set_shm_exercisers_values (y_file y) (y_junk y) (y_cap y)
             \<lparr>k_shm_key = ei_shm_key i, k_sem_key = ei_sem_key i, k_sem_id = ei_sem_id i\<rparr>
             \<lparr>l_HEs = hs, l_count = 0, l_table = tbl\<rparr>;
          q \<leftarrow> htxd_init_equaliser_info (y_file y);
          ss \<leftarrow> htxd_init_start_halted_exerciser_mode (l_count l) (l_HEs l) (ei_sems i);
          Some (i\<lparr>ei_shm := Some (hdr\<lparr>hdr_num_entries := l_count l\<rparr>, l_HEs l), ei_shm_entries := l_count l,
                  ei_equaliser := q, ei_sems := ss, ei_status := ECG_INACTIVE\<rparr>, l_table l) }"

text \<open>The second component of the state is the static offset of the key numbers. A failure leaves the node linked and
  the length as it was.\<close>

definition set_info :: "nat \<Rightarrow> ecg_info \<Rightarrow> ecg_manager \<Rightarrow> ecg_manager fault" where
  "set_info a i m = do { h \<leftarrow> at_node a (\<lambda>n. n\<lparr>n_info := i\<rparr>) (m_heap m); Some (m\<lparr>m_heap := h\<rparr>) }"

definition htxd_init_ecg_info :: "sys \<Rightarrow> string \<Rightarrow> int \<Rightarrow> ecg_manager \<Rightarrow> (int \<times> int \<times> ecg_manager) fault" where
  "htxd_init_ecg_info y name off m =
     do { m \<leftarrow> htxd_allocate_ecg_info (y_addr y) (y_node y) m;
          n \<leftarrow> htxd_get_number_of_device (y_file y);
          a \<leftarrow> m_current m;
          h \<leftarrow> at_node a (\<lambda>n. n\<lparr>n_next := None\<rparr>) (m_heap m);
          keys \<leftarrow> key_list h (m_list m);
          let off = htxd_get_next_key_offset keys off;
          node \<leftarrow> h a;
          let i = fresh_info (y_time y) name n off (n_info node);
          let i = i\<lparr>ei_sem_id := y_sem_id y\<rparr>;
          if y_sem_id y = - 1 then do { m \<leftarrow> set_info a (i\<lparr>ei_shm := None\<rparr>) (m\<lparr>m_heap := h\<rparr>); Some (- 1, off, m) }
          else do {
            let i = i\<lparr>ei_sems := htxd_init_sem n (y_max_add y) (y_old_sems y)\<rparr>;
            if \<not> y_shm_ok y then do { m \<leftarrow> set_info a (i\<lparr>ei_shm := None\<rparr>) (m\<lparr>m_heap := h\<rparr>); Some (- 1, off, m) }
            else do {
              (i, tbl) \<leftarrow> fill_info y (m_table m) i;
              m \<leftarrow> set_info a i (m\<lparr>m_heap := h\<rparr>);
              Some (0, off, m\<lparr>m_table := tbl, m_length := m_length m + 1,
                              m_device_count := m_device_count m + int (ei_shm_entries i)\<rparr>) } } }"

subsection \<open>Starting the exercisers\<close>

text \<open>The program, name and arguments the child of \<open>htxd_load_exerciser\<close> executes; the paths are built in arrays of 512
  and 64 characters.\<close>

definition exerciser_command :: "string \<Rightarrow> bool \<Rightarrow> htxshm_HE \<Rightarrow> (string \<times> string list) fault" where
  "exerciser_command home emc h =
     do { name \<leftarrow> fits 64 (he_HE_name h);
          path \<leftarrow> fits 512 (home @ ''/bin/'' @ name);
          device \<leftarrow> fits 64 (''/dev/'' @ he_sdev_id h);
          rules \<leftarrow> fits 64 (let r = (if emc then he_emc_rules h else he_reg_rules h)
                   in if peek r \<noteq> CHR ''/'' then home @ (if emc then ''/rules/emc/'' else ''/rules/reg/'') @ r else r);
          Some (path, [name, device, if emc then ''EMC'' else ''REG'', rules]) }"

definition htxd_load_exerciser :: "int \<Rightarrow> htxshm_HE \<Rightarrow> texer_list list \<Rightarrow> htxshm_HE \<times> texer_list list" where
  "htxd_load_exerciser pid h tbl =
     (if pid = - 1 then (h, tbl)
      else (h\<lparr>he_PID := pid\<rparr>, htxd_update_exer_pid_in_exer_list tbl (he_sdev_id h) pid))"

fun load_all :: "(nat \<Rightarrow> int) \<Rightarrow> nat \<Rightarrow> nat \<Rightarrow> htxshm_HE list \<Rightarrow> texer_list list \<Rightarrow> htxshm_HE list \<times> texer_list list" where
  "load_all fork i 0 hs tbl = (hs, tbl)"
| "load_all fork i (Suc n) hs tbl =
     (let (h, tbl) = htxd_load_exerciser (fork i) (hs ! i) tbl
      in load_all fork (Suc i) n (hs[i := h]) tbl)"

definition htxd_activate_all_ecg_devices :: "sys \<Rightarrow> ecg_manager \<Rightarrow> ecg_manager fault" where
  "htxd_activate_all_ecg_devices y m =
     do { a \<leftarrow> m_current m;
          node \<leftarrow> m_heap m a;
          let i = n_info node;
          (hdr, hs) \<leftarrow> ei_shm i;
          if length hs < ei_shm_entries i then None
          else do {
            let (hs, tbl) = load_all (y_fork y) 0 (ei_shm_entries i) hs (m_table m);
            m \<leftarrow> set_info a (i\<lparr>ei_shm := Some (hdr\<lparr>hdr_started := 1\<rparr>, hs), ei_status := ECG_ACTIVE\<rparr>) m;
            Some (m\<lparr>m_table := tbl, m_loaded_count := m_loaded_count m + int (ei_shm_entries i)\<rparr>) } }"

subsection \<open>The daemon\<close>

text \<open>The parts of the instance record that the commands change; \<open>d_key_off\<close> is the static variable of
  \<open>htxd_get_next_key_offset\<close>, which outlives the manager, and \<open>d_env\<close> the environment of the process.\<close>

record daemon =
  d_state :: nat
  d_mgr :: "ecg_manager option"
  d_key_off :: int
  d_created :: bool
  d_ecg_shutdown :: bool
  d_msg_pid :: int
  d_stats_pid :: int
  d_eq_pid :: int
  d_hang :: bool
  d_stop_watch :: bool
  d_syscfg :: bool
  d_test_active :: nat
  d_cur_shm_key :: int
  d_env :: "string \<rightharpoonup> string"

type_synonym answer = "(int \<times> string \<times> daemon) fault"

text \<open>The answer of a command, written into a buffer of \<open>sz\<close> characters.\<close>

definition reply :: "nat \<Rightarrow> int \<Rightarrow> string \<Rightarrow> daemon \<Rightarrow> answer" where
  "reply sz rc text d = do { text \<leftarrow> fits sz text; Some (rc, text, d) }"

definition create_ecg_manager :: "daemon \<Rightarrow> ecg_manager" where
  "create_ecg_manager d = (case d_mgr d of None \<Rightarrow> htxd_init_ecg_manager (\<lambda>_. None) | Some m \<Rightarrow> m)"

definition htxd_load_hxsmsg :: "sys \<Rightarrow> daemon \<Rightarrow> daemon" where
  "htxd_load_hxsmsg y d = (if d_msg_pid d = 0 \<and> y_msg_pid y \<noteq> - 1 then d\<lparr>d_msg_pid := y_msg_pid y\<rparr> else d)"

text \<open>A failed fork ends the daemon.\<close>

definition htxd_load_hxstats :: "sys \<Rightarrow> daemon \<Rightarrow> daemon fault" where
  "htxd_load_hxstats y d =
     (if d_stats_pid d \<noteq> 0 then Some d
      else if y_stats_pid y = - 1 then None else Some (d\<lparr>d_stats_pid := y_stats_pid y\<rparr>))"

definition htxd_check_for_equaliser_start :: "ecg_info \<Rightarrow> daemon \<Rightarrow> bool" where
  "htxd_check_for_equaliser_start i d \<longleftrightarrow> eq_enable_flag (ei_equaliser i) \<noteq> 0 \<and> d_eq_pid d = 0"

definition htxd_start_equaliser :: "sys \<Rightarrow> ecg_info \<Rightarrow> daemon \<Rightarrow> daemon" where
  "htxd_start_equaliser y i d =
     (if htxd_check_for_equaliser_start i d \<and> y_eq_pid y \<noteq> - 1 then d\<lparr>d_eq_pid := y_eq_pid y\<rparr> else d)"

definition mdt_name :: "sys \<Rightarrow> string \<Rightarrow> string" where
  "mdt_name y name = (if name = [] then y_home y @ ''/mdt/mdt.bu'' else name)"

definition loaded_text :: "string \<Rightarrow> string \<Rightarrow> string \<Rightarrow> ecg_info \<Rightarrow> string" where
  "loaded_text name warned done i =
     (if ei_exer_entries i = 0 then ''No device is present in ECG <'' @ name @ ''>, could not start any device''
      else if ei_shm_entries i = 0 then ''No device is started under ECG <'' @ name @
        ''>, since all the devices are already loaded under another ECG(s)''
      else if ei_exer_entries i \<noteq> int (ei_shm_entries i) then ''ECG ('' @ name @ '')'' @ warned @
        ''\<newline>WARNING: few devices are unable to start since they may be already loaded under another ECG(s)''
      else ''ECG ('' @ name @ '')'' @ done)"

text \<open>The second half of the run command, from the point where the MDT is loaded.\<close>

definition run_loaded :: "sys \<Rightarrow> string \<Rightarrow> ecg_manager \<Rightarrow> daemon \<Rightarrow> answer" where
  "run_loaded y name m d =
     do { a \<leftarrow> m_current m;
          node \<leftarrow> m_heap m a;
          m \<leftarrow> set_info a ((n_info node)\<lparr>ei_run_start_time := wrap32 (y_time y)\<rparr>) m;
          let d = d\<lparr>d_state := STARTING_MDT, d_mgr := Some m\<rparr>;
          if \<not> d_syscfg d \<and> y_syscfg y \<noteq> 0 then
            reply 1024 (y_syscfg y)
              (''Internal error: failed to initialize syscfg with error code <'' @ show_int (y_syscfg y) @ ''>'') d
          else do {
            m \<leftarrow> htxd_activate_all_ecg_devices y m;
            d \<leftarrow> htxd_load_hxstats y (d\<lparr>d_syscfg := True, d_mgr := Some (m\<lparr>m_running := name\<rparr>)\<rparr>);
            node \<leftarrow> m_heap m a;
            let d = htxd_start_equaliser y (n_info node) d;
            reply 1024 0 (loaded_text name '' Activated'' '' Activated.'' (n_info node))
              (d\<lparr>d_hang := True, d_stop_watch := True, d_test_active := 1,
                 d_cur_shm_key := ei_shm_key (n_info node), d_state := RUNNING_MDT\<rparr>) } }"

definition htxd_option_method_run_mdt :: "sys \<Rightarrow> string \<Rightarrow> daemon \<Rightarrow> answer" where
  "htxd_option_method_run_mdt y ecg_name d =
     (let name = mdt_name y ecg_name; d = d\<lparr>d_ecg_shutdown := False, d_created := True\<rparr>
      in if \<not> y_exists y then reply 1024 1 (''specified mdt('' @ name @ '') is invalid'') d
         else
           (let m = create_ecg_manager d; d = htxd_load_hxsmsg y (d\<lparr>d_mgr := Some m\<rparr>)
            in if d_state d \<noteq> SELECTED_MDT then
                 do { found \<leftarrow> htxd_get_ecg_info_node m name;
                      if found \<noteq> None then reply 1024 1 (''specified ECG ('' @ name @ '') is already running'') d
                      else do { (_, off, m) \<leftarrow> htxd_init_ecg_info y name (d_key_off d) m;
                                run_loaded y name m (d\<lparr>d_key_off := off\<rparr>) } }
               else if name \<noteq> m_selected m then
                 reply 1024 1 (''Failed to run specified ecg/mdt ('' @ name @ ''), another ecg/mdt ('' @ m_selected m @
                   '') is already selected'') d
               else run_loaded y name (m\<lparr>m_selected := []\<rparr>) d))"

text \<open>Selecting loads an MDT without starting it. The names in the refusals are read through the manager.\<close>

definition htxd_option_method_select_mdt :: "sys \<Rightarrow> string \<Rightarrow> daemon \<Rightarrow> answer" where
  "htxd_option_method_select_mdt y ecg_name d =
     (let d = d\<lparr>d_created := True\<rparr>;
          refuse = (\<lambda>what now. reply 1024 1 (''Failed to select specified ecg/mdt('' @ ecg_name @
             (if ecg_name = now then ''), same ecg/mdt is '' @ what
              else ''), another ecg/mdt('' @ now @ '') is '' @ what)) d)
      in if d_state d = SELECTED_MDT then do { m \<leftarrow> d_mgr d; refuse ''already selected'' (m_selected m) }
         else if d_state d = RUNNING_MDT then do { m \<leftarrow> d_mgr d; refuse ''being run'' (m_running m) }
         else
           (let name = mdt_name y ecg_name
            in if \<not> y_exists y then reply 1024 1 (''specified mdt('' @ name @ '') is invalid'') d
               else
                 (let m = create_ecg_manager d; d = d\<lparr>d_mgr := Some m\<rparr>
                  in do { found \<leftarrow> htxd_get_ecg_info_node m name;
                          if found \<noteq> None then reply 1024 1 (''specified ECG ('' @ name @ '') is already running'') d
                          else do { (_, off, m) \<leftarrow> htxd_init_ecg_info y name (d_key_off d) m;
                                    a \<leftarrow> m_current m;
                                    node \<leftarrow> m_heap m a;
                                    let d = htxd_load_hxsmsg y (d\<lparr>d_key_off := off, d_mgr := Some (m\<lparr>m_selected := name\<rparr>)\<rparr>);
                                    reply 1024 0 (loaded_text name '' is slected'' '' is selected'' (n_info node))
                                      (d\<lparr>d_state := SELECTED_MDT\<rparr>) } })))"

subsection \<open>Shutting down\<close>

text \<open>\<open>htxd_count_exer_still_running\<close>; a negative number of entries makes the loop empty.\<close>

definition htxd_count_exer_still_running :: "int \<Rightarrow> htxshm_HE list \<Rightarrow> int fault" where
  "htxd_count_exer_still_running n hs =
     (if length hs < nat n then None
      else Some (n - int (length (filter (\<lambda>h. he_PID h = 0) (take (nat n) hs)))))"

text \<open>The wait of \<open>htxd_unload_exercisers\<close>: \<open>polls k\<close> is the shared memory at the \<open>k\<close>-th look.\<close>

partial_function (option) stop_wait :: "int \<Rightarrow> (nat \<Rightarrow> htxshm_HE list) \<Rightarrow> nat \<Rightarrow> htxshm_HE list option" where
  "stop_wait n polls k =
     do { r \<leftarrow> htxd_count_exer_still_running n (polls k);
          if r = 0 then Some (polls k) else stop_wait n polls (Suc k) }"

text \<open>The processes that get a \<open>SIGTERM\<close>.\<close>

definition killed :: "int \<Rightarrow> htxshm_HE list \<Rightarrow> int list" where
  "killed n hs = filter (\<lambda>p. p \<noteq> 0) (map he_PID (take (nat n) hs))"

definition htxd_unload_exercisers :: "sys \<Rightarrow> ecg_info \<Rightarrow> ecg_manager \<Rightarrow> (int list \<times> ecg_info \<times> ecg_manager) fault" where
  "htxd_unload_exercisers y i m =
     do { (hdr, hs) \<leftarrow> ei_shm i;
          let n = ei_exer_entries i;
          hs' \<leftarrow> stop_wait n (y_polls y) 0;
          Some (killed n hs,
                i\<lparr>ei_shm := Some (hdr\<lparr>hdr_shutdown := 1\<rparr>, hs'), ei_sems := htxd_release_all_semaphore (ei_sems i)\<rparr>,
                m\<lparr>m_loaded_count := m_loaded_count m - n, m_device_count := m_device_count m - n\<rparr>) }"

text \<open>\<open>htxd_idle_daemon\<close>: the monitors are stopped, the helper processes are told to end and waited for, and the
  manager is freed.\<close>

definition htxd_idle_daemon :: "daemon \<Rightarrow> daemon" where
  "htxd_idle_daemon d =
     d\<lparr>d_hang := False, d_stop_watch := False, d_stats_pid := 0, d_msg_pid := 0, d_eq_pid := 0, d_syscfg := False,
       d_mgr := None, d_state := IDLE, d_test_active := 0\<rparr>"

text \<open>The search does not stop at the first hit.\<close>

partial_function (option) find_last_node :: "node_heap \<Rightarrow> string \<Rightarrow> nat option \<Rightarrow> nat option \<Rightarrow> nat option option" where
  "find_last_node h name p found =
     (case p of
        None \<Rightarrow> Some found
      | Some a \<Rightarrow> do { n \<leftarrow> h a;
                       find_last_node h name (n_next n) (if ei_name (n_info n) = name then Some a else found) })"

definition htxd_option_method_shutdown_mdt :: "sys \<Rightarrow> string \<Rightarrow> daemon \<Rightarrow> answer" where
  "htxd_option_method_shutdown_mdt y ecg_name d =
     (if d_state d \<noteq> RUNNING_MDT \<and> d_state d \<noteq> SELECTED_MDT then reply 100 1 ''No ECG/MDT is currently running'' d
      else if ecg_name \<noteq> [] \<and> \<not> y_exists y then reply 100 1 (''specified mdt<'' @ ecg_name @ ''> is invalid'') d
      else do {
        m \<leftarrow> d_mgr d;
        let name = (if ecg_name \<noteq> [] then ecg_name else if d_state d = SELECTED_MDT then m_selected m else m_running m);
        found \<leftarrow> find_last_node (m_heap m) name (m_list m) None;
        case found of
          None \<Rightarrow> reply 100 1 (''specified mdt('' @ name @ '') is already inactive'') d
        | Some a \<Rightarrow>
            do { let d = d\<lparr>d_state := SHUTTING_DOWN_MDT, d_ecg_shutdown := True\<rparr>;
                 m \<leftarrow> htxd_remove_ecg_info_node a m;
                 node \<leftarrow> m_heap m a;
                 (_, _, m) \<leftarrow> htxd_unload_exercisers y (n_info node) m;
                 let m = m\<lparr>m_heap := (m_heap m)(a := None)\<rparr>;
                 let d = d\<lparr>d_mgr := Some m\<rparr>;
                 let d = (if m_length m = 0 then htxd_idle_daemon d else d);
                 reply 100 0 (''ECG ('' @ name @ '') shutdown successfully'') d } })"

text \<open>\<open>htxd_shutdown_all_mdt\<close>: the next node is read from the one just removed, before it is freed.\<close>

partial_function (option) shutdown_loop :: "sys \<Rightarrow> nat option \<Rightarrow> ecg_manager \<Rightarrow> ecg_manager option" where
  "shutdown_loop y p m =
     (case p of
        None \<Rightarrow> Some m
      | Some a \<Rightarrow>
          do { m \<leftarrow> htxd_remove_ecg_info_node a m;
               node \<leftarrow> m_heap m a;
               (_, _, m) \<leftarrow> htxd_unload_exercisers y (n_info node) m;
               shutdown_loop y (n_next node) (m\<lparr>m_heap := (m_heap m)(a := None)\<rparr>) })"

definition htxd_shutdown_all_mdt :: "sys \<Rightarrow> daemon \<Rightarrow> (int \<times> daemon) fault" where
  "htxd_shutdown_all_mdt y d =
     (if d_state d = IDLE then Some (1, d)
      else do { m \<leftarrow> d_mgr d;
                m \<leftarrow> shutdown_loop y (m_list m) m;
                Some (0, htxd_idle_daemon (d\<lparr>d_mgr := Some m\<rparr>)) })"

subsection \<open>An exerciser ends\<close>

definition exit_text :: "htxshm_HE \<Rightarrow> string \<Rightarrow> string" where
  "exit_text h reason =
     he_HE_name h @ '' HE program for '' @ he_sdev_id h @ '' terminated by '' @ reason @
     (if he_user_term h \<noteq> 0 then '' because of user request''
      else if he_DR_term h \<noteq> 0 then '' because of DR operation''
      else if he_test_run_period_expired h \<noteq> 0 then '' because of run time ('' @ show_int (he_test_run_period h) @
        '' seconds) is completed''
      else [])"

text \<open>\<open>htxd_reset_exer_pid\<close> for an exerciser of the ECG with the entries \<open>hs\<close>: the message and its severity, if one is
  sent, the table and the entries.\<close>

definition htxd_reset_exer_pid ::
  "bool \<Rightarrow> int \<Rightarrow> string \<Rightarrow> texer_list list \<Rightarrow> htxshm_HE list \<Rightarrow> ((string \<times> int) option \<times> texer_list list \<times> htxshm_HE list) fault" where
  "htxd_reset_exer_pid shutting pid reason tbl hs =
     (case htxd_get_exer_position_in_exer_table_by_pid tbl pid of
        None \<Rightarrow> Some (None, tbl, hs)
      | Some i \<Rightarrow>
          (let pos = nat (exer_pos (tbl ! i))
           in if length hs \<le> pos then None
              else
                (let h = hs ! pos;
                     wanted = (he_user_term h \<noteq> 0 \<or> he_DR_term h \<noteq> 0 \<or> he_test_run_period_expired h \<noteq> 0)
                 in Some (if shutting then None
                          else Some (exit_text h reason, if wanted then HTX_SYS_INFO else HTX_HE_HARD_ERROR),
                          tbl[i := (tbl ! i)\<lparr>exer_pid := 0\<rparr>], hs[pos := h\<lparr>he_PID := 0\<rparr>]))))"

subsection \<open>Lemmas on loading\<close>

lemma seg_info: "h a = Some n \<Longrightarrow> seg (h(a \<mapsto> n\<lparr>n_info := i\<rparr>)) prev p xs q = seg h prev p xs q"
  by (induction xs arbitrary: prev p) (auto split: option.splits)

lemma set_info_Some:
  "m_heap m a = Some n \<Longrightarrow> set_info a i m = Some (m\<lparr>m_heap := (m_heap m)(a \<mapsto> n\<lparr>n_info := i\<rparr>)\<rparr>)"
  by (simp add: set_info_def at_node_def)

lemma load_loop_room:
  "load_loop nbyte junk cap k s sf = Some (rc, s') \<Longrightarrow> l_count s \<le> length (l_HEs s) \<Longrightarrow>
   l_count s' \<le> length (l_HEs s') \<and> length (l_HEs s') = length (l_HEs s)"
proof (induction "length (unread sf)" arbitrary: s sf rule: less_induct)
  case less
  let ?x = "htxd_extract_ecg_to_shm_HE nbyte (junk (length (unread sf))) (l_table s)
     (if l_count s < length (l_HEs s) then l_HEs s ! l_count s else zero_HE) sf"
  obtain c dup name h sf1 where x: "?x = Some (c, dup, name, h, sf1)"
    using less.prems(1) by (subst (asm) load_loop.simps) (auto split: option.splits)
  show ?case
  proof (cases "c = CFG_SUCC \<and> l_count s < length (l_HEs s)")
    case False
    then show ?thesis using less.prems by (subst (asm) load_loop.simps) (auto simp: x split: if_splits)
  next
    case True
    then have l: "length (unread sf1) < length (unread sf)" using x extract_shorter by blast
    have x': "htxd_extract_ecg_to_shm_HE nbyte (junk (length (unread sf))) (l_table s) (l_HEs s ! l_count s) sf =
        Some (c, dup, name, h, sf1)" using x True by simp
    let ?s = "s\<lparr>l_HEs := (l_HEs s)[l_count s := h]\<rparr>"
    have "\<exists>s1. load_loop nbyte junk cap k s1 sf1 = Some (rc, s') \<and> l_count s1 \<le> length (l_HEs s1) \<and>
        length (l_HEs s1) = length (l_HEs s)"
    proof (cases dup)
      case True
      then show ?thesis using less.prems \<open>c = CFG_SUCC \<and> _\<close>
        by (intro exI [of _ ?s]) (subst (asm) load_loop.simps, simp add: x' Let_def)
    next
      case False
      then obtain tbl where "load_loop nbyte junk cap k (?s\<lparr>l_table := tbl, l_count := Suc (l_count s)\<rparr>) sf1 = Some (rc, s')"
        using less.prems(1) True by (subst (asm) load_loop.simps) (auto simp: x' Let_def split: option.splits)
      then show ?thesis using True by (intro exI conjI) (assumption, simp_all)
    qed
    then show ?thesis using less.hyps [OF l] by auto
  qed
qed

lemma exercisers_values_room:
  assumes "htxd_set_shm_exercisers_values f junk cap k s = Some (rc, s')" "l_count s \<le> length (l_HEs s)"
  shows "l_count s' \<le> length (l_HEs s') \<and> length (l_HEs s') = length (l_HEs s)"
  using assms
  by (auto simp: htxd_set_shm_exercisers_values_def dest!: load_loop_room
      split: option.splits bind_splits prod.splits if_splits)

text \<open>An MDT that is loaded but not running.\<close>

definition loaded :: "string \<Rightarrow> ecg_info \<Rightarrow> bool" where
  "loaded name i \<longleftrightarrow>
     ei_name i = name \<and> ei_status i = ECG_INACTIVE \<and>
     (case ei_shm i of None \<Rightarrow> False | Some (hdr, hs) \<Rightarrow> ei_shm_entries i \<le> length hs)"

lemma fill_info_loaded:
  assumes "fill_info y tbl i = Some (i', tbl')"
  shows "loaded (ei_name i) i' \<and> ei_shm_key i' = ei_shm_key i"
  using assms
  by (auto simp: fill_info_def Let_def loaded_def dest!: exercisers_values_room split: bind_splits prod.splits)

lemma init_ecg_info_effect:
  assumes "manages m xs" "y_addr y \<notin> set xs" "y_sem_id y \<noteq> - 1" "y_shm_ok y"
    and "htxd_init_ecg_info y name off m = Some (rc, off', m')"
  shows "rc = 0 \<and> manages m' (xs @ [y_addr y]) \<and> m_current m' = Some (y_addr y) \<and>
    (\<exists>n. m_heap m' (y_addr y) = Some n \<and> loaded name (n_info n))"
proof -
  let ?a = "y_addr y"
  obtain m1 where m1: "htxd_allocate_ecg_info ?a (y_node y) m = Some m1"
      "seg (m_heap m1) None (m_list m1) (xs @ [?a]) None" "m_length m1 = m_length m" "m_current m1 = Some ?a"
      "m_heap m1 ?a = Some ((y_node y)\<lparr>n_next := None, n_prev := end_of None xs\<rparr>)"
    using allocate_manages [OF assms(1,2)] by blast
  let ?n = "(y_node y)\<lparr>n_next := None, n_prev := end_of None xs\<rparr>"
  have h: "at_node ?a (\<lambda>n. n\<lparr>n_next := None\<rparr>) (m_heap m1) = Some (m_heap m1)"
    using m1(5) by (simp add: at_node_def fun_upd_idem)
  obtain n off1 i i' tbl where f: "fill_info y (m_table m1) i = Some (i', tbl)" "ei_name i = name"
      "m' = m1\<lparr>m_heap := (m_heap m1)(?a \<mapsto> ?n\<lparr>n_info := i'\<rparr>), m_table := tbl, m_length := m_length m1 + 1,
               m_device_count := m_device_count m1 + int (ei_shm_entries i')\<rparr>" "rc = 0"
    using assms(3-5) m1(1,4,5) h
    by (auto simp: htxd_init_ecg_info_def Let_def set_info_Some fresh_info_def split: bind_splits)
  show ?thesis using f m1 assms(1,2) fill_info_loaded [OF f(1)]
    by (auto simp: manages_def seg_info)
qed

lemma count_loop_stanzas:
  assumes "entries_ok ds" "length (show_stanza ''default'' ds) < 2 ^ 15" "\<forall>st\<in>set sts. device_ok ds st"
  shows "count_loop n ((cfgcsvdflt (show_stanza ''default'' ds) sf)\<lparr>unread := texts sts\<rparr>) = Some (int (n + length sts))"
  using assms(3)
proof (induction sts arbitrary: n)
  case Nil
  then show ?case by (subst count_loop.simps) (simp add: rdsz_next_eof texts_def)
next
  case (Cons st sts)
  then have "cfgcrdsz STANZA_SIZE None ((cfgcsvdflt (show_stanza ''default'' ds) sf)\<lparr>unread := texts (st # sts)\<rparr>) =
      Some (CFG_SUCC, show_stanza (fst st) (snd st @ missing (snd st) ds),
        (cfgcsvdflt (show_stanza ''default'' ds) sf)\<lparr>unread := texts sts\<rparr>)"
    using rdsz_next_default [where n = "fst st" and ds = ds and es = "snd st" and nbyte = STANZA_SIZE and sf = sf and r = "texts sts"] assms(1,2)
    by (simp add: device_ok_def texts_def)
  then show ?case using Cons by (subst count_loop.simps) simp
qed

lemma number_of_device:
  assumes "entries_ok ds" "length (show_stanza ''default'' ds) < STANZA_SIZE" "\<forall>st\<in>set sts. device_ok ds st" "sts \<noteq> []"
  shows "htxd_get_number_of_device (Some (texts ((''default'', ds) # sts))) = Some (int (length sts))"
proof -
  obtain st sts' where s: "sts = st # sts'" using assms(4) by (cases sts) auto
  let ?f = "texts ((''default'', ds) # sts)"
  let ?sf = "\<lparr>sfile = ?f, unread = ?f, defbuf = None, defmap = []\<rparr>"
  have "cfgcrdsz STANZA_SIZE None ?sf = Some (CFG_SUCC, show_stanza (fst st) (snd st @ missing (snd st) ds),
      (cfgcsvdflt (show_stanza ''default'' ds) ?sf)\<lparr>unread := texts sts'\<rparr>)"
    using assms s by (intro rdsz_after_default) (auto simp: texts_def device_ok_def)
  moreover have "count_loop (Suc 0) ((cfgcsvdflt (show_stanza ''default'' ds) ?sf)\<lparr>unread := texts sts'\<rparr>) =
      Some (int (Suc 0 + length sts'))"
    using assms s by (intro count_loop_stanzas) auto
  ultimately show ?thesis using s
    by (simp add: htxd_get_number_of_device_def cfgcopsf_def, subst count_loop.simps) simp
qed

lemma equaliser_off:
  assumes "entries_ok ds" "length (show_stanza ''default'' ds) < STANZA_SIZE" "map_of ds ''equaliser_flag'' = None"
  shows "htxd_init_equaliser_info (Some (texts ((''default'', ds) # sts))) = Some eq_zero"
proof -
  let ?f = "texts ((''default'', ds) # sts)"
  let ?sf = "\<lparr>sfile = ?f, unread = ?f, defbuf = None, defmap = []\<rparr>"
  have "cfgcrdsz STANZA_SIZE (Some ''default'') ?sf = Some (CFG_SUCC, show_stanza ''default'' ds,
      cfgcsvdflt (show_stanza ''default'' ds) (?sf\<lparr>unread := texts sts\<rparr>))"
    using assms by (intro rdsz_default_first) (simp_all add: texts_def)
  moreover have "key_ok ''equaliser_flag''" by (simp add: key_ok_def graph_def code_def)
  then have "eq_number ''equaliser_flag'' (show_stanza ''default'' ds) = Some 0"
    using cfgcskwd_show_stanza [OF _ assms(1) name_ok_default, of "''equaliser_flag''"] assms(3)
    by (simp add: vmap_def eq_number_def)
  ultimately show ?thesis
    by (simp add: htxd_init_equaliser_info_def cfgcopsf_def equaliser_of_def eq_zero_def)
qed

subsection \<open>Lemmas on starting\<close>

lemma update_pid_map:
  assumes "distinct (map dev_name tbl)"
  shows "htxd_update_exer_pid_in_exer_list tbl name pid =
    map (\<lambda>e. if dev_name e = name then e\<lparr>exer_pid := pid\<rparr> else e) tbl"
proof (cases "htxd_get_exer_position_in_exer_table_by_exer_name tbl name")
  case None
  then have "\<forall>e\<in>set tbl. dev_name e \<noteq> name" by (auto simp: name_position_None)
  then have "map (\<lambda>e. if dev_name e = name then e\<lparr>exer_pid := pid\<rparr> else e) tbl = map (\<lambda>e. e) tbl"
    by (intro map_cong) auto
  then show ?thesis using None by (simp add: htxd_update_exer_pid_in_exer_list_def)
next
  case (Some i)
  then have i: "i < length tbl" "dev_name (tbl ! i) = name" by (auto dest: name_position_Some)
  then have "dev_name (tbl ! j) = name \<longleftrightarrow> j = i" if "j < length tbl" for j
    using nth_eq_iff_index_eq [OF assms, of j i] that by auto
  then show ?thesis using Some i
    by (auto simp: htxd_update_exer_pid_in_exer_list_def list_eq_iff_nth_eq nth_list_update)
qed

text \<open>What a started device's entries become.\<close>

definition with_pid :: "int \<Rightarrow> htxshm_HE \<Rightarrow> htxshm_HE" where
  "with_pid pid h = (if pid = - 1 then h else h\<lparr>he_PID := pid\<rparr>)"

lemma with_pid_sdev [simp]: "he_sdev_id (with_pid pid h) = he_sdev_id h"
  by (simp add: with_pid_def)

lemma load_all_entries:
  "i + n \<le> length hs \<Longrightarrow> load_all fork i n hs tbl = (hs', tbl') \<Longrightarrow>
   length hs' = length hs \<and>
   (\<forall>j<length hs. hs' ! j = (if i \<le> j \<and> j < i + n then with_pid (fork j) (hs ! j) else hs ! j))"
proof (induction n arbitrary: i hs tbl)
  case (Suc n)
  obtain h t where h: "htxd_load_exerciser (fork i) (hs ! i) tbl = (h, t)" by fastforce
  then have "h = with_pid (fork i) (hs ! i)" by (auto simp: htxd_load_exerciser_def with_pid_def split: if_splits)
  then show ?case using Suc.IH [of "Suc i" "hs[i := h]" t] Suc.prems h
    by (auto simp: nth_list_update Suc_le_eq less_Suc_eq)
qed auto

lemma load_all_table:
  assumes "distinct (map dev_name tbl)" "i + n \<le> length tbl" "i + n \<le> length hs"
    and "\<forall>j. i \<le> j \<and> j < i + n \<longrightarrow> dev_name (tbl ! j) = he_sdev_id (hs ! j) \<and> fork j \<noteq> - 1"
  shows "length (snd (load_all fork i n hs tbl)) = length tbl \<and>
    (\<forall>j<length tbl. snd (load_all fork i n hs tbl) ! j =
       (if i \<le> j \<and> j < i + n then (tbl ! j)\<lparr>exer_pid := fork j\<rparr> else tbl ! j))"
  using assms
proof (induction n arbitrary: i hs tbl)
  case (Suc n)
  let ?t = "map (\<lambda>e. if dev_name e = he_sdev_id (hs ! i) then e\<lparr>exer_pid := fork i\<rparr> else e) tbl"
  let ?hs = "hs[i := (hs ! i)\<lparr>he_PID := fork i\<rparr>]"
  have i: "i < length tbl" "dev_name (tbl ! i) = he_sdev_id (hs ! i)" "fork i \<noteq> - 1" using Suc.prems by auto
  have t: "?t ! j = (if j = i then (tbl ! i)\<lparr>exer_pid := fork i\<rparr> else tbl ! j)" if "j < length tbl" for j
    using nth_eq_iff_index_eq [OF Suc.prems(1), of j i] that i by auto
  have e: "load_all fork i (Suc n) hs tbl = load_all fork (Suc i) n ?hs ?t"
    using i(3) by (simp add: htxd_load_exerciser_def update_pid_map [OF Suc.prems(1)])
  have "map dev_name ?t = map dev_name tbl" by simp
  then have "distinct (map dev_name ?t)" using Suc.prems(1) by metis
  moreover have "\<forall>j. Suc i \<le> j \<and> j < Suc i + n \<longrightarrow> dev_name (?t ! j) = he_sdev_id (?hs ! j) \<and> fork j \<noteq> - 1"
    using Suc.prems(2,4) t by simp
  ultimately have "length (snd (load_all fork (Suc i) n ?hs ?t)) = length ?t \<and>
    (\<forall>j<length ?t. snd (load_all fork (Suc i) n ?hs ?t) ! j =
       (if Suc i \<le> j \<and> j < Suc i + n then (?t ! j)\<lparr>exer_pid := fork j\<rparr> else ?t ! j))"
    using Suc.prems(2,3) by (intro Suc.IH) simp_all
  then show ?case unfolding e using t by (auto simp: Suc_le_eq)
qed auto

subsection \<open>Running an MDT from its file\<close>

text \<open>A file htxd can load and run completely: a default stanza without equaliser settings and stanzas of distinct devices.\<close>

definition mdt_file :: "entries \<Rightarrow> (cstring \<times> entries) list \<Rightarrow> bool" where
  "mdt_file ds sts \<longleftrightarrow>
     entries_ok ds \<and> length (show_stanza ''default'' ds) < STANZA_SIZE \<and> map_of ds ''equaliser_flag'' = None \<and>
     sts \<noteq> [] \<and> (\<forall>st\<in>set sts. device_ok ds st) \<and> distinct (map fst sts)"

text \<open>The system gives what is asked for.\<close>

definition sys_ok :: "entries \<Rightarrow> (cstring \<times> entries) list \<Rightarrow> sys \<Rightarrow> bool" where
  "sys_ok ds sts y \<longleftrightarrow>
     y_exists y \<and> y_file y = Some (texts ((''default'', ds) # sts)) \<and> y_sem_id y \<noteq> - 1 \<and> y_shm_ok y \<and>
     length sts \<le> y_cap y \<and> y_syscfg y = 0 \<and> y_stats_pid y \<noteq> - 1 \<and> (\<forall>j<length sts. y_fork y j \<noteq> - 1)"

definition keys_of :: "ecg_info \<Rightarrow> ecg_keys" where
  "keys_of i = \<lparr>k_shm_key = ei_shm_key i, k_sem_key = ei_sem_key i, k_sem_id = ei_sem_id i\<rparr>"

lemma fill_info_file:
  assumes "mdt_file ds sts" "sys_ok ds sts y" "ei_exer_entries i = int (length sts)"
  shows "\<exists>i' hdr hs. fill_info y [] i =
      Some (i', map (\<lambda>j. table_entry (keys_of i) (fst (sts ! j)) j) [0..<length sts]) \<and>
    ei_shm i' = Some (hdr, hs) \<and> ei_shm_entries i' = length sts \<and> length sts \<le> length hs \<and> keys_of i' = keys_of i \<and>
    ei_name i' = ei_name i \<and> ei_exer_entries i' = int (length sts) \<and> ei_equaliser i' = eq_zero \<and>
    hdr_num_entries hdr = length sts \<and>
    (\<forall>j<length sts. hs ! j = device_entry ds (sts ! j) zero_HE)"
proof -
  let ?N = "nat (int (length sts) + int (y_max_add y) + PSEUDO_EXTRA_ENTRIES)"
  let ?s = "\<lparr>l_HEs = replicate ?N zero_HE, l_count = 0, l_table = []\<rparr>"
  note f = assms(1) [unfolded mdt_file_def] and y = assms(2) [unfolded sys_ok_def]
  have N: "length sts \<le> ?N" by simp
  obtain l where l: "htxd_set_shm_exercisers_values (y_file y) (y_junk y) (y_cap y) (keys_of i) ?s = Some (0, l)"
      "l_count l = length sts" "length (l_HEs l) = ?N"
      "l_table l = map (\<lambda>j. table_entry (keys_of i) (fst (sts ! j)) j) [0..<length sts]"
      "\<forall>j<?N. l_HEs l ! j = (if j < length sts then device_entry ds (sts ! j) zero_HE else zero_HE)"
    using exercisers_values_stanzas [of ds sts ?s "y_cap y" "y_junk y" "keys_of i"] f y N by auto
  have q: "htxd_init_equaliser_info (y_file y) = Some eq_zero" using f y equaliser_off by auto
  have "l_HEs l \<noteq> []" using l(3) by auto
  then obtain ss where "htxd_init_start_halted_exerciser_mode (length sts) (l_HEs l) (ei_sems i) = Some ss"
    by (cases "sts = []") (auto simp: htxd_init_start_halted_exerciser_mode_def)
  then show ?thesis using l q assms(3) N
    by (auto simp: fill_info_def keys_of_def Let_def)
qed

lemma init_ecg_info_file:
  assumes "mdt_file ds sts" "sys_ok ds sts y"
  shows "\<exists>m n hdr hs off'. htxd_init_ecg_info y name off (htxd_init_ecg_manager h) = Some (0, off', m) \<and>
    m_heap m (y_addr y) = Some n \<and> ei_shm (n_info n) = Some (hdr, hs) \<and>
    ei_shm_entries (n_info n) = length sts \<and> length sts \<le> length hs \<and>
    ei_exer_entries (n_info n) = int (length sts) \<and> ei_equaliser (n_info n) = eq_zero \<and>
    hdr_num_entries hdr = length sts \<and> (\<forall>j<length sts. hs ! j = device_entry ds (sts ! j) zero_HE) \<and>
    m_table m = map (\<lambda>j. table_entry (keys_of (n_info n)) (fst (sts ! j)) j) [0..<length sts] \<and>
    off' = htxd_get_next_key_offset [ei_shm_key (n_info (y_node y))] off \<and>
    ei_shm_key (n_info n) = ECG_SHMKEY_START + off'"
proof -
  let ?a = "y_addr y"
  let ?n = "(y_node y)\<lparr>n_prev := None, n_next := None\<rparr>"
  let ?h = "h(?a \<mapsto> ?n)"
  let ?off = "htxd_get_next_key_offset [ei_shm_key (n_info (y_node y))] off"
  let ?i = "(fresh_info (y_time y) name (int (length sts)) ?off (n_info (y_node y)))\<lparr>ei_sem_id := y_sem_id y,
     ei_sems := htxd_init_sem (int (length sts)) (y_max_add y) (y_old_sems y)\<rparr>"
  note f = assms(1) [unfolded mdt_file_def] and y = assms(2) [unfolded sys_ok_def]
  have n: "htxd_get_number_of_device (y_file y) = Some (int (length sts))" using number_of_device f y by auto
  have k: "key_list ?h (Some ?a) = Some [ei_shm_key (n_info (y_node y))]"
    by (subst key_list.simps, simp, subst key_list.simps, simp)
  obtain i' hdr hs where i': "fill_info y [] ?i =
      Some (i', map (\<lambda>j. table_entry (keys_of ?i) (fst (sts ! j)) j) [0..<length sts])"
    "ei_shm i' = Some (hdr, hs)" "ei_shm_entries i' = length sts" "length sts \<le> length hs" "keys_of i' = keys_of ?i"
    "ei_name i' = ei_name ?i" "ei_exer_entries i' = int (length sts)" "ei_equaliser i' = eq_zero"
    "hdr_num_entries hdr = length sts" "\<forall>j<length sts. hs ! j = device_entry ds (sts ! j) zero_HE"
    using fill_info_file [OF assms, of ?i] by (auto simp: fresh_info_def)
  have "ei_shm_key i' = ECG_SHMKEY_START + ?off" using i'(5) by (simp add: keys_of_def fresh_info_def)
  let ?m = "(htxd_init_ecg_manager h)\<lparr>m_heap := ?h(?a \<mapsto> ?n\<lparr>n_info := i'\<rparr>), m_list := Some ?a,
     m_current := Some ?a, m_table := map (\<lambda>j. table_entry (keys_of i') (fst (sts ! j)) j) [0..<length sts],
     m_length := 1, m_device_count := int (length sts)\<rparr>"
  have "htxd_init_ecg_info y name off (htxd_init_ecg_manager h) = Some (0, ?off, ?m)"
    using i'(1,3,5) n k y
    by (simp add: htxd_init_ecg_info_def htxd_allocate_ecg_info_def htxd_init_ecg_manager_def at_node_def set_info_def
        Let_def)
  then show ?thesis using i'(2-4,7-) \<open>ei_shm_key i' = _\<close>
    by (intro exI [of _ ?m] exI [of _ "?n\<lparr>n_info := i'\<rparr>"] exI [of _ hdr] exI [of _ hs] exI [of _ ?off]) simp
qed

lemma activate_all_devices:
  assumes "m_current m = Some a" "m_heap m a = Some n" "ei_shm (n_info n) = Some (hdr, hs)"
    and "ei_shm_entries (n_info n) = k" "k \<le> length hs" "length (m_table m) = k" "distinct (map dev_name (m_table m))"
    and "\<forall>j<k. dev_name (m_table m ! j) = he_sdev_id (hs ! j) \<and> y_fork y j \<noteq> - 1"
  shows "\<exists>hs' tbl'. htxd_activate_all_ecg_devices y m =
      Some (m\<lparr>m_heap := (m_heap m)(a \<mapsto> n\<lparr>n_info := (n_info n)\<lparr>ei_shm := Some (hdr\<lparr>hdr_started := 1\<rparr>, hs'),
             ei_status := ECG_ACTIVE\<rparr>\<rparr>), m_table := tbl', m_loaded_count := m_loaded_count m + int k\<rparr>) \<and>
    length hs' = length hs \<and> (\<forall>j<k. hs' ! j = (hs ! j)\<lparr>he_PID := y_fork y j\<rparr>) \<and>
    tbl' = map (\<lambda>j. (m_table m ! j)\<lparr>exer_pid := y_fork y j\<rparr>) [0..<k]"
proof -
  obtain hs' tbl' where l: "load_all (y_fork y) 0 k hs (m_table m) = (hs', tbl')" by fastforce
  have h: "length hs' = length hs" "\<forall>j<k. hs' ! j = (hs ! j)\<lparr>he_PID := y_fork y j\<rparr>"
    using load_all_entries [OF _ l] assms(5,8) by (auto simp: with_pid_def)
  have "tbl' = map (\<lambda>j. (m_table m ! j)\<lparr>exer_pid := y_fork y j\<rparr>) [0..<k]"
    using load_all_table [of "m_table m" 0 k hs "y_fork y"] l assms(5-8) by (auto simp: list_eq_iff_nth_eq)
  then show ?thesis using h l assms
    by (auto simp: htxd_activate_all_ecg_devices_def set_info_Some)
qed

definition runs :: "sys \<Rightarrow> entries \<Rightarrow> (cstring \<times> entries) list \<Rightarrow> string \<Rightarrow> daemon \<Rightarrow> bool" where
  "runs y ds sts name d \<longleftrightarrow>
     (\<exists>m n hdr hs.
        d_state d = RUNNING_MDT \<and> d_mgr d = Some m \<and> manages m [y_addr y] \<and> m_running m = name \<and>
        m_heap m (y_addr y) = Some n \<and> ei_name (n_info n) = name \<and> ei_status (n_info n) = ECG_ACTIVE \<and>
        ei_shm_key (n_info n) = ECG_SHMKEY_START + d_key_off d \<and>
        ei_shm (n_info n) = Some (hdr, hs) \<and> hdr_started hdr = 1 \<and> hdr_num_entries hdr = length sts \<and>
        length sts \<le> length hs \<and> ei_exer_entries (n_info n) = int (length sts) \<and>
        (\<forall>j<length sts. hs ! j = (device_entry ds (sts ! j) zero_HE)\<lparr>he_PID := y_fork y j\<rparr>) \<and>
        m_table m = map (\<lambda>j. (table_entry (keys_of (n_info n)) (fst (sts ! j)) j)\<lparr>exer_pid := y_fork y j\<rparr>)
          [0..<length sts])"

lemma table_entry_name [simp]: "dev_name (table_entry k n j) = n"
  by (simp add: table_entry_def)

lemma device_entry_sdev [simp]: "he_sdev_id (device_entry ds st h) = fst st"
  by (simp add: device_entry_def entry_of_def)

lemma map_upt_nth: "map (\<lambda>j. f (xs ! j)) [0..<length xs] = map f xs"
  by (rule nth_equalityI) simp_all

lemma load_hxsmsg_frame [simp]:
  "d_state (htxd_load_hxsmsg y d) = d_state d" "d_mgr (htxd_load_hxsmsg y d) = d_mgr d"
  "d_key_off (htxd_load_hxsmsg y d) = d_key_off d"
  by (simp_all add: htxd_load_hxsmsg_def)

lemma start_equaliser_frame [simp]:
  "d_state (htxd_start_equaliser y i d) = d_state d" "d_mgr (htxd_start_equaliser y i d) = d_mgr d"
  "d_key_off (htxd_start_equaliser y i d) = d_key_off d"
  by (simp_all add: htxd_start_equaliser_def)

lemma load_hxstats_frame:
  "htxd_load_hxstats y d = Some d' \<Longrightarrow> d_state d' = d_state d \<and> d_mgr d' = d_mgr d \<and> d_key_off d' = d_key_off d"
  by (auto simp: htxd_load_hxstats_def split: if_splits)

lemma load_hxstats_Some: "y_stats_pid y \<noteq> - 1 \<Longrightarrow> \<exists>d'. htxd_load_hxstats y d = Some d'"
  by (simp add: htxd_load_hxstats_def)

lemma run_mdt_file:
  assumes "mdt_file ds sts" "sys_ok ds sts y" "d_state d \<noteq> SELECTED_MDT" "d_mgr d = None" "name \<noteq> []"
    "length name < 900"
  shows "\<exists>d'. htxd_option_method_run_mdt y name d = Some (0, ''ECG ('' @ name @ '') Activated.'', d') \<and> runs y ds sts name d'"
proof -
  note y = assms(2) [unfolded sys_ok_def]
  let ?a = "y_addr y" and ?init = "htxd_init_ecg_manager (\<lambda>_. None)"
  obtain m n hdr hs off where i: "htxd_init_ecg_info y name (d_key_off d) ?init = Some (0, off, m)"
    "m_heap m ?a = Some n" "ei_shm (n_info n) = Some (hdr, hs)" "ei_shm_entries (n_info n) = length sts"
    "length sts \<le> length hs" "ei_exer_entries (n_info n) = int (length sts)" "ei_equaliser (n_info n) = eq_zero"
    "hdr_num_entries hdr = length sts" "\<forall>j<length sts. hs ! j = device_entry ds (sts ! j) zero_HE"
    "m_table m = map (\<lambda>j. table_entry (keys_of (n_info n)) (fst (sts ! j)) j) [0..<length sts]"
    "ei_shm_key (n_info n) = ECG_SHMKEY_START + off"
    using init_ecg_info_file [OF assms(1,2), of name "d_key_off d" "\<lambda>_. None"] by (elim exE conjE) (rule that; assumption)
  have e: "manages m [?a]" "m_current m = Some ?a" "loaded name (n_info n)"
    using init_ecg_info_effect [OF manages_init, of y name "d_key_off d" "\<lambda>_. None" 0 off m] i(1,2) y by auto
  let ?n = "n\<lparr>n_info := (n_info n)\<lparr>ei_run_start_time := wrap32 (y_time y)\<rparr>\<rparr>"
  let ?m = "m\<lparr>m_heap := (m_heap m)(?a \<mapsto> ?n)\<rparr>"
  have d: "distinct (map dev_name (m_table ?m))"
    using i(10) assms(1) map_upt_nth [of fst sts] by (simp add: mdt_file_def comp_def)
  obtain hs' tbl' where act: "htxd_activate_all_ecg_devices y ?m =
      Some (?m\<lparr>m_heap := (m_heap ?m)(?a \<mapsto> ?n\<lparr>n_info := (n_info ?n)\<lparr>ei_shm := Some (hdr\<lparr>hdr_started := 1\<rparr>, hs'),
             ei_status := ECG_ACTIVE\<rparr>\<rparr>), m_table := tbl', m_loaded_count := m_loaded_count ?m + int (length sts)\<rparr>)"
    "length hs' = length hs" "\<forall>j<length sts. hs' ! j = (hs ! j)\<lparr>he_PID := y_fork y j\<rparr>"
    "tbl' = map (\<lambda>j. (m_table ?m ! j)\<lparr>exer_pid := y_fork y j\<rparr>) [0..<length sts]"
    using activate_all_devices [of ?m ?a ?n hdr hs "length sts" y] i(3-5,9,10) e(2) d y by auto
  have f: "htxd_get_ecg_info_node ?init name = Some None"
    by (simp add: htxd_get_ecg_info_node_def htxd_init_ecg_manager_def find_node.simps)
  have t: "loaded_text name '' Activated'' '' Activated.'' i' = ''ECG ('' @ name @ '') Activated.''"
    if "ei_exer_entries i' = int (length sts)" "ei_shm_entries i' = length sts" for i'
    using that assms(1) by (simp add: loaded_text_def mdt_file_def)
  let ?m' = "?m\<lparr>m_heap := (m_heap ?m)(?a \<mapsto> ?n\<lparr>n_info := (n_info ?n)\<lparr>ei_shm := Some (hdr\<lparr>hdr_started := 1\<rparr>, hs'),
     ei_status := ECG_ACTIVE\<rparr>\<rparr>), m_table := tbl', m_loaded_count := m_loaded_count ?m + int (length sts)\<rparr>"
  have "\<exists>d'. run_loaded y name m d1 = Some (0, ''ECG ('' @ name @ '') Activated.'', d') \<and> d_state d' = RUNNING_MDT \<and>
      d_key_off d' = d_key_off d1 \<and> d_mgr d' = Some (?m'\<lparr>m_running := name\<rparr>)" for d1
  proof -
    obtain d2 where d2: "htxd_load_hxstats y (d1\<lparr>d_state := STARTING_MDT, d_mgr := Some ?m, d_syscfg := True,
        d_mgr := Some (?m'\<lparr>m_running := name\<rparr>)\<rparr>) = Some d2" using load_hxstats_Some y by blast
    show ?thesis using y e(2) i(2) act(1) i(4,6) assms(6) d2 load_hxstats_frame [OF d2]
      by (simp add: run_loaded_def set_info_Some t reply_def fits_def)
  qed
  then obtain d' where d': "htxd_option_method_run_mdt y name d = Some (0, ''ECG ('' @ name @ '') Activated.'', d')"
    "d_state d' = RUNNING_MDT" "d_key_off d' = off" "d_mgr d' = Some (?m'\<lparr>m_running := name\<rparr>)"
    using assms(3,4,5) y f i(1)
    by (fastforce simp: htxd_option_method_run_mdt_def mdt_name_def create_ecg_manager_def Let_def)
  have "manages (?m'\<lparr>m_running := name\<rparr>) [?a]" using e(1) i(2) by (simp add: manages_def)
  moreover have "\<forall>j<length sts. hs' ! j = (device_entry ds (sts ! j) zero_HE)\<lparr>he_PID := y_fork y j\<rparr>"
    using act(3) i(9) by simp
  moreover have "tbl' = map (\<lambda>j. (table_entry (keys_of (n_info n)) (fst (sts ! j)) j)\<lparr>exer_pid := y_fork y j\<rparr>) [0..<length sts]"
    using act(4) i(10) by simp
  ultimately have "runs y ds sts name d'"
    using d'(2-) e(3) i(5,6,8,11) act(2) by (simp add: runs_def loaded_def keys_of_def)
  then show ?thesis using d'(1) by blast
qed

subsection \<open>Properties\<close>

text \<open>C3: Running an MDT that is not loaded, from a file of complete stanzas of distinct devices: the command answers that
  it is activated, the daemon is in the running state with exactly this MDT, the shared memory has one entry per stanza in
  the order of the file, with the values of the stanza and the process id of its exerciser, and the table has one entry
  per device with the same process id and the keys of the MDT.\<close>

theorem run_mdt_starts:
  assumes "mdt_file ds sts" "sys_ok ds sts y" "d_state d \<noteq> SELECTED_MDT" "d_mgr d = None" "name \<noteq> []"
    "length name < 900"
  shows "\<exists>d'. htxd_option_method_run_mdt y name d = Some (0, ''ECG ('' @ name @ '') Activated.'', d') \<and> runs y ds sts name d'"
  by (rule run_mdt_file [OF assms])

definition sample_info :: ecg_info where
  "sample_info = \<lparr>ei_name = [], ei_start_time = [], ei_run_start_time = 0, ei_status = 0, ei_shm_key = 0, ei_sem_key = 0, ei_sem_id = 0,
     ei_exer_entries = 0, ei_max_entries = 0, ei_shm_entries = 0, ei_equaliser = eq_zero, ei_sems = [], ei_shm = None\<rparr>"

definition sample_sys :: sys where
  "sample_sys = \<lparr>y_home = ''/usr/lpp/htx'', y_exists = True,
     y_file = Some (texts [(''default'', sample_entries), (''mem0'', [(''port'', ''8'')])]), y_junk = (\<lambda>_. []), y_addr = 1,
     y_node = \<lparr>n_next = None, n_prev = None, n_info = sample_info\<rparr>, y_sem_id = 5, y_old_sems = [], y_shm_ok = True,
     y_max_add = 2, y_cap = 10, y_time = 0, y_fork = (\<lambda>j. 100 + int j), y_msg_pid = 50, y_stats_pid = 51, y_eq_pid = 52,
     y_syscfg = 0, y_polls = (\<lambda>_. replicate 1 zero_HE)\<rparr>"

definition sample_daemon :: daemon where
  "sample_daemon = \<lparr>d_state = IDLE, d_mgr = None, d_key_off = 0, d_created = False, d_ecg_shutdown = False,
     d_msg_pid = 0, d_stats_pid = 0, d_eq_pid = 0, d_hang = False, d_stop_watch = False, d_syscfg = False,
     d_test_active = 0, d_cur_shm_key = 0, d_env = Map.empty\<rparr>"

lemma sample_device_ok: "device_ok sample_entries (''mem0'', [(''port'', ''8'')])"
proof -
  let ?es = "[(''port'', ''8'')]"
  have v: "val_ok ''8''" "key_ok ''port''" by (simp_all add: val_ok_def key_ok_def graph_def code_def)
  have c: "complete (vmap sample_entries ++ vmap ?es)"
    by (rule complete_short) (simp_all add: uq_def map_add_def map_of_sample)
  have "length (show_stanza ''mem0'' (?es @ missing ?es sample_entries)) < 600"
    by (simp add: show_stanza_def show_line_def sample_entries_def sample_keys_def string_keys_def value_keys_def missing_def)
  then show ?thesis using v c sample_ok(3) by (simp add: device_ok_def entries_ok_def)
qed

lemma sample_mdt: "mdt_file sample_entries [(''mem0'', [(''port'', ''8'')])]"
    "sys_ok sample_entries [(''mem0'', [(''port'', ''8'')])] sample_sys"
proof -
  have "length (show_stanza ''default'' sample_entries) < 500"
    by (simp add: show_stanza_def show_line_def sample_entries_def sample_keys_def string_keys_def value_keys_def)
  moreover have "map_of sample_entries ''equaliser_flag'' = None"
    by (simp add: map_of_sample sample_keys_def string_keys_def value_keys_def flip: vmap_None)
  ultimately show "mdt_file sample_entries [(''mem0'', [(''port'', ''8'')])]"
    using sample_ok(1) sample_device_ok by (simp add: mdt_file_def)
  show "sys_ok sample_entries [(''mem0'', [(''port'', ''8'')])] sample_sys" by (simp add: sys_ok_def sample_sys_def)
qed

theorem run_mdt_starts_witness:
  "\<exists>d. htxd_option_method_run_mdt sample_sys ''mdt.bu'' sample_daemon = Some (0, ''ECG (mdt.bu) Activated.'', d) \<and>
     runs sample_sys sample_entries [(''mem0'', [(''port'', ''8'')])] ''mdt.bu'' d"
  using run_mdt_starts [OF sample_mdt, of sample_daemon "''mdt.bu''"] by (simp add: sample_daemon_def)

lemma halted_loop_fold:
  "halted_loop n i h ss = (if he_start_halted h = 1 then fold (\<lambda>k ss. sem_write ss k 1) (map Run [i..<i + n]) ss else ss)"
proof (induction n arbitrary: i ss)
  case (Suc n)
  have "[i..<i + Suc n] = i # [Suc i..<Suc i + n]" by (simp add: upt_conv_Cons)
  then show ?case using Suc by (simp add: device_sem_ops)
qed simp

text \<open>Whether devices start halted is decided by the first entry alone: if it asks for it, the run semaphore of every
  device is raised, and otherwise none, whatever the other entries say.\<close>

theorem start_halted_by_first:
  assumes "htxd_init_start_halted_exerciser_mode n hs ss = Some ss'" "0 < n" "sem_index (Run p) < length ss"
  shows "sem_read ss' (Run p) = (if he_start_halted (hs ! 0) = 1 \<and> p < n then 1 else sem_read ss (Run p))"
  using assms sem_store.read_fold [of 1 "map Run [0..<n]" ss "Run p"]
  by (auto simp: htxd_init_start_halted_exerciser_mode_def halted_loop_fold split: if_splits)

theorem start_halted_by_first_witness:
  "\<exists>ss. htxd_init_start_halted_exerciser_mode 2 [zero_HE, zero_HE\<lparr>he_start_halted := 1\<rparr>] (replicate 12 0) = Some ss \<and>
     sem_read ss (Run 1) = 0"
proof -
  have "sem_read (replicate 12 0) (Run 1) = 0" by (simp add: sem_read_def semctl_GETVAL_def run_index_def)
  then show ?thesis
    using start_halted_by_first [of 2 "[zero_HE, zero_HE\<lparr>he_start_halted := 1\<rparr>]" "replicate 12 0" _ 1]
    by (auto simp: htxd_init_start_halted_exerciser_mode_def zero_HE_def run_index_def)
qed

subsection \<open>Shutting down ends\<close>

lemma stop_wait_ends:
  assumes "\<forall>q\<le>k. n \<le> length (polls q)" "\<forall>h\<in>set (take n (polls k)). he_PID h = 0" "q \<le> k"
  shows "\<exists>r\<le>k. stop_wait (int n) polls q = Some (polls r) \<and> (\<forall>h\<in>set (take n (polls r)). he_PID h = 0)"
  using assms(3)
proof (induction "k - q" arbitrary: q)
  case 0
  then have "q = k" by simp
  then show ?case using assms
    by (subst stop_wait.simps) (auto simp: htxd_count_exer_still_running_def filter_True)
next
  case (Suc l)
  let ?z = "filter (\<lambda>h. he_PID h = 0) (take n (polls q))"
  have c: "htxd_count_exer_still_running (int n) (polls q) = Some (int n - int (length ?z))"
    using spec [OF assms(1), of q] Suc.prems by (simp add: htxd_count_exer_still_running_def)
  show ?case
  proof (cases "length ?z = n")
    case True
    then have "length ?z = length (take n (polls q))" using spec [OF assms(1), of q] Suc.prems by simp
    then have "\<forall>h\<in>set (take n (polls q)). he_PID h = 0"
      using length_filter_less [of _ "take n (polls q)" "\<lambda>h. he_PID h = 0"] by (metis less_irrefl)
    then show ?thesis using c True Suc.prems by (subst stop_wait.simps) auto
  next
    case False
    then have "stop_wait (int n) polls q = stop_wait (int n) polls (Suc q)" using c by (subst stop_wait.simps) simp
    then show ?thesis using Suc.hyps(1) [of "Suc q"] Suc.hyps(2) Suc.prems by simp
  qed
qed

lemma find_last_one:
  assumes "manages m [a]" "m_heap m a = Some n"
  shows "find_last_node (m_heap m) name (m_list m) None = Some (if ei_name (n_info n) = name then Some a else None)"
  using assms by (subst find_last_node.simps, subst find_last_node.simps) (auto simp: manages_def)

text \<open>The one MDT of a running or selected daemon.\<close>

definition holds_one :: "daemon \<Rightarrow> nat \<Rightarrow> ecg_info \<Rightarrow> bool" where
  "holds_one d a i \<longleftrightarrow>
     (\<exists>m n. d_mgr d = Some m \<and> manages m [a] \<and> m_current m = Some a \<and> m_heap m a = Some n \<and> n_info n = i)"



subsection \<open>The table and the entries agree\<close>

definition agree :: "texer_list list \<Rightarrow> htxshm_HE list \<Rightarrow> bool" where
  "agree tbl hs \<longleftrightarrow>
     (\<forall>e\<in>set tbl. 0 \<le> exer_pos e \<and> nat (exer_pos e) < length hs \<and> dev_name e = he_sdev_id (hs ! nat (exer_pos e)) \<and>
        exer_pid e = he_PID (hs ! nat (exer_pos e))) \<and>
     distinct (map exer_pos tbl)"

lemma agree_reset:
  assumes "agree tbl hs" "i < length tbl"
  shows "agree (tbl[i := (tbl ! i)\<lparr>exer_pid := p\<rparr>]) (hs[nat (exer_pos (tbl ! i)) := (hs ! nat (exer_pos (tbl ! i)))\<lparr>he_PID := p\<rparr>])"
proof -
  let ?t = "tbl[i := (tbl ! i)\<lparr>exer_pid := p\<rparr>]"
  have m: "map exer_pos ?t = map exer_pos tbl" using assms(2) by (simp add: map_update list_update_same_conv)
  have d: "exer_pos (tbl ! j) = exer_pos (tbl ! i) \<longleftrightarrow> j = i" if "j < length tbl" for j
    using assms that nth_eq_iff_index_eq [of "map exer_pos tbl" j i] by (auto simp: agree_def)
  have "\<forall>j<length tbl. nat (exer_pos (tbl ! j)) = nat (exer_pos (tbl ! i)) \<longleftrightarrow> j = i"
    using assms d by (metis agree_def nat_eq_iff2 nat_0_le nth_mem)
  then show ?thesis using assms m by (auto simp: agree_def all_set_conv_all_nth nth_list_update)
qed

text \<open>C26: When an exerciser ends while nothing is being shut down, its process id is cleared in the table and in its entry,
  the two keep agreeing on all devices, no other device is touched, and the message is a hard error unless the end was
  asked for by the user, by a reconfiguration or by the end of the run time.\<close>

theorem exit_recorded:
  assumes "agree tbl hs" "i < length tbl" "\<forall>j<i. exer_pid (tbl ! j) \<noteq> exer_pid (tbl ! i)"
  shows "\<exists>text sev tbl' hs'. htxd_reset_exer_pid False (exer_pid (tbl ! i)) reason tbl hs = Some (Some (text, sev), tbl', hs') \<and>
    agree tbl' hs' \<and>
    (let p = nat (exer_pos (tbl ! i)); h = hs ! p
     in exer_pid (tbl' ! i) = 0 \<and> he_PID (hs' ! p) = 0 \<and> (\<forall>j<length tbl. j \<noteq> i \<longrightarrow> tbl' ! j = tbl ! j) \<and>
        (\<forall>q<length hs. q \<noteq> p \<longrightarrow> hs' ! q = hs ! q) \<and> he_sdev_id h = dev_name (tbl ! i) \<and>
        (sev = HTX_HE_HARD_ERROR \<longleftrightarrow> he_user_term h = 0 \<and> he_DR_term h = 0 \<and> he_test_run_period_expired h = 0))"
proof -
  have "htxd_get_exer_position_in_exer_table_by_pid tbl (exer_pid (tbl ! i)) = Some i"
  proof (cases "htxd_get_exer_position_in_exer_table_by_pid tbl (exer_pid (tbl ! i))")
    case None
    then show ?thesis using nth_mem [OF assms(2)]
      by (auto simp: htxd_get_exer_position_in_exer_table_by_pid_def position_where_None)
  next
    case (Some k)
    then have "exer_pid (tbl ! k) = exer_pid (tbl ! i)" "\<forall>j<k. exer_pid (tbl ! j) \<noteq> exer_pid (tbl ! i)"
      by (auto simp: htxd_get_exer_position_in_exer_table_by_pid_def dest!: position_where_Some)
    then show ?thesis using assms(3) Some by (metis linorder_neqE_nat)
  qed
  moreover have "nat (exer_pos (tbl ! i)) < length hs" "dev_name (tbl ! i) = he_sdev_id (hs ! nat (exer_pos (tbl ! i)))"
    using assms(1,2) by (auto simp: agree_def)
  ultimately show ?thesis using agree_reset [OF assms(1,2), of 0] assms(2)
    by (auto simp: htxd_reset_exer_pid_def Let_def nth_list_update)
qed

theorem exit_recorded_witness:
  "\<exists>text sev tbl' hs'. htxd_reset_exer_pid False 7 ''signal'' [(table_entry sample_ecg_keys ''mem0'' 0)\<lparr>exer_pid := 7\<rparr>]
     [zero_HE\<lparr>he_sdev_id := ''mem0'', he_PID := 7\<rparr>] = Some (Some (text, sev), tbl', hs') \<and> he_PID (hs' ! 0) = 0 \<and> sev = 1"
  using exit_recorded [of "[(table_entry sample_ecg_keys ''mem0'' 0)\<lparr>exer_pid := 7\<rparr>]"
      "[zero_HE\<lparr>he_sdev_id := ''mem0'', he_PID := 7\<rparr>]" 0 "''signal''"]
  by (auto simp: agree_def table_entry_def Let_def zero_HE_def)

end
