(* ===== verification/Htxd_Device.thy ===== *)
theory Htxd_Device
  imports Htxd_Mdt
begin

text \<open>
  The commands on devices of \<open>bin/htxd/htxd_option_method_misc.c\<close>: activate, suspend, continue or stop on error,
  terminate and restart, for a list of devices, for all devices of an ECG, or for all ECGs.

  The list of devices in a command is a text that \<open>strtok\<close> cuts in place, and that a pattern (a name ending in \<open>*\<close>)
  replaces by the names it stands for: what is left of the text after a step is part of the step's result. The
  dying of a signalled exerciser is a later event (\<open>htxd_reset_exer_pid\<close>).
\<close>

subsection \<open>Lists of devices\<close>

function tokens :: "string \<Rightarrow> string list" where
  "tokens [] = []"
| "tokens (c # s) =
     (if c = SP then tokens s
      else (c # takeWhile (\<lambda>d. d \<noteq> SP) s) # tokens (dropWhile (\<lambda>d. d \<noteq> SP) s))"
  by pat_completeness auto
termination
  by (relation "measure length") (auto simp: le_imp_less_Suc length_dropWhile_le)

text \<open>After a loop of \<open>strtok\<close> calls over the whole text, a NUL stands behind the first token.\<close>

definition after_strtok :: "string \<Rightarrow> string" where
  "after_strtok s = takeWhile (\<lambda>d. d = SP) s @ takeWhile (\<lambda>d. d \<noteq> SP) (dropWhile (\<lambda>d. d = SP) s)"

definition htxd_correct_device_list_for_all_devices :: "string \<Rightarrow> string" where
  "htxd_correct_device_list_for_all_devices s = (if ''all'' \<in> set (tokens s) then [] else s)"

definition htxd_is_list_regular_expression :: "string \<Rightarrow> bool" where
  "htxd_is_list_regular_expression s \<longleftrightarrow> strchr s (CHR ''*'') \<noteq> None"

text \<open>The entries of the loaded devices.\<close>

definition entries_of :: "ecg_info \<Rightarrow> htxshm_HE list fault" where
  "entries_of i =
     do { (hdr, hs) \<leftarrow> ei_shm i; if length hs < ei_shm_entries i then None else Some (take (ei_shm_entries i) hs) }"

definition expand_token :: "string list \<Rightarrow> string \<Rightarrow> string list" where
  "expand_token names t =
     (if last t = CHR ''*'' then filter (\<lambda>n. strncmp n t (length t - 1) = 0) names else [t])"

text \<open>\<open>room\<close> is the size of the buffer the expanded list is copied back to; the list itself is built in 512
  characters.\<close>

definition htxd_expand_device_name_list :: "nat \<Rightarrow> ecg_info \<Rightarrow> string \<Rightarrow> string fault" where
  "htxd_expand_device_name_list room i s =
     do { hs \<leftarrow> entries_of i;
          t \<leftarrow> fits MAX_OPTION_LIST_LENGTH
            (concat (map (\<lambda>n. n @ [SP]) (concat (map (expand_token (map he_sdev_id hs)) (tokens s)))));
          fits room t }"

definition expanded :: "nat \<Rightarrow> ecg_info \<Rightarrow> string \<Rightarrow> string fault" where
  "expanded room i s = (if htxd_is_list_regular_expression s then htxd_expand_device_name_list room i s else Some s)"

subsection \<open>Acting on the devices of a list\<close>

text \<open>What the system answers to the signals, scripts and forks of a command, by their number, and what the stack holds
  where an array was not filled.\<close>

record dev_sys =
  v_kill :: "nat \<Rightarrow> bool"
  v_script :: "nat \<Rightarrow> int"
  v_fork :: "nat \<Rightarrow> int"
  v_junk :: string

text \<open>What an action on a device changes: its ECG, the table of exercisers, and the number of system calls so far.\<close>

record site =
  s_info :: ecg_info
  s_table :: "texer_list list"
  s_calls :: nat

type_synonym act = "nat \<Rightarrow> site \<Rightarrow> int \<times> site"

definition find_device :: "htxshm_HE list \<Rightarrow> string \<Rightarrow> nat option" where
  "find_device hs name = position_where (\<lambda>h. strcmp (he_sdev_id h) name = 0) hs 0"

fun for_names :: "act \<Rightarrow> string list \<Rightarrow> int \<times> site \<Rightarrow> (int \<times> site) fault" where
  "for_names act [] r = Some r"
| "for_names act (n # ns) (rc, s) =
     do { hs \<leftarrow> entries_of (s_info s);
          for_names act ns (case find_device hs n of None \<Rightarrow> (rc, s) | Some p \<Rightarrow> act p s) }"

text \<open>The body the device functions share: with \<open>patterns\<close> the list is expanded first.\<close>

definition on_devices :: "bool \<Rightarrow> nat \<Rightarrow> act \<Rightarrow> site \<Rightarrow> string \<Rightarrow> (int \<times> site \<times> string) fault" where
  "on_devices patterns room act s l =
     do { l \<leftarrow> (if patterns then expanded room (s_info s) l else Some l);
          (rc, s) \<leftarrow> for_names act (tokens l) (0, s);
          Some (rc, s, after_strtok l) }"

definition on_all :: "act \<Rightarrow> site \<Rightarrow> site" where
  "on_all act s = fold (\<lambda>p s. snd (act p s)) [0..<ei_shm_entries (s_info s)] s"

definition set_run :: "nat \<Rightarrow> act" where
  "set_run v p s = (0, s\<lparr>s_info := (s_info s)\<lparr>ei_sems := snd (htxd_set_device_run_sem_status (ei_sems (s_info s)) p v)\<rparr>\<rparr>)"

definition set_HE :: "(htxshm_HE \<Rightarrow> htxshm_HE) \<Rightarrow> nat \<Rightarrow> ecg_info \<Rightarrow> ecg_info" where
  "set_HE f p i = i\<lparr>ei_shm := map_option (\<lambda>(hdr, hs). (hdr, hs[p := f (hs ! p)])) (ei_shm i)\<rparr>"

definition set_coe :: "nat \<Rightarrow> act" where
  "set_coe v p s = (0, s\<lparr>s_info := set_HE (\<lambda>h. h\<lparr>he_cont_on_err := v\<rparr>) p (s_info s)\<rparr>)"

definition htxd_activate_device :: "nat \<Rightarrow> site \<Rightarrow> string \<Rightarrow> (int \<times> site \<times> string) fault" where
  "htxd_activate_device room = on_devices True room (set_run 0)"

definition htxd_activate_all_device :: "site \<Rightarrow> (int \<times> site) fault" where
  "htxd_activate_all_device s = Some (0, on_all (set_run 0) s)"

definition htxd_suspend_device :: "nat \<Rightarrow> site \<Rightarrow> string \<Rightarrow> (int \<times> site \<times> string) fault" where
  "htxd_suspend_device room = on_devices True room (set_run 1)"

definition htxd_suspend_all_device :: "site \<Rightarrow> (int \<times> site) fault" where
  "htxd_suspend_all_device s = Some (0, on_all (set_run 1) s)"

definition htxd_coe_device :: "nat \<Rightarrow> site \<Rightarrow> string \<Rightarrow> (int \<times> site \<times> string) fault" where
  "htxd_coe_device room = on_devices True room (set_coe 1)"

definition htxd_coe_all_device :: "site \<Rightarrow> (int \<times> site) fault" where
  "htxd_coe_all_device s = do { _ \<leftarrow> entries_of (s_info s); Some (0, on_all (set_coe 1) s) }"

definition htxd_soe_device :: "nat \<Rightarrow> site \<Rightarrow> string \<Rightarrow> (int \<times> site \<times> string) fault" where
  "htxd_soe_device room = on_devices True room (set_coe 0)"

definition htxd_soe_all_device :: "site \<Rightarrow> (int \<times> site) fault" where
  "htxd_soe_all_device s = do { _ \<leftarrow> entries_of (s_info s); Some (0, on_all (set_coe 0) s) }"

subsection \<open>Terminating and restarting\<close>

definition entry_at :: "nat \<Rightarrow> ecg_info \<Rightarrow> htxshm_HE" where
  "entry_at p i = (case ei_shm i of None \<Rightarrow> zero_HE | Some (_, hs) \<Rightarrow> hs ! p)"

text \<open>The run semaphore is cleared for the signal to reach the exerciser, and restored afterwards. A failed signal takes
  the request back.\<close>

definition htxd_set_device_terminate_status :: "dev_sys \<Rightarrow> act" where
  "htxd_set_device_terminate_status v p s =
     (let i = s_info s; h = entry_at p i
      in if he_PID h = 0 \<or> he_tm_last_upd h = 0 then (0, s)
         else
           (let saved = htxd_get_device_run_sem_status (ei_sems i) p;
                ss = snd (htxd_set_device_run_sem_status (ei_sems i) p 0);
                ss = snd (htxd_set_device_error_sem_status ss p 0);
                sent = v_kill v (s_calls s);
                h = h\<lparr>he_user_term := 1, he_max_cycles := 0\<rparr>;
                h = (if sent then h else h\<lparr>he_user_term := 0, he_DR_term := 0\<rparr>);
                ss = (if saved < 0 then ss else snd (htxd_set_device_run_sem_status ss p (nat saved)))
            in (if sent then v_script v (s_calls s) else - 1,
                s\<lparr>s_info := (set_HE (\<lambda>_. h) p i)\<lparr>ei_sems := ss\<rparr>, s_calls := Suc (s_calls s)\<rparr>)))"

definition htxd_terminate_device :: "dev_sys \<Rightarrow> site \<Rightarrow> string \<Rightarrow> (int \<times> site \<times> string) fault" where
  "htxd_terminate_device v = on_devices False 0 (htxd_set_device_terminate_status v)"

definition htxd_terminate_all_device :: "dev_sys \<Rightarrow> site \<Rightarrow> (int \<times> site) fault" where
  "htxd_terminate_all_device v s =
     do { _ \<leftarrow> entries_of (s_info s); Some (0, on_all (htxd_set_device_terminate_status v) s) }"

text \<open>The exerciser is started whether or not it still runs. Its entry keeps the marks of its end.\<close>

definition htxd_set_device_restart_status :: "dev_sys \<Rightarrow> act" where
  "htxd_set_device_restart_status v p s =
     (let (h, tbl) = htxd_load_exerciser (v_fork v (s_calls s)) (entry_at p (s_info s)) (s_table s)
      in (0, s\<lparr>s_info := set_HE (\<lambda>_. h) p (s_info s), s_table := tbl, s_calls := Suc (s_calls s)\<rparr>))"

definition htxd_restart_device :: "dev_sys \<Rightarrow> site \<Rightarrow> string \<Rightarrow> (int \<times> site \<times> string) fault" where
  "htxd_restart_device v = on_devices False 0 (htxd_set_device_restart_status v)"

definition htxd_restart_all_device :: "dev_sys \<Rightarrow> site \<Rightarrow> (int \<times> site) fault" where
  "htxd_restart_all_device v s =
     do { _ \<leftarrow> entries_of (s_info s); Some (0, on_all (htxd_set_device_restart_status v) s) }"

subsection \<open>The answer table\<close>

abbreviation (input) COE_SOE_STATE :: nat where "COE_SOE_STATE \<equiv> 1"
abbreviation (input) ACTIVE_SUSPEND_STATE :: nat where "ACTIVE_SUSPEND_STATE \<equiv> 2"
abbreviation (input) RUNNING_STATE :: nat where "RUNNING_STATE \<equiv> 3"
abbreviation (input) STRING_EXTRA_SPACE :: nat where "STRING_EXTRA_SPACE \<equiv> 5"

text \<open>The conversion \<open>%-\<close>\<open>n\<close>\<open>s\<close>.\<close>

definition pad_right :: "nat \<Rightarrow> string \<Rightarrow> string" where
  "pad_right n s = s @ replicate (n - length s) SP"

definition htxd_get_device_coe_soe_status :: "htxshm_HE \<Rightarrow> string" where
  "htxd_get_device_coe_soe_status h = (if he_cont_on_err h = 0 then ''SOE'' else ''COE'')"

definition htxd_get_device_active_suspend_status :: "sems \<Rightarrow> nat \<Rightarrow> string" where
  "htxd_get_device_active_suspend_status ss p =
     (if htxd_get_device_run_sem_status ss p = 0 then ''ACTIVE'' else ''SUSPEND'')"

definition htxd_get_common_command_result_row_entry :: "nat \<Rightarrow> ecg_info \<Rightarrow> nat \<Rightarrow> string fault" where
  "htxd_get_common_command_result_row_entry mode i p =
     (let h = entry_at p i;
          st = (if mode = COE_SOE_STATE then htxd_get_device_coe_soe_status h
                else htxd_get_device_active_suspend_status (ei_sems i) p)
      in fits 256 ([NL] @ pad_right 7 st @ [SP] @ pad_right 7 (he_sdev_id h) @ [SP] @
           pad_right 12 (he_adapt_desc h) @ [SP] @ pad_right 19 (he_device_desc h) @ [SP] @ he_slot_port h))"

text \<open>The rows a loop over devices appends to the answer.\<close>

fun cat_rows :: "(nat \<Rightarrow> string fault) \<Rightarrow> nat list \<Rightarrow> string fault" where
  "cat_rows row [] = Some []"
| "cat_rows row (p # ps) = do { r \<leftarrow> row p; rs \<leftarrow> cat_rows row ps; Some (r @ rs) }"

definition positions :: "htxshm_HE list \<Rightarrow> string list \<Rightarrow> nat list" where
  "positions hs names = List.map_filter (find_device hs) names"

text \<open>\<open>shown\<close> is the list of devices to show, if there is one, in a buffer of \<open>room\<close> characters.\<close>

definition htxd_get_common_command_result_ecg ::
  "nat \<Rightarrow> nat \<Rightarrow> ecg_info \<Rightarrow> string option \<Rightarrow> (string \<times> string option) fault" where
  "htxd_get_common_command_result_ecg mode room i shown =
     do { hs \<leftarrow> entries_of i;
          case shown of
            None \<Rightarrow>
              do { t \<leftarrow> cat_rows (htxd_get_common_command_result_row_entry mode i) [0..<ei_shm_entries i]; Some (t, None) }
          | Some l \<Rightarrow>
              do { l \<leftarrow> expanded room i l;
                   t \<leftarrow> cat_rows (htxd_get_common_command_result_row_entry mode i) (positions hs (tokens l));
                   Some (t, Some (after_strtok l)) } }"

text \<open>The walk over all ECGs, with the list that a step leaves.\<close>

partial_function (option) each_table ::
  "(ecg_info \<Rightarrow> string option \<Rightarrow> (string \<times> string option) fault) \<Rightarrow> node_heap \<Rightarrow> nat option \<Rightarrow> string option \<Rightarrow> string \<Rightarrow>
     string option" where
  "each_table table h p shown text =
     (case p of
        None \<Rightarrow> Some text
      | Some a \<Rightarrow>
          do { n \<leftarrow> h a;
               (t, shown) \<leftarrow> table (n_info n) shown;
               each_table table h (n_next n) shown (text @ t) })"

definition htxd_get_common_command_result_all_active_ecg ::
  "nat \<Rightarrow> nat \<Rightarrow> ecg_manager \<Rightarrow> string option \<Rightarrow> string \<Rightarrow> string fault" where
  "htxd_get_common_command_result_all_active_ecg mode room m shown text =
     each_table (htxd_get_common_command_result_ecg mode room) (m_heap m) (m_list m) shown text"

definition result_header :: string where
  "result_header = ''State   Dev     Adapt Desc   Device Desc         Slot Port\<newline>'' @
     ''-----------------------------------------------------------''"

definition htxd_get_common_command_result ::
  "nat \<Rightarrow> nat \<Rightarrow> ecg_manager \<Rightarrow> nat option \<Rightarrow> string option \<Rightarrow> string fault" where
  "htxd_get_common_command_result mode room m target shown =
     (case target of
        None \<Rightarrow> htxd_get_common_command_result_all_active_ecg mode room m shown result_header
      | Some a \<Rightarrow>
          do { n \<leftarrow> m_heap m a;
               (t, _) \<leftarrow> htxd_get_common_command_result_ecg mode room (n_info n) shown;
               Some (result_header @ t) })"

subsection \<open>One ECG or all of them\<close>

definition at_ecg ::
  "(site \<Rightarrow> string \<Rightarrow> (int \<times> site \<times> string) fault) \<Rightarrow> nat \<Rightarrow> nat \<Rightarrow> ecg_manager \<Rightarrow> string \<Rightarrow>
     (int \<times> nat \<times> ecg_manager \<times> string) fault" where
  "at_ecg act a k m l =
     do { node \<leftarrow> m_heap m a;
          (rc, s, l) \<leftarrow> act \<lparr>s_info = n_info node, s_table = m_table m, s_calls = k\<rparr> l;
          m \<leftarrow> set_info a (s_info s) (m\<lparr>m_table := s_table s\<rparr>);
          Some (rc, s_calls s, m, l) }"

text \<open>The result is that of the last ECG. The list a step leaves is what the next ECG gets.\<close>

partial_function (option) each_ecg ::
  "(site \<Rightarrow> string \<Rightarrow> (int \<times> site \<times> string) fault) \<Rightarrow> nat option \<Rightarrow> int \<times> nat \<times> ecg_manager \<times> string \<Rightarrow>
     (int \<times> nat \<times> ecg_manager \<times> string) option" where
  "each_ecg act p st =
     (case p of
        None \<Rightarrow> Some st
      | Some a \<Rightarrow>
          do { let (rc, k, m, l) = st;
               node \<leftarrow> m_heap m a;
               st \<leftarrow> at_ecg act a k m l;
               each_ecg act (n_next node) st })"

definition htxd_process_all_active_ecg_device ::
  "(site \<Rightarrow> string \<Rightarrow> (int \<times> site \<times> string) fault) \<Rightarrow> ecg_manager \<Rightarrow> string \<Rightarrow> (int \<times> ecg_manager \<times> string) fault" where
  "htxd_process_all_active_ecg_device act m l =
     do { (rc, _, m, l) \<leftarrow> each_ecg act (m_list m) (0, 0, m, l); Some (rc, m, l) }"

definition no_list :: "(site \<Rightarrow> (int \<times> site) fault) \<Rightarrow> site \<Rightarrow> string \<Rightarrow> (int \<times> site \<times> string) fault" where
  "no_list act s l = do { (rc, s) \<leftarrow> act s; Some (rc, s, l) }"

definition htxd_process_all_active_ecg :: "(site \<Rightarrow> (int \<times> site) fault) \<Rightarrow> ecg_manager \<Rightarrow> (int \<times> ecg_manager) fault" where
  "htxd_process_all_active_ecg act m =
     do { (rc, _, m, _) \<leftarrow> each_ecg (no_list act) (m_list m) (0, 0, m, []); Some (rc, m) }"

text \<open>The choice between a list and all devices, and between one ECG and all of them.\<close>

definition on_target ::
  "(site \<Rightarrow> string \<Rightarrow> (int \<times> site \<times> string) fault) \<Rightarrow> (site \<Rightarrow> (int \<times> site) fault) \<Rightarrow> nat option \<Rightarrow> ecg_manager \<Rightarrow>
     string \<Rightarrow> (int \<times> ecg_manager \<times> string) fault" where
  "on_target act act_all target m l =
     (case target of
        Some a \<Rightarrow> do { (rc, _, m, l) \<leftarrow> at_ecg (if l \<noteq> [] then act else no_list act_all) a 0 m l; Some (rc, m, l) }
      | None \<Rightarrow> if l \<noteq> [] then htxd_process_all_active_ecg_device act m l
                else do { (rc, m) \<leftarrow> htxd_process_all_active_ecg act_all m; Some (rc, m, l) })"

subsection \<open>The commands\<close>

definition htxd_validate_command_requirements :: "daemon \<Rightarrow> int" where
  "htxd_validate_command_requirements d =
     (if d_state d \<noteq> RUNNING_MDT \<and> d_state d \<noteq> SELECTED_MDT then - 1
      else case d_mgr d of None \<Rightarrow> - 2 | Some m \<Rightarrow> if m_list m = None then - 3 else 0)"

definition result_size :: "ecg_manager \<Rightarrow> nat" where
  "result_size m = nat (1024 + m_device_count m * 200)"

text \<open>The part all device commands begin with: the requirements, the device list, and the ECG that is named.\<close>

definition device_method ::
  "daemon \<Rightarrow> htxd_command \<Rightarrow> (ecg_manager \<Rightarrow> nat option \<Rightarrow> string \<Rightarrow> answer) \<Rightarrow> answer" where
  "device_method d c body =
     (let rc = htxd_validate_command_requirements d; l = htxd_correct_device_list_for_all_devices (c_option_list c)
      in if rc \<noteq> 0 then reply 1024 rc ''No ECG/MDT is currently running'' d
         else do {
           m \<leftarrow> d_mgr d;
           if c_ecg_name c = [] then body m None l
           else do {
             a \<leftarrow> htxd_get_ecg_info_node m (c_ecg_name c);
             case a of
               None \<Rightarrow> reply (result_size m) (- 1)
                 (''Specified ECG/MDT<'' @ c_ecg_name c @ ''> is not currently running'') d
             | Some a \<Rightarrow> body m (Some a) l } })"

definition answer_table :: "nat \<Rightarrow> nat \<Rightarrow> int \<Rightarrow> nat option \<Rightarrow> string option \<Rightarrow> ecg_manager \<Rightarrow> daemon \<Rightarrow> answer" where
  "answer_table mode room rc target shown m d =
     do { t \<leftarrow> htxd_get_common_command_result mode room m target shown;
          reply (result_size m) rc t (d\<lparr>d_mgr := Some m\<rparr>) }"

definition htxd_option_method_activate :: "htxd_command \<Rightarrow> daemon \<Rightarrow> answer" where
  "htxd_option_method_activate c d =
     device_method d c (\<lambda>m target l.
       do { (rc, m, cut) \<leftarrow> on_target (htxd_activate_device MAX_OPTION_LIST_LENGTH) htxd_activate_all_device target m l;
            cut \<leftarrow> fits (length l + STRING_EXTRA_SPACE) cut;
            answer_table ACTIVE_SUSPEND_STATE (length l + STRING_EXTRA_SPACE) rc target
              (if l = [] then None else Some cut) m d })"

text \<open>Without a list the table is made from an array that was never filled.\<close>

definition htxd_option_method_suspend :: "dev_sys \<Rightarrow> htxd_command \<Rightarrow> daemon \<Rightarrow> answer" where
  "htxd_option_method_suspend v c d =
     device_method d c (\<lambda>m target l.
       do { (rc, m, _) \<leftarrow> on_target (htxd_suspend_device MAX_OPTION_LIST_LENGTH) htxd_suspend_all_device target m l;
            shown \<leftarrow> fits MAX_OPTION_LIST_LENGTH (if l = [] then v_junk v else l);
            answer_table ACTIVE_SUSPEND_STATE MAX_OPTION_LIST_LENGTH rc target (Some shown) m d })"

definition htxd_option_method_terminate :: "dev_sys \<Rightarrow> htxd_command \<Rightarrow> daemon \<Rightarrow> answer" where
  "htxd_option_method_terminate v c d =
     device_method d c (\<lambda>m target l.
       do { (rc, m, cut) \<leftarrow> on_target (htxd_terminate_device v) (htxd_terminate_all_device v) target m l;
            answer_table RUNNING_STATE (length l + STRING_EXTRA_SPACE) rc target (if l = [] then None else Some cut) m d })"

definition htxd_option_method_restart :: "dev_sys \<Rightarrow> htxd_command \<Rightarrow> daemon \<Rightarrow> answer" where
  "htxd_option_method_restart v c d =
     device_method d c (\<lambda>m target l.
       do { (rc, m, cut) \<leftarrow> on_target (htxd_restart_device v) (htxd_restart_all_device v) target m l;
            answer_table RUNNING_STATE (length l + STRING_EXTRA_SPACE)
              (if target = None \<and> l \<noteq> [] then 0 else rc) target (if l = [] then None else Some cut) m d })"

text \<open>The list is expanded in a copy that has five spare characters.\<close>

definition htxd_option_method_coe :: "htxd_command \<Rightarrow> daemon \<Rightarrow> answer" where
  "htxd_option_method_coe c d =
     device_method d c (\<lambda>m target l.
       do { let room = length l + STRING_EXTRA_SPACE;
            (rc, m, cut) \<leftarrow> on_target (htxd_coe_device room) htxd_coe_all_device target m l;
            answer_table COE_SOE_STATE room rc target
              (if l = [] then None else if target = None then Some cut else Some l) m d })"

definition htxd_option_method_soe :: "htxd_command \<Rightarrow> daemon \<Rightarrow> answer" where
  "htxd_option_method_soe c d =
     device_method d c (\<lambda>m target l.
       do { let room = length l + STRING_EXTRA_SPACE;
            (rc, m, _) \<leftarrow> on_target (htxd_soe_device room) htxd_soe_all_device target m l;
            answer_table COE_SOE_STATE room rc target (if l = [] then None else Some l) m d })"

subsection \<open>What a device action promises\<close>

definition names_of :: "site \<Rightarrow> string list" where
  "names_of s = (case entries_of (s_info s) of None \<Rightarrow> [] | Some hs \<Rightarrow> map he_sdev_id hs)"

text \<open>The shared memory and the semaphores are there for all loaded devices, whose names are distinct, not empty and
  without blanks.\<close>

definition devices_ok :: "site \<Rightarrow> bool" where
  "devices_ok s \<longleftrightarrow>
     entries_of (s_info s) \<noteq> None \<and> (\<forall>p<ei_shm_entries (s_info s). sem_index (Ack p) < length (ei_sems (s_info s))) \<and>
     distinct (names_of s) \<and> (\<forall>n\<in>set (names_of s). n \<noteq> [] \<and> SP \<notin> set n)"

text \<open>A list of devices selects the devices it names, and those a name ending in \<open>*\<close> is a prefix of.\<close>

definition selects :: "string \<Rightarrow> string \<Rightarrow> bool" where
  "selects l n \<longleftrightarrow>
     (\<exists>t\<in>set (tokens l). if last t = CHR ''*'' then take (length t - 1) n = butlast t else n = t)"

lemma length_names: "devices_ok s \<Longrightarrow> length (names_of s) = ei_shm_entries (s_info s)"
  by (auto simp: devices_ok_def names_of_def entries_of_def split: bind_splits if_splits)

lemma find_device_names:
  assumes "devices_ok s" and "entries_of (s_info s) = Some hs"
  shows "find_device hs n = Some p \<longleftrightarrow> p < length (names_of s) \<and> names_of s ! p = n"
    and "find_device hs n = None \<longleftrightarrow> n \<notin> set (names_of s)"
proof -
  have ns: "names_of s = map he_sdev_id hs" using assms(2) by (simp add: names_of_def)
  have d: "distinct (map he_sdev_id hs)" using assms(1) ns by (simp add: devices_ok_def)
  show none: "find_device hs n = None \<longleftrightarrow> n \<notin> set (names_of s)"
    by (auto simp: find_device_def position_where_None ns)
  show "find_device hs n = Some p \<longleftrightarrow> p < length (names_of s) \<and> names_of s ! p = n"
  proof
    assume "find_device hs n = Some p"
    then show "p < length (names_of s) \<and> names_of s ! p = n"
      using position_where_Some [of _ hs 0 p] by (auto simp: find_device_def ns)
  next
    assume p: "p < length (names_of s) \<and> names_of s ! p = n"
    then have "n \<in> set (names_of s)" by auto
    then obtain q where "find_device hs n = Some q" using none by (cases "find_device hs n") auto
    moreover from this have "q < length hs" "he_sdev_id (hs ! q) = n"
      using position_where_Some [of _ hs 0 q] by (auto simp: find_device_def)
    then have "q = p" using p d by (auto simp: ns nth_eq_iff_index_eq [OF d, symmetric])
    ultimately show "find_device hs n = Some p" by simp
  qed
qed

lemma tokens_words:
  "(\<And>n. n \<in> set ns \<Longrightarrow> n \<noteq> [] \<and> SP \<notin> set n) \<Longrightarrow> tokens (concat (map (\<lambda>n. n @ [SP]) ns)) = ns"
proof (induction ns)
  case (Cons n ns)
  obtain c w where n: "n = c # w" and w: "SP \<notin> set w" "c \<noteq> SP" using Cons.prems [of n] by (cases n) auto
  have "takeWhile (\<lambda>d. d \<noteq> SP) (w @ SP # r) = w" "dropWhile (\<lambda>d. d \<noteq> SP) (w @ SP # r) = SP # r" for r
    using w(1) by (intro takeWhile_stop dropWhile_stop; auto)+
  with Cons n w(2) show ?case by simp
qed simp

lemma tokens_word: "t \<in> set (tokens l) \<Longrightarrow> t \<noteq> [] \<and> SP \<notin> set t"
proof (induction l rule: tokens.induct)
  case (2 c s)
  then show ?case by (auto split: if_splits dest: set_takeWhileD)
qed simp

lemma expanded_tokens:
  assumes "devices_ok s" and "expanded room (s_info s) l = Some l'" and "n \<in> set (names_of s)"
  shows "n \<in> set (tokens l') \<longleftrightarrow> selects l n"
proof (cases "htxd_is_list_regular_expression l")
  case True
  obtain hs where hs: "entries_of (s_info s) = Some hs" using assms(1) by (auto simp: devices_ok_def)
  let ?ns = "names_of s"
  have ns: "?ns = map he_sdev_id hs" by (simp add: names_of_def hs)
  let ?ws = "concat (map (expand_token ?ns) (tokens l))"
  have "w \<noteq> [] \<and> SP \<notin> set w" if "w \<in> set ?ws" for w
    using that tokens_word [of w l] assms(1) by (auto simp: expand_token_def devices_ok_def split: if_splits)
  then have "tokens (concat (map (\<lambda>n. n @ [SP]) ?ws)) = ?ws" by (rule tokens_words)
  moreover have "l' = concat (map (\<lambda>n. n @ [SP]) ?ws)" using assms(2) True hs
    by (auto simp: expanded_def htxd_expand_device_name_list_def ns bind_eq_Some_conv)
  ultimately have "tokens l' = ?ws" by simp
  moreover have "n \<in> set (expand_token ?ns t) \<longleftrightarrow>
      (if last t = CHR ''*'' then take (length t - 1) n = butlast t else n = t)" for t
    using assms(3) by (auto simp: expand_token_def strncmp_eq_0 butlast_conv_take)
  ultimately show ?thesis by (auto simp: selects_def)
next
  case False
  then have l: "l' = l" using assms(2) by (simp add: expanded_def)
  have sub: "set t \<subseteq> set l" if "t \<in> set (tokens l)" for t l
    using that by (induction l rule: tokens.induct) (auto split: if_splits dest: set_takeWhileD set_dropWhileD)
  have "last t \<noteq> CHR ''*''" if "t \<in> set (tokens l)" for t
  proof -
    have "last t \<in> set l" using tokens_word [OF that] sub [OF that] by auto
    then show ?thesis using False by (auto simp: htxd_is_list_regular_expression_def strchr_None)
  qed
  then show ?thesis by (auto simp: l selects_def)
qed

text \<open>The state after an action that changes what \<open>view\<close> shows of the devices for which \<open>P\<close> holds, and keeps the
  rest.\<close>

definition done_on ::
  "(nat \<Rightarrow> site \<Rightarrow> 'v) \<Rightarrow> ('v \<Rightarrow> 'v) \<Rightarrow> (site \<Rightarrow> 'r) \<Rightarrow> (string \<Rightarrow> bool) \<Rightarrow> site \<Rightarrow> site \<Rightarrow> bool" where
  "done_on view upd rest P s s' \<longleftrightarrow>
     devices_ok s' \<and> names_of s' = names_of s \<and> rest s' = rest s \<and>
     (\<forall>q<length (names_of s). view q s' = (if P (names_of s ! q) then upd (view q s) else view q s))"

locale device_action =
  fixes act :: act
    and view :: "nat \<Rightarrow> site \<Rightarrow> 'v"
    and upd :: "'v \<Rightarrow> 'v"
    and rest :: "site \<Rightarrow> 'r"
  assumes view_act: "devices_ok s \<Longrightarrow> p < length (names_of s) \<Longrightarrow> q < length (names_of s) \<Longrightarrow>
      view q (snd (act p s)) = (if q = p then upd (view q s) else view q s)"
    and act_keeps: "devices_ok s \<Longrightarrow> p < length (names_of s) \<Longrightarrow>
      devices_ok (snd (act p s)) \<and> names_of (snd (act p s)) = names_of s \<and> rest (snd (act p s)) = rest s"
    and act_result: "fst (act p s) = 0"
    and upd_idem: "upd (upd x) = upd x"
begin

lemma names_effect:
  "devices_ok s \<Longrightarrow> \<exists>s'. for_names act ns (0, s) = Some (0, s') \<and> done_on view upd rest (\<lambda>n. n \<in> set ns) s s'"
proof (induction ns arbitrary: s)
  case (Cons n ns)
  then obtain hs where hs: "entries_of (s_info s) = Some hs" by (auto simp: devices_ok_def)
  show ?case
  proof (cases "find_device hs n")
    case None
    then have "n \<notin> set (names_of s)" using find_device_names(2) Cons.prems hs by blast
    moreover obtain s' where "for_names act ns (0, s) = Some (0, s')" "done_on view upd rest (\<lambda>n. n \<in> set ns) s s'"
      using Cons by blast
    ultimately show ?thesis using None by (auto simp: hs done_on_def)
  next
    case (Some p)
    then have p: "p < length (names_of s)" "names_of s ! p = n" using find_device_names(1) Cons.prems hs by blast+
    let ?s1 = "snd (act p s)"
    have k: "devices_ok ?s1" "names_of ?s1 = names_of s" "rest ?s1 = rest s"
      using act_keeps [OF Cons.prems p(1)] by simp_all
    obtain s' where s': "for_names act ns (0, ?s1) = Some (0, s')" "done_on view upd rest (\<lambda>n. n \<in> set ns) ?s1 s'"
      using Cons.IH [OF k(1)] by blast
    have "act p s = (0, ?s1)" using act_result [of p s] by (simp add: prod_eq_iff)
    moreover have "names_of s ! q = n \<longleftrightarrow> q = p" if "q < length (names_of s)" for q
      using that p Cons.prems by (auto simp: devices_ok_def nth_eq_iff_index_eq)
    then have "done_on view upd rest (\<lambda>m. m \<in> set (n # ns)) s s'"
      using s'(2) k view_act [OF Cons.prems p(1)] by (auto simp: done_on_def upd_idem)
    ultimately show ?thesis using s'(1) by (simp add: hs Some)
  qed
qed (simp add: done_on_def)

lemma list_effect:
  assumes "devices_ok s" and "expanded room (s_info s) l \<noteq> None"
  shows "\<exists>s' r. on_devices True room act s l = Some (0, s', r) \<and> done_on view upd rest (selects l) s s'"
proof -
  obtain l' where l': "expanded room (s_info s) l = Some l'" using assms(2) by blast
  obtain s' where "for_names act (tokens l') (0, s) = Some (0, s')" "done_on view upd rest (\<lambda>n. n \<in> set (tokens l')) s s'"
    using names_effect [OF assms(1)] by blast
  then show ?thesis using l' expanded_tokens [OF assms(1) l'] by (auto simp: on_devices_def done_on_def)
qed

lemma all_effect:
  assumes "devices_ok s"
  shows "done_on view upd rest (\<lambda>_. True) s (on_all act s)"
proof -
  have "k \<le> length (names_of s) \<Longrightarrow>
      let s' = fold (\<lambda>p s. snd (act p s)) [0..<k] s
      in devices_ok s' \<and> names_of s' = names_of s \<and> rest s' = rest s \<and>
         (\<forall>q<length (names_of s). view q s' = (if q < k then upd (view q s) else view q s))" for k
  proof (induction k)
    case (Suc k)
    let ?s1 = "fold (\<lambda>p s. snd (act p s)) [0..<k] s"
    have k: "devices_ok ?s1" "names_of ?s1 = names_of s" "rest ?s1 = rest s"
      and v: "\<forall>q<length (names_of s). view q ?s1 = (if q < k then upd (view q s) else view q s)"
      using Suc by (simp_all add: Let_def)
    have lt: "k < length (names_of ?s1)" using Suc.prems k(2) by simp
    show ?case using act_keeps [OF k(1) lt] view_act [OF k(1) lt] k v by (auto simp: Let_def less_Suc_eq)
  qed (use assms in simp)
  from this [of "length (names_of s)"] show ?thesis
    by (simp add: done_on_def on_all_def Let_def length_names [OF assms, symmetric])
qed

end

subsection \<open>The actions keep the promise\<close>

text \<open>What there is of a device: its three semaphores and its entry; and what is not of a device.\<close>

definition device_view :: "nat \<Rightarrow> site \<Rightarrow> int \<times> int \<times> int \<times> htxshm_HE" where
  "device_view q s =
     (sem_read (ei_sems (s_info s)) (Run q), sem_read (ei_sems (s_info s)) (Err q), sem_read (ei_sems (s_info s)) (Ack q),
      entry_at q (s_info s))"

definition site_rest :: "site \<Rightarrow> int \<times> htxshm_hdr option \<times> texer_list list" where
  "site_rest s = (sem_read (ei_sems (s_info s)) System, map_option fst (ei_shm (s_info s)), s_table s)"

text \<open>The four parts of a device.\<close>

definition put_run :: "int \<Rightarrow> int \<times> int \<times> int \<times> htxshm_HE \<Rightarrow> int \<times> int \<times> int \<times> htxshm_HE" where
  "put_run r = (\<lambda>(_, e, a, h). (r, e, a, h))"

definition put_coe :: "nat \<Rightarrow> int \<times> int \<times> int \<times> htxshm_HE \<Rightarrow> int \<times> int \<times> int \<times> htxshm_HE" where
  "put_coe v = (\<lambda>(r, e, a, h). (r, e, a, h\<lparr>he_cont_on_err := v\<rparr>))"

definition put_term :: "int \<times> int \<times> int \<times> htxshm_HE \<Rightarrow> int \<times> int \<times> int \<times> htxshm_HE" where
  "put_term = (\<lambda>(r, e, a, h). if he_PID h = 0 \<or> he_tm_last_upd h = 0 then (r, e, a, h)
     else (r, 0, a, h\<lparr>he_user_term := 1, he_max_cycles := 0\<rparr>))"

lemma device_sems:
  assumes "devices_ok s" and "p < length (names_of s)"
  shows "sem_index (Run p) < length (ei_sems (s_info s))" "sem_index (Err p) < length (ei_sems (s_info s))"
    "sem_index (Ack p) < length (ei_sems (s_info s))"
  using assms length_names [OF assms(1)] by (auto simp: devices_ok_def)

lemma names_of_upd: "entries_of (s_info s') = entries_of (s_info s) \<Longrightarrow> names_of s' = names_of s"
  by (simp add: names_of_def)

lemma device_entries:
  assumes "devices_ok s" and "p < length (names_of s)"
  obtains hdr hs where "ei_shm (s_info s) = Some (hdr, hs)" "p < length hs" "p < ei_shm_entries (s_info s)"
    "entries_of (s_info s) = Some (take (ei_shm_entries (s_info s)) hs)"
  using assms length_names [OF assms(1)]
  by (auto simp: devices_ok_def entries_of_def split: bind_splits if_splits)

lemma entry_name:
  assumes "devices_ok s" and "p < length (names_of s)"
  shows "he_sdev_id (entry_at p (s_info s)) = names_of s ! p"
proof -
  obtain hdr hs where "ei_shm (s_info s) = Some (hdr, hs)" "p < length hs" "p < ei_shm_entries (s_info s)"
    "entries_of (s_info s) = Some (take (ei_shm_entries (s_info s)) hs)"
    using device_entries [OF assms] .
  then show ?thesis by (simp add: names_of_def entry_at_def)
qed

text \<open>Changing an entry, and the semaphores of a device, keeps the devices.\<close>

lemma site_change:
  assumes "devices_ok s" and "p < length (names_of s)" and "he_sdev_id (f (entry_at p (s_info s))) = he_sdev_id (entry_at p (s_info s))"
    and "length ss = length (ei_sems (s_info s))"
    and s': "s' = s\<lparr>s_info := (set_HE f p (s_info s))\<lparr>ei_sems := ss\<rparr>, s_table := tbl, s_calls := k\<rparr>"
  shows "devices_ok s' \<and> names_of s' = names_of s \<and> map_option fst (ei_shm (s_info s')) = map_option fst (ei_shm (s_info s)) \<and>
     entry_at q (s_info s') = (if q = p then f (entry_at p (s_info s)) else entry_at q (s_info s))"
proof -
  obtain hdr hs where hs: "ei_shm (s_info s) = Some (hdr, hs)" "p < length hs" "p < ei_shm_entries (s_info s)"
    "entries_of (s_info s) = Some (take (ei_shm_entries (s_info s)) hs)"
    using device_entries [OF assms(1,2)] .
  have e: "entry_at p (s_info s) = hs ! p" by (simp add: entry_at_def hs)
  have e': "entries_of (s_info s') = Some ((take (ei_shm_entries (s_info s)) hs)[p := f (hs ! p)])"
    using hs by (auto simp: s' entries_of_def set_HE_def take_update_swap split: if_splits)
  then have n: "names_of s' = names_of s"
    using hs assms(3) by (simp add: names_of_def map_update e take_map [symmetric] nth_take list_update_same_conv)
  show ?thesis using assms(1,4) n e' hs(1,2)
    by (auto simp: devices_ok_def s' set_HE_def entry_at_def)
qed

lemma site_sems:
  assumes "devices_ok s" and "p < length (names_of s)" and "length ss = length (ei_sems (s_info s))"
    and s': "s' = s\<lparr>s_info := (s_info s)\<lparr>ei_sems := ss\<rparr>\<rparr>"
  shows "devices_ok s' \<and> names_of s' = names_of s \<and> ei_shm (s_info s') = ei_shm (s_info s) \<and>
     entry_at q (s_info s') = entry_at q (s_info s)"
proof -
  have e: "entries_of (s_info s') = entries_of (s_info s)"
    by (cases "ei_shm (s_info s)") (auto simp: s' entries_of_def)
  then show ?thesis using assms(1,3) names_of_upd [OF e] by (simp add: devices_ok_def) (simp add: s' entry_at_def)
qed

lemma set_run_action:
  assumes "devices_ok s" and "p < length (names_of s)"
  shows "device_view q (snd (set_run v p s)) = (if q = p then put_run (int v) (device_view q s) else device_view q s) \<and>
     devices_ok (snd (set_run v p s)) \<and> names_of (snd (set_run v p s)) = names_of s \<and>
     site_rest (snd (set_run v p s)) = site_rest s"
proof -
  let ?ss = "sem_write (ei_sems (s_info s)) (Run p) v"
  have s': "snd (set_run v p s) = s\<lparr>s_info := (s_info s)\<lparr>ei_sems := ?ss\<rparr>\<rparr>" by (simp add: set_run_def device_sem_ops)
  have r: "sem_read ?ss k = (if k = Run p then int v else sem_read (ei_sems (s_info s)) k)" for k
    using device_sems(1) [OF assms] by (rule sem_store.read_wr)
  show ?thesis using site_sems [OF assms _ s', where q = q]
    by (simp add: device_view_def site_rest_def put_run_def s' r)
qed

lemma set_coe_action:
  assumes "devices_ok s" and "p < length (names_of s)"
  shows "device_view q (snd (set_coe v p s)) = (if q = p then put_coe v (device_view q s) else device_view q s) \<and>
     devices_ok (snd (set_coe v p s)) \<and> names_of (snd (set_coe v p s)) = names_of s \<and>
     site_rest (snd (set_coe v p s)) = site_rest s"
proof -
  have s': "snd (set_coe v p s) = s\<lparr>s_info := (set_HE (\<lambda>h. h\<lparr>he_cont_on_err := v\<rparr>) p (s_info s))\<lparr>ei_sems :=
      ei_sems (s_info s)\<rparr>, s_table := s_table s, s_calls := s_calls s\<rparr>"
    by (simp add: set_coe_def set_HE_def)
  have "ei_sems (s_info (snd (set_coe v p s))) = ei_sems (s_info s)" "s_table (snd (set_coe v p s)) = s_table s"
    by (simp_all add: s')
  then show ?thesis using site_change [OF assms _ _ s', where q = q]
    by (simp add: device_view_def site_rest_def put_coe_def)
qed

text \<open>The signals and scripts of a command that succeeds.\<close>

definition obeyed :: "dev_sys \<Rightarrow> dev_sys" where
  "obeyed v = v\<lparr>v_kill := \<lambda>_. True, v_script := \<lambda>_. 0\<rparr>"

lemma sem_read_has: "sem_index k < length ss \<Longrightarrow> 0 \<le> sem_read ss k"
  by (simp add: sem_read_def semctl_GETVAL_def)

lemma terminate_action:
  fixes v :: dev_sys
  assumes "devices_ok s" and "p < length (names_of s)"
  defines "s' \<equiv> snd (htxd_set_device_terminate_status (obeyed v) p s)"
  shows "device_view q s' = (if q = p then put_term (device_view q s) else device_view q s) \<and>
     devices_ok s' \<and> names_of s' = names_of s \<and> site_rest s' = site_rest s"
proof (cases "he_PID (entry_at p (s_info s)) = 0 \<or> he_tm_last_upd (entry_at p (s_info s)) = 0")
  case True
  then have "s' = s" unfolding s'_def by (simp only: htxd_set_device_terminate_status_def Let_def if_True snd_conv)
  then show ?thesis using True assms(1) by (auto simp: put_term_def device_view_def)
next
  case False
  let ?i = "s_info s"
  let ?r = "sem_read (ei_sems ?i) (Run p)"
  let ?h = "(entry_at p ?i)\<lparr>he_user_term := 1, he_max_cycles := 0\<rparr>"
  let ?ss = "sem_write (sem_write (sem_write (ei_sems ?i) (Run p) 0) (Err p) 0) (Run p) (nat ?r)"
  have r: "0 \<le> ?r" using device_sems(1) [OF assms(1,2)] by (rule sem_read_has)
  have s': "s' = s\<lparr>s_info := (set_HE (\<lambda>_. ?h) p ?i)\<lparr>ei_sems := ?ss\<rparr>, s_table := s_table s, s_calls := Suc (s_calls s)\<rparr>"
    unfolding s'_def using False r
    by (simp add: htxd_set_device_terminate_status_def Let_def device_sem_ops obeyed_def)
  have w: "sem_read ?ss k = (if k = Err p then 0 else sem_read (ei_sems ?i) k)" for k
    using device_sems [OF assms(1,2)] r by (simp add: sem_store.read_wr)
  have "ei_sems (s_info s') = ?ss" "s_table s' = s_table s" by (simp_all add: s')
  then show ?thesis using site_change [OF assms(1,2) _ _ s', where q = q] w False
    by (auto simp: device_view_def site_rest_def put_term_def)
qed

interpretation activate: device_action "set_run 0" device_view "put_run 0" site_rest
  by unfold_locales (use set_run_action [where v = 0] in \<open>auto simp: put_run_def set_run_def\<close>)

interpretation suspend: device_action "set_run 1" device_view "put_run 1" site_rest
  by unfold_locales (use set_run_action [where v = 1] in \<open>auto simp: put_run_def set_run_def\<close>)

interpretation coe: device_action "set_coe 1" device_view "put_coe 1" site_rest
  by unfold_locales (use set_coe_action [where v = 1] in \<open>auto simp: put_coe_def set_coe_def\<close>)

interpretation soe: device_action "set_coe 0" device_view "put_coe 0" site_rest
  by unfold_locales (use set_coe_action [where v = 0] in \<open>auto simp: put_coe_def set_coe_def\<close>)

interpretation terminated: device_action "htxd_set_device_terminate_status (obeyed v)" device_view put_term site_rest for v
  by unfold_locales
    (use terminate_action [where v = v] in \<open>auto simp: put_term_def htxd_set_device_terminate_status_def Let_def obeyed_def\<close>)

subsection \<open>A command acts on the devices it selects\<close>

text \<open>C12: The commands that activate, suspend, let continue on errors or stop on errors succeed on any list of devices whose
  expansion fits, and change exactly the run semaphore, or the error setting, of exactly the devices the list names or
  matches with a pattern; nothing else of these devices, no other device, and nothing else of the ECG changes. The
  command that terminates devices takes names without patterns: where its signals and scripts succeed, it marks exactly
  the running devices among those named as ended by the user and clears their error semaphore. The variants for a whole
  ECG do the same to all of its devices.\<close>

theorem device_lists_select:
  assumes "devices_ok s" and "expanded room (s_info s) l \<noteq> None"
  shows "(\<exists>s' r. htxd_activate_device room s l = Some (0, s', r) \<and> done_on device_view (put_run 0) site_rest (selects l) s s') \<and>
    (\<exists>s' r. htxd_suspend_device room s l = Some (0, s', r) \<and> done_on device_view (put_run 1) site_rest (selects l) s s') \<and>
    (\<exists>s' r. htxd_coe_device room s l = Some (0, s', r) \<and> done_on device_view (put_coe 1) site_rest (selects l) s s') \<and>
    (\<exists>s' r. htxd_soe_device room s l = Some (0, s', r) \<and> done_on device_view (put_coe 0) site_rest (selects l) s s') \<and>
    (\<exists>s'. htxd_activate_all_device s = Some (0, s') \<and> done_on device_view (put_run 0) site_rest (\<lambda>_. True) s s') \<and>
    (\<exists>s'. htxd_suspend_all_device s = Some (0, s') \<and> done_on device_view (put_run 1) site_rest (\<lambda>_. True) s s') \<and>
    (\<exists>s'. htxd_coe_all_device s = Some (0, s') \<and> done_on device_view (put_coe 1) site_rest (\<lambda>_. True) s s') \<and>
    (\<exists>s'. htxd_soe_all_device s = Some (0, s') \<and> done_on device_view (put_coe 0) site_rest (\<lambda>_. True) s s') \<and>
    (\<exists>s' r. htxd_terminate_device (obeyed v) s l = Some (0, s', r) \<and>
       done_on device_view put_term site_rest (\<lambda>n. n \<in> set (tokens l)) s s') \<and>
    (\<exists>s'. htxd_terminate_all_device (obeyed v) s = Some (0, s') \<and> done_on device_view put_term site_rest (\<lambda>_. True) s s')"
proof -
  obtain hs where "entries_of (s_info s) = Some hs" using assms(1) by (auto simp: devices_ok_def)
  then show ?thesis
    using activate.list_effect [OF assms] suspend.list_effect [OF assms] coe.list_effect [OF assms]
      soe.list_effect [OF assms] activate.all_effect [OF assms(1)] suspend.all_effect [OF assms(1)]
      coe.all_effect [OF assms(1)] soe.all_effect [OF assms(1)]
      terminated.names_effect [OF assms(1), of v "tokens l"] terminated.all_effect [OF assms(1), of v]
    by (auto simp: on_devices_def htxd_terminate_device_def htxd_terminate_all_device_def htxd_activate_device_def htxd_suspend_device_def htxd_coe_device_def htxd_soe_device_def
        htxd_activate_all_device_def htxd_suspend_all_device_def htxd_coe_all_device_def htxd_soe_all_device_def)
qed

definition sample_site :: site where
  "sample_site =
     \<lparr>s_info = sample_info\<lparr>ei_shm := Some (new_header 3 3 0, map (\<lambda>n. zero_HE\<lparr>he_sdev_id := n, he_PID := 7, he_tm_last_upd := 5\<rparr>)
        [''mem0'', ''fpu0'', ''mem1'']), ei_shm_entries := 3, ei_sems := replicate 15 0\<rparr>,
      s_table = [(table_entry sample_ecg_keys ''mem0'' 0)\<lparr>exer_pid := 7\<rparr>], s_calls = 0\<rparr>"

lemma sample_names: "names_of sample_site = [''mem0'', ''fpu0'', ''mem1'']"
  by (simp add: names_of_def entries_of_def sample_site_def)

lemma sample_site_ok: "devices_ok sample_site"
  by (simp add: devices_ok_def sample_names) (simp add: entries_of_def sample_site_def run_index_def)

theorem device_lists_select_witness:
  "\<exists>s' r. htxd_suspend_device 512 sample_site ''mem*'' = Some (0, s', r) \<and>
     map (\<lambda>q. fst (device_view q s')) [0, 1, 2] = [1, 0, 1]"
proof -
  have t: "tokens ''mem*'' = [''mem*'']" by code_simp
  have "expanded 512 (s_info sample_site) ''mem*'' \<noteq> None"
    by (simp add: expanded_def htxd_expand_device_name_list_def t entries_of_def sample_site_def expand_token_def
        strncmp_def fits_def)
  then obtain s' r where s': "htxd_suspend_device 512 sample_site ''mem*'' = Some (0, s', r)"
      "done_on device_view (put_run 1) site_rest (selects ''mem*'') sample_site s'"
    using device_lists_select [OF sample_site_ok] by blast
  have "fst (device_view q sample_site) = 0" if "q < 3" for q
    using that by (simp add: device_view_def sample_site_def sem_read_def semctl_GETVAL_def run_index_def)
  then have "map (\<lambda>q. fst (device_view q s')) [0, 1, 2] = [1, 0, 1]"
    using s'(2) by (auto simp: done_on_def sample_names selects_def t put_run_def split_def)
  then show ?thesis using s'(1) by (intro exI conjI)
qed

subsection \<open>Terminated, restarted, and dead again\<close>

lemma word_tokens: "w \<noteq> [] \<Longrightarrow> SP \<notin> set w \<Longrightarrow> tokens w = [w]"
proof (cases w)
  case (Cons c u)
  assume "SP \<notin> set w"
  then have "takeWhile (\<lambda>d. d \<noteq> SP) u = u" "dropWhile (\<lambda>d. d \<noteq> SP) u = []"
    using Cons by (auto simp: takeWhile_eq_all_conv dropWhile_eq_Nil_conv)
  then show ?thesis using Cons \<open>SP \<notin> set w\<close> by auto
qed simp

lemma one_device:
  assumes "devices_ok s" and "p < length (names_of s)"
  shows "on_devices False k act s (names_of s ! p) =
    Some (fst (act p s), snd (act p s), after_strtok (names_of s ! p))"
proof -
  obtain hs where hs: "entries_of (s_info s) = Some hs" using assms(1) by (auto simp: devices_ok_def)
  have "names_of s ! p \<in> set (names_of s)" using assms(2) by simp
  then have "tokens (names_of s ! p) = [names_of s ! p]" using assms(1) by (intro word_tokens) (auto simp: devices_ok_def)
  moreover have "find_device hs (names_of s ! p) = Some p" using find_device_names(1) [OF assms(1) hs] assms(2) by blast
  ultimately show ?thesis by (cases "act p s") (simp add: on_devices_def hs)
qed

lemma pid_position:
  assumes "i < length tbl" and "\<forall>j<length tbl. exer_pid (tbl ! j) = pid \<longleftrightarrow> j = i"
  shows "htxd_get_exer_position_in_exer_table_by_pid tbl pid = Some i"
proof (cases "htxd_get_exer_position_in_exer_table_by_pid tbl pid")
  case None
  then show ?thesis using assms nth_mem [OF assms(1)]
    by (auto simp: htxd_get_exer_position_in_exer_table_by_pid_def position_where_None)
next
  case (Some k)
  then have "k < length tbl" "exer_pid (tbl ! k) = pid"
    by (auto simp: htxd_get_exer_position_in_exer_table_by_pid_def dest!: position_where_Some)
  then show ?thesis using assms(2) Some by simp
qed

text \<open>A named device that runs, in a table that agrees with the entries of its ECG.\<close>

definition runs_at :: "site \<Rightarrow> nat \<Rightarrow> nat \<Rightarrow> int \<Rightarrow> bool" where
  "runs_at s p i pid \<longleftrightarrow>
     devices_ok s \<and> p < length (names_of s) \<and> i < length (s_table s) \<and> exer_pos (s_table s ! i) = int p \<and>
     dev_name (s_table s ! i) = names_of s ! p \<and> distinct (map dev_name (s_table s)) \<and>
     (\<forall>j<length (s_table s). exer_pid (s_table s ! j) = pid \<longleftrightarrow> j = i) \<and>
     he_PID (entry_at p (s_info s)) = pid \<and> pid \<noteq> 0"

definition with_entries :: "texer_list list \<Rightarrow> htxshm_HE list \<Rightarrow> site \<Rightarrow> site" where
  "with_entries tbl hs s =
     s\<lparr>s_info := (s_info s)\<lparr>ei_shm := map_option (\<lambda>(hdr, _). (hdr, hs)) (ei_shm (s_info s))\<rparr>, s_table := tbl\<rparr>"

definition entries :: "site \<Rightarrow> htxshm_HE list" where
  "entries s = (case ei_shm (s_info s) of None \<Rightarrow> [] | Some (_, hs) \<Rightarrow> hs)"

lemma exit_of_device:
  assumes "runs_at s p i pid"
  defines "h \<equiv> entry_at p (s_info s)"
  shows "\<exists>tbl hs. htxd_reset_exer_pid False pid reason (s_table s) (entries s) =
      Some (Some (exit_text h reason, if he_user_term h \<noteq> 0 \<or> he_DR_term h \<noteq> 0 \<or> he_test_run_period_expired h \<noteq> 0
                                      then HTX_SYS_INFO else HTX_HE_HARD_ERROR), tbl, hs) \<and>
    tbl = (s_table s)[i := (s_table s ! i)\<lparr>exer_pid := 0\<rparr>] \<and>
    with_entries tbl hs s = s\<lparr>s_info := (set_HE (\<lambda>h. h\<lparr>he_PID := 0\<rparr>) p (s_info s))\<lparr>ei_sems := ei_sems (s_info s)\<rparr>,
                              s_table := tbl, s_calls := s_calls s\<rparr>"
proof -
  have r: "devices_ok s" "p < length (names_of s)" using assms(1) by (simp_all add: runs_at_def)
  obtain hdr hs where hs: "ei_shm (s_info s) = Some (hdr, hs)" "p < length hs"
    using device_entries [OF r] by blast
  moreover have "htxd_get_exer_position_in_exer_table_by_pid (s_table s) pid = Some i"
    using assms(1) by (intro pid_position) (simp_all add: runs_at_def)
  ultimately show ?thesis using assms(1)
    by (simp add: htxd_reset_exer_pid_def Let_def runs_at_def entries_def h_def entry_at_def with_entries_def set_HE_def)
qed

lemma restart_of_device:
  assumes "devices_ok s" "p < length (names_of s)" "i < length (s_table s)" "dev_name (s_table s ! i) = names_of s ! p"
    and "distinct (map dev_name (s_table s))" "exer_pos (s_table s ! i) = int p"
    and "v_fork v (s_calls s) = pid" "pid \<noteq> - 1" "pid \<noteq> 0" "\<forall>j<length (s_table s). j \<noteq> i \<longrightarrow> exer_pid (s_table s ! j) \<noteq> pid"
  shows "\<exists>s' r. htxd_restart_device v s (names_of s ! p) = Some (0, s', r) \<and> runs_at s' p i pid \<and>
    entry_at p (s_info s') = (entry_at p (s_info s))\<lparr>he_PID := pid\<rparr> \<and> names_of s' = names_of s"
proof -
  let ?h = "(entry_at p (s_info s))\<lparr>he_PID := pid\<rparr>"
  have n: "he_sdev_id (entry_at p (s_info s)) = names_of s ! p" using assms(1,2) by (rule entry_name)
  have t: "htxd_update_exer_pid_in_exer_list (s_table s) (names_of s ! p) pid = (s_table s)[i := (s_table s ! i)\<lparr>exer_pid := pid\<rparr>]"
  proof -
    have "dev_name (s_table s ! j) = names_of s ! p \<longleftrightarrow> j = i" if "j < length (s_table s)" for j
      using that assms(3,4) nth_eq_iff_index_eq [OF assms(5), of j i] by simp
    then show ?thesis unfolding update_pid_map [OF assms(5)]
      using assms(3) by (intro nth_equalityI) (auto simp: nth_list_update)
  qed
  define s' where "s' = s\<lparr>s_info := (set_HE (\<lambda>_. ?h) p (s_info s))\<lparr>ei_sems := ei_sems (s_info s)\<rparr>,
      s_table := (s_table s)[i := (s_table s ! i)\<lparr>exer_pid := pid\<rparr>], s_calls := Suc (s_calls s)\<rparr>"
  have act: "htxd_set_device_restart_status v p s = (0, s')"
    using assms(7,8) by (simp add: htxd_set_device_restart_status_def htxd_load_exerciser_def n t s'_def set_HE_def)
  have c: "devices_ok s'" "names_of s' = names_of s" "entry_at p (s_info s') = ?h"
    using site_change [OF assms(1,2) _ _ s'_def, where q = p] by simp_all
  have "map dev_name (s_table s') = map dev_name (s_table s)"
    using assms(3) by (simp add: s'_def map_update list_update_same_conv)
  then have "distinct (map dev_name (s_table s'))" using assms(5) by simp
  moreover have "s_table s' = (s_table s)[i := (s_table s ! i)\<lparr>exer_pid := pid\<rparr>]" by (simp add: s'_def)
  ultimately have "runs_at s' p i pid" using c assms(2,3,4,6,9,10) by (auto simp: runs_at_def nth_list_update)
  then show ?thesis using one_device [OF assms(1,2), of 0 "htxd_set_device_restart_status v"] c
    by (auto simp: htxd_restart_device_def act)
qed

lemma terminate_of_device:
  assumes "runs_at s p i pid" "he_tm_last_upd (entry_at p (s_info s)) \<noteq> 0"
  shows "\<exists>s' r. htxd_terminate_device (obeyed v) s (names_of s ! p) = Some (0, s', r) \<and> runs_at s' p i pid \<and>
    entry_at p (s_info s') = (entry_at p (s_info s))\<lparr>he_user_term := 1, he_max_cycles := 0\<rparr> \<and>
    names_of s' = names_of s \<and> s_table s' = s_table s \<and> s_calls s' = Suc (s_calls s)"
proof -
  have r: "devices_ok s" "p < length (names_of s)" using assms(1) by (simp_all add: runs_at_def)
  let ?s = "snd (htxd_set_device_terminate_status (obeyed v) p s)"
  have a: "device_view p ?s = put_term (device_view p s)" "devices_ok ?s" "names_of ?s = names_of s"
      "site_rest ?s = site_rest s"
    using terminate_action [OF r, where q = p and v = v] by simp_all
  have "entry_at p (s_info ?s) = (entry_at p (s_info s))\<lparr>he_user_term := 1, he_max_cycles := 0\<rparr>"
    using a(1) assms by (simp add: device_view_def put_term_def runs_at_def)
  moreover have "s_table ?s = s_table s" using a(4) by (simp add: site_rest_def)
  moreover have "s_calls ?s = Suc (s_calls s)" "fst (htxd_set_device_terminate_status (obeyed v) p s) = 0"
    using assms by (simp_all add: htxd_set_device_terminate_status_def Let_def obeyed_def runs_at_def)
  ultimately show ?thesis using one_device [OF r, of 0 "htxd_set_device_terminate_status (obeyed v)"] a assms(1)
    by (simp add: htxd_terminate_device_def runs_at_def)
qed

text \<open>A restart does not take back the user's request to terminate. When a user terminates an exerciser and starts it
  again, and the new process then dies by itself, its death is reported as one the user asked for, as information and
  not as the hard error that the death of an exerciser is.\<close>

theorem restarted_crash_hidden:
  assumes "runs_at s p i pid" "he_tm_last_upd (entry_at p (s_info s)) \<noteq> 0"
    and "v_fork v (Suc (s_calls s)) = pid'" "pid' \<noteq> - 1" "pid' \<noteq> 0" "pid' \<notin> exer_pid ` set (s_table s)"
  shows "\<exists>s1 r1 t1 tbl2 hs2 s3 r3 tbl4 hs4.
    htxd_terminate_device (obeyed v) s (names_of s ! p) = Some (0, s1, r1) \<and>
    htxd_reset_exer_pid False pid reason (s_table s1) (entries s1) = Some (Some (t1, HTX_SYS_INFO), tbl2, hs2) \<and>
    htxd_restart_device v (with_entries tbl2 hs2 s1) (names_of s ! p) = Some (0, s3, r3) \<and>
    he_PID (entry_at p (s_info s3)) = pid' \<and>
    htxd_reset_exer_pid False pid' crash (s_table s3) (entries s3) =
      Some (Some (he_HE_name (entry_at p (s_info s)) @ '' HE program for '' @ names_of s ! p @ '' terminated by '' @ crash @
                  '' because of user request'', HTX_SYS_INFO), tbl4, hs4)"
proof -
  let ?h = "entry_at p (s_info s)"
  let ?h1 = "?h\<lparr>he_user_term := 1, he_max_cycles := 0\<rparr>"
  have r: "devices_ok s" "p < length (names_of s)" using assms(1) by (simp_all add: runs_at_def)
  obtain s1 r1 where s1: "htxd_terminate_device (obeyed v) s (names_of s ! p) = Some (0, s1, r1)" "runs_at s1 p i pid"
      "entry_at p (s_info s1) = ?h1" "names_of s1 = names_of s" "s_table s1 = s_table s" "s_calls s1 = Suc (s_calls s)"
    using terminate_of_device [OF assms(1,2)] by blast
  obtain t1 tbl2 hs2 where e2: "htxd_reset_exer_pid False pid reason (s_table s1) (entries s1) =
        Some (Some (t1, HTX_SYS_INFO), tbl2, hs2)" "tbl2 = (s_table s1)[i := (s_table s1 ! i)\<lparr>exer_pid := 0\<rparr>]"
      "with_entries tbl2 hs2 s1 = s1\<lparr>s_info := (set_HE (\<lambda>h. h\<lparr>he_PID := 0\<rparr>) p (s_info s1))\<lparr>ei_sems := ei_sems (s_info s1)\<rparr>,
         s_table := tbl2, s_calls := s_calls s1\<rparr>"
    using exit_of_device [OF s1(2), of reason] by (auto simp: s1(3))
  let ?s2 = "with_entries tbl2 hs2 s1"
  have r1: "devices_ok s1" "p < length (names_of s1)" using s1(2) by (simp_all add: runs_at_def)
  have s2: "devices_ok ?s2" "names_of ?s2 = names_of s" "entry_at p (s_info ?s2) = ?h1\<lparr>he_PID := 0\<rparr>"
    using site_change [OF r1 _ _ e2(3), where q = p] s1(3,4) by simp_all
  have t2: "s_table ?s2 = (s_table s)[i := (s_table s ! i)\<lparr>exer_pid := 0\<rparr>]" "s_calls ?s2 = Suc (s_calls s)"
    using e2(2) s1(5,6) by (simp_all add: with_entries_def)
  have i: "i < length (s_table s)" "exer_pos (s_table s ! i) = int p" "dev_name (s_table s ! i) = names_of s ! p"
      "distinct (map dev_name (s_table s))" using assms(1) by (simp_all add: runs_at_def)
  have "map dev_name (s_table ?s2) = map dev_name (s_table s)"
    using i(1) by (simp add: t2(1) map_update list_update_same_conv)
  then have d: "distinct (map dev_name (s_table ?s2))" using i(4) by simp
  have f: "\<forall>j<length (s_table ?s2). j \<noteq> i \<longrightarrow> exer_pid (s_table ?s2 ! j) \<noteq> pid'"
    using assms(6) by (auto simp: t2(1))
  obtain s3 r3 where s3: "htxd_restart_device v ?s2 (names_of ?s2 ! p) = Some (0, s3, r3)" "runs_at s3 p i pid'"
      "entry_at p (s_info s3) = ?h1\<lparr>he_PID := pid'\<rparr>" "names_of s3 = names_of s"
    using restart_of_device [OF s2(1) _ _ _ d _ _ assms(4,5) f, of p v] s2 t2 r(2) i assms(3) by auto
  have "exit_text (entry_at p (s_info s3)) crash = he_HE_name ?h @ '' HE program for '' @ names_of s ! p @
      '' terminated by '' @ crash @ '' because of user request''"
    by (simp add: exit_text_def s3(3) entry_name [OF r])
  moreover obtain tbl4 hs4 where "htxd_reset_exer_pid False pid' crash (s_table s3) (entries s3) =
      Some (Some (exit_text (entry_at p (s_info s3)) crash, HTX_SYS_INFO), tbl4, hs4)"
    using exit_of_device [OF s3(2), of crash] by (auto simp: s3(3))
  moreover have "he_PID (entry_at p (s_info s3)) = pid'" by (simp add: s3(3))
  ultimately show ?thesis using s1(1) e2(1) s3(1) s2(2) by (intro exI conjI) simp_all
qed

definition sample_dev_sys :: dev_sys where
  "sample_dev_sys = \<lparr>v_kill = \<lambda>_. True, v_script = \<lambda>_. 0, v_fork = \<lambda>_. 8, v_junk = []\<rparr>"

lemma sample_runs: "runs_at sample_site 0 0 7"
  by (simp add: runs_at_def sample_site_ok sample_names) (simp add: sample_site_def table_entry_def entry_at_def)

theorem restarted_crash_hidden_witness:
  "\<exists>s1 r1 t1 tbl2 hs2 s3 r3 tbl4 hs4.
     htxd_terminate_device (obeyed sample_dev_sys) sample_site ''mem0'' = Some (0, s1, r1) \<and>
     htxd_reset_exer_pid False 7 ''signal 15'' (s_table s1) (entries s1) = Some (Some (t1, HTX_SYS_INFO), tbl2, hs2) \<and>
     htxd_restart_device sample_dev_sys (with_entries tbl2 hs2 s1) ''mem0'' = Some (0, s3, r3) \<and>
     htxd_reset_exer_pid False 8 ''signal 11'' (s_table s3) (entries s3) =
       Some (Some ('' HE program for mem0 terminated by signal 11 because of user request'', HTX_SYS_INFO), tbl4, hs4)"
proof -
  have h: "he_tm_last_upd (entry_at 0 (s_info sample_site)) = 5" "he_HE_name (entry_at 0 (s_info sample_site)) = []"
      "exer_pid ` set (s_table sample_site) = {7}"
    by (simp_all add: sample_site_def entry_at_def zero_HE_def)
  show ?thesis
    using restarted_crash_hidden [OF sample_runs, of sample_dev_sys 8 "''signal 15''" "''signal 11''"]
    by (auto simp: h sample_names sample_dev_sys_def)
qed

end
