(* ===== verification/Htxd_Monitor.thy ===== *)
theory Htxd_Monitor
  imports Htxd_Device
begin

text \<open>
  What htxd shows of the devices and how it watches over them: the run status and the status and query tables, the
  toggles of the screens, halting and activating the whole test (\<open>bin/htxd/htxd_option_method_misc.c\<close>), the hang
  monitor (\<open>htxd_hang_monitor.c\<close>) and the stop watch that ends a test run (\<open>htxd_stop_watch_monitor.c\<close>).

  The clock and what the exercisers do to the shared memory and the semaphores between two looks are inputs.
\<close>

subsection \<open>The state of a device\<close>

abbreviation (input) max_update_lapse :: "htxshm_HE \<Rightarrow> int" where
  "max_update_lapse h \<equiv> int ((he_max_run_tm h + he_idle_time h) mod 2 ^ 32)"

text \<open>The result and the two characters, which stay unset when the semaphore cannot be read.\<close>

definition htxd_get_device_run_status :: "int \<Rightarrow> ecg_info \<Rightarrow> htxshm_hdr \<Rightarrow> nat \<Rightarrow> int \<times> string option" where
  "htxd_get_device_run_status now i hdr p =
     (let h = entry_at p i; ss = ei_sems i
      in if hdr_started hdr = 0 \<and> he_is_child h \<noteq> 0 then (0, Some ''  '')
         else if he_PID h = 0 then
           (0, Some (if he_DR_term h = 1 then ''DT'' else if he_test_run_period_expired h = 1 then ''RT''
                     else if he_user_term h = 0 then ''DD'' else ''TM''))
         else if 0 < he_no_of_errs h then
           (if htxd_get_device_error_sem_status ss p = - 1 then (- 1, None)
            else if htxd_get_device_error_sem_status ss p = 0 then (0, Some ''PR'') else (0, Some ''ER''))
         else if he_equaliser_halt h = 1 \<or> htxd_get_device_run_sem_status ss p \<noteq> 0 \<or>
             htxd_get_global_activate_halt_sem_status ss = 1 then (0, Some ''ST'')
         else if he_started_delay_flag h = 1 then (0, Some ''SD'')
         else if he_max_cycles h \<noteq> 0 \<and> he_max_cycles h \<le> he_cycles h then (0, Some ''CP'')
         else if max_update_lapse h < now - he_tm_last_upd h then (0, Some ''HG'')
         else if he_max_cycles h \<noteq> 0 \<and> he_max_cycles h \<le> he_cycles h then (0, Some ''PR'')
         else (0, Some ''RN''))"

text \<open>A clock: the time, and the day and time of day it prints for a time.\<close>

type_synonym clock = "int \<times> (int \<Rightarrow> string \<times> string)"

definition error_day :: "clock \<Rightarrow> htxshm_HE \<Rightarrow> string \<times> string" where
  "error_day ck h = (if he_tm_last_err h \<noteq> 0 then snd ck (he_tm_last_err h) else (''NA'', ''NA''))"

text \<open>The conversion \<open>%\<close>\<open>n\<close>\<open>s\<close>.\<close>

definition pad_left :: "nat \<Rightarrow> string \<Rightarrow> string" where
  "pad_left n s = replicate (n - length s) SP @ s"

definition htxd_get_query_row_entry :: "clock \<Rightarrow> ecg_info \<Rightarrow> nat \<Rightarrow> string fault" where
  "htxd_get_query_row_entry ck i p =
     do { (hdr, hs) \<leftarrow> ei_shm i;
          st \<leftarrow> snd (htxd_get_device_run_status (fst ck) i hdr p);
          let h = entry_at p i;
          let (day, tm) = snd ck (he_tm_last_upd h);
          let (eday, etm) = error_day ck h;
          fits 256 ([NL] @ pad_right 8 (he_sdev_id h) @ [SP] @ pad_left 3 st @ [SP] @
            pad_left 7 (htxd_get_device_active_suspend_status (ei_sems i) p) @ [SP] @
            pad_left 3 (htxd_get_device_coe_soe_status h) @ [SP] @ day @ [SP] @ tm @ [SP] @
            pad_right 8 (dec_digits (unat (he_cycles h))) @ [SP] @ pad_right 3 (dec_digits (he_test_id h)) @ [SP] @
            pad_right 4 eday @ [SP] @ pad_right 8 etm @ [SP] @ he_slot_port h @ [SP] @
            dec_digits (unat (he_no_of_errs h))) }"

definition htxd_query_device :: "clock \<Rightarrow> ecg_info \<Rightarrow> string option \<Rightarrow> (string \<times> string option) fault" where
  "htxd_query_device ck i shown =
     do { hs \<leftarrow> entries_of i;
          l \<leftarrow> shown;
          l \<leftarrow> expanded MAX_OPTION_LIST_LENGTH i l;
          t \<leftarrow> cat_rows (htxd_get_query_row_entry ck i) (positions hs (tokens l));
          Some (t, Some (after_strtok l)) }"

definition htxd_query_all_device :: "clock \<Rightarrow> ecg_info \<Rightarrow> string fault" where
  "htxd_query_all_device ck i =
     do { _ \<leftarrow> entries_of i; cat_rows (htxd_get_query_row_entry ck i) [0..<ei_shm_entries i] }"

definition htxd_get_status_row_entry :: "clock \<Rightarrow> nat \<Rightarrow> ecg_info \<Rightarrow> nat \<Rightarrow> string fault" where
  "htxd_get_status_row_entry ck room i p =
     do { (hdr, hs) \<leftarrow> ei_shm i;
          st \<leftarrow> snd (htxd_get_device_run_status (fst ck) i hdr p);
          let h = entry_at p i;
          let (day, tm) = snd ck (he_tm_last_upd h);
          let (eday, etm) = error_day ck h;
          fits room ([NL] @ pad_right 3 st @ [SP] @ pad_right 9 (he_sdev_id h) @ [SP] @ pad_right 5 day @ [SP] @
            pad_right 9 tm @ [SP] @ pad_right 6 (show_int (wrap32 (uint (he_cycles h)))) @ [SP] @
            pad_right 7 (show_int (int (he_test_id h))) @ [SP] @ pad_right 5 eday @ [SP] @ etm) }"

definition htxd_status_device :: "clock \<Rightarrow> ecg_info \<Rightarrow> string option \<Rightarrow> (string \<times> string option) fault" where
  "htxd_status_device ck i shown =
     do { hs \<leftarrow> entries_of i;
          l \<leftarrow> shown;
          t \<leftarrow> cat_rows (htxd_get_status_row_entry ck 512 i) (positions hs (tokens l));
          Some (t, Some (after_strtok l)) }"

definition htxd_status_all_device :: "clock \<Rightarrow> ecg_info \<Rightarrow> string fault" where
  "htxd_status_all_device ck i =
     do { _ \<leftarrow> entries_of i; cat_rows (htxd_get_status_row_entry ck 256 i) [0..<ei_shm_entries i] }"

text \<open>The table over one ECG or all of them, over a list of devices or all of them.\<close>

definition table_of ::
  "(ecg_info \<Rightarrow> string option \<Rightarrow> (string \<times> string option) fault) \<Rightarrow> (ecg_info \<Rightarrow> string fault) \<Rightarrow> string \<Rightarrow>
     ecg_manager \<Rightarrow> nat option \<Rightarrow> string \<Rightarrow> string fault" where
  "table_of listed whole header m target l =
     (let t = (if l \<noteq> [] then listed else (\<lambda>i shown. do { t \<leftarrow> whole i; Some (t, shown) }))
      in case target of
           None \<Rightarrow> each_table t (m_heap m) (m_list m) (Some l) header
         | Some a \<Rightarrow> do { n \<leftarrow> m_heap m a; (t, _) \<leftarrow> t (n_info n) (Some l); Some (header @ t) })"

definition query_header :: string where
  "query_header =
     replicate 80 (CHR ''-'') @ [NL] @
     '' Device   ST  ACTIVE COE Last Update  Count Stanza Last Error   Slot/  Num_errs\<newline>'' @
     ''             SUSPEND SOE day Time                  Day  Time    Port\<newline>'' @ replicate 80 (CHR ''-'')"

definition status_header :: string where
  "status_header =
     replicate 57 (CHR ''-'') @ [NL] @
     ''              Last  Update    Cycle  Curr    Last  Error\<newline>'' @
     ''ST  Device    Day   Time      Count  Stanza  Day   Time \<newline>'' @ replicate 57 (CHR ''-'')"

text \<open>Unlike all others, the query answers 0 for an ECG that is not there.\<close>

definition htxd_option_method_query :: "clock \<Rightarrow> htxd_command \<Rightarrow> daemon \<Rightarrow> answer" where
  "htxd_option_method_query ck c d =
     do { (rc, t, d') \<leftarrow> device_method d c (\<lambda>m target l.
            do { t \<leftarrow> table_of (htxd_query_device ck) (htxd_query_all_device ck) query_header m target l;
                 reply (result_size m) 0 t d });
          Some (if htxd_validate_command_requirements d = 0 then 0 else rc, t, d') }"

definition htxd_option_method_status :: "clock \<Rightarrow> htxd_command \<Rightarrow> daemon \<Rightarrow> answer" where
  "htxd_option_method_status ck c d =
     device_method d c (\<lambda>m target l.
       do { t \<leftarrow> table_of (htxd_status_device ck) (htxd_status_all_device ck) status_header m target l;
            reply (result_size m) 0 t d })"

subsection \<open>The answers that look at the daemon\<close>

definition htxd_option_method_getactecg :: "daemon \<Rightarrow> answer" where
  "htxd_option_method_getactecg d =
     (if htxd_validate_command_requirements d \<noteq> 0 then reply 1024 0 ''No ECG/MDT is currently running'' d
      else do { m \<leftarrow> d_mgr d;
                t \<leftarrow> (if 0 < m_length m then htxd_get_active_ecg_name_list m else Some []);
                reply 1024 0 t d })"

text \<open>The number of loaded devices is read through the manager, whether or not there is one.\<close>

definition htxd_option_method_device_count :: "daemon \<Rightarrow> answer" where
  "htxd_option_method_device_count d =
     do { m \<leftarrow> d_mgr d; reply 64 0 (show_int (int (length (m_table m)))) d }"

definition htxd_option_method_get_daemon_state :: "daemon \<Rightarrow> answer" where
  "htxd_option_method_get_daemon_state d =
     reply 64 0 (show_int (int (d_state d)) @ [SP] @ show_int (int (d_test_active d))) d"

subsection \<open>The toggles of the screens\<close>

abbreviation (input) HTX_SINGLE_DEVICE :: int where "HTX_SINGLE_DEVICE \<equiv> 1"
abbreviation (input) HTX_SCREEN_DEVICES :: int where "HTX_SCREEN_DEVICES \<equiv> 2"
abbreviation (input) HTX_ALL_DEVICES :: int where "HTX_ALL_DEVICES \<equiv> 3"

text \<open>The flag is one bit wide. The positions of a screen are not compared with the number of devices.\<close>

definition set_coe_from :: "nat \<Rightarrow> int \<Rightarrow> int \<Rightarrow> ecg_info \<Rightarrow> ecg_info fault" where
  "set_coe_from n pos operation i =
     do { (hdr, hs) \<leftarrow> ei_shm i;
          if n = 0 then Some i
          else if pos < 0 \<or> int (length hs) < pos + int n then None
          else Some (fold (\<lambda>p. set_HE (\<lambda>h. h\<lparr>he_cont_on_err := nat (operation mod 2)\<rparr>) p) [nat pos..<nat pos + n] i) }"

definition htxd_toggle_coe_soe :: "int \<Rightarrow> int \<Rightarrow> int \<Rightarrow> ecg_info \<Rightarrow> ecg_info fault" where
  "htxd_toggle_coe_soe pos mode operation i =
     (if mode = HTX_SINGLE_DEVICE then
        do { (hdr, hs) \<leftarrow> ei_shm i;
             if pos < 0 \<or> int (length hs) \<le> pos then None
             else Some (set_HE (\<lambda>h. h\<lparr>he_cont_on_err := if he_cont_on_err h = 1 then 0 else 1\<rparr>) (nat pos) i) }
      else if mode = HTX_SCREEN_DEVICES then set_coe_from (min (ei_shm_entries i) 15) pos operation i
      else if mode = HTX_ALL_DEVICES then set_coe_from (ei_shm_entries i) 0 operation i
      else Some i)"

text \<open>The semaphore a signed position leads to; \<open>semctl\<close> refuses numbers outside the set and values outside its range.\<close>

definition run_sem_at :: "sems \<Rightarrow> int \<Rightarrow> int" where
  "run_sem_at ss pos = (let k = pos * 3 + 6 in if k < 0 then - 1 else semctl_GETVAL ss (nat k))"

definition set_run_sem_at :: "int \<Rightarrow> int \<Rightarrow> ecg_info \<Rightarrow> ecg_info" where
  "set_run_sem_at pos v i =
     (let k = pos * 3 + 6
      in if k < 0 \<or> v < 0 \<or> 32767 < v then i else i\<lparr>ei_sems := snd (SEMCTL_SETVAL (ei_sems i) (nat k) (nat v))\<rparr>)"

definition htxd_toggle_activate_halt :: "int \<Rightarrow> int \<Rightarrow> int \<Rightarrow> ecg_info \<Rightarrow> ecg_info fault" where
  "htxd_toggle_activate_halt pos mode operation i =
     (if mode = HTX_SINGLE_DEVICE then Some (set_run_sem_at pos (if run_sem_at (ei_sems i) pos = 1 then 0 else 1) i)
      else if mode = HTX_SCREEN_DEVICES then
        Some (fold (\<lambda>k. set_run_sem_at (pos + int k) operation) [0..<min (ei_shm_entries i) 15] i)
      else if mode = HTX_ALL_DEVICES then
        Some (fold (\<lambda>k. set_run_sem_at (pos + int k) operation) [0..<ei_shm_entries i] i)
      else Some i)"

text \<open>One \<open>%d\<close> of \<open>sscanf\<close>; a number that is not there leaves its variable unset.\<close>

definition scan_int :: "cstring \<Rightarrow> (int \<times> cstring) fault" where
  "scan_int s = (let (v, r) = strtol s in if r = s then None else Some (wrap32 v, r))"

definition screen_method :: "(int \<Rightarrow> int \<Rightarrow> int \<Rightarrow> ecg_info \<Rightarrow> ecg_info fault) \<Rightarrow> htxd_command \<Rightarrow> daemon \<Rightarrow> answer" where
  "screen_method act c d =
     (let rc = htxd_validate_command_requirements d; l = htxd_correct_device_list_for_all_devices (c_option_list c)
      in if rc \<noteq> 0 then reply 10240 rc ''No ECG/MDT is currently running'' d
         else do {
           m \<leftarrow> d_mgr d;
           a \<leftarrow> m_list m;
           node \<leftarrow> m_heap m a;
           (pos, l) \<leftarrow> scan_int l;
           (mode, l) \<leftarrow> scan_int l;
           (operation, l) \<leftarrow> scan_int l;
           if int (ei_shm_entries (n_info node)) < pos
           then reply 10240 1 ''Internal error, device position crossing the max limit'' d
           else do {
             i \<leftarrow> act pos mode operation (n_info node);
             m \<leftarrow> set_info a i m;
             reply 10240 0 [] (d\<lparr>d_mgr := Some m\<rparr>) } })"

definition htxd_option_method_coe_soe :: "htxd_command \<Rightarrow> daemon \<Rightarrow> answer" where
  "htxd_option_method_coe_soe = screen_method htxd_toggle_coe_soe"

definition htxd_option_method_activate_halt :: "htxd_command \<Rightarrow> daemon \<Rightarrow> answer" where
  "htxd_option_method_activate_halt = screen_method htxd_toggle_activate_halt"

subsection \<open>Halting and activating the test\<close>

text \<open>How many devices in a row, from position \<open>j\<close>, are halted by the system, by an error or by the operator, or have
  ended.\<close>

fun stopped_from :: "nat \<Rightarrow> nat \<Rightarrow> sems \<Rightarrow> htxshm_HE list \<Rightarrow> nat fault" where
  "stopped_from 0 j ss hs = Some 0"
| "stopped_from (Suc r) j ss hs =
     (if length ss \<le> run_index j + 2 then None
      else if ss ! (run_index j + 2) = 1 \<or> ss ! (run_index j + 1) = 1 \<or> ss ! run_index j = 1
      then map_option Suc (stopped_from r (Suc j) ss hs)
      else if length hs \<le> j then None
      else if he_PID (hs ! j) = 0 then map_option Suc (stopped_from r (Suc j) ss hs)
      else Some 0)"

text \<open>\<open>looks k\<close> are the semaphores and entries at the \<open>k\<close>-th look. \<open>GETALL\<close> writes the whole set to an array of \<open>room\<close>
  values.\<close>

function halt_wait :: "nat \<Rightarrow> nat \<Rightarrow> (nat \<Rightarrow> sems \<times> htxshm_HE list) \<Rightarrow> nat \<Rightarrow> nat \<Rightarrow> bool fault" where
  "halt_wait room n looks delay k =
     (if delay < 600 then
        (if room < length (fst (looks k)) then None
         else case stopped_from n 0 (fst (looks k)) (snd (looks k)) of
             None \<Rightarrow> None
           | Some c \<Rightarrow> if n \<le> c then Some True else halt_wait room n looks (delay + 3) (Suc k))
      else Some False)"
  by pat_completeness auto
termination
  by (relation "measure (\<lambda>(room, n, looks, delay, k). 600 - delay)") auto

declare halt_wait.simps [simp del]

text \<open>What the exercisers write during the wait is theirs; the answer holds what the daemon writes. The first ECG is
  reached through the manager, whether or not there is one.\<close>

definition htxd_option_method_test_activate_halt ::
  "nat \<Rightarrow> (nat \<Rightarrow> sems \<times> htxshm_HE list) \<Rightarrow> daemon \<Rightarrow> answer" where
  "htxd_option_method_test_activate_halt max_add looks d =
     do { m \<leftarrow> d_mgr d;
          a \<leftarrow> m_list m;
          node \<leftarrow> m_heap m a;
          let i = n_info node;
          if htxd_get_global_activate_halt_sem_status (ei_sems i) = 0 then
            do { m' \<leftarrow> set_info a (i\<lparr>ei_sems := snd (htxd_set_global_activate_halt_sem_status (ei_sems i) 1)\<rparr>) m;
                 let n = nat (m_device_count m);
                 stopped \<leftarrow> halt_wait ((n + max_add) * SEM_PER_EXER + SEM_GLOBAL) n looks 0 0;
                 let d' = d\<lparr>d_mgr := Some m', d_test_active := 0\<rparr>;
                 if stopped then reply 256 0 ''All Hardware Exercisors are stopped'' d'
                 else reply 256 1 ''Warning: Not all HE's stopped within allowed time.  System will continue...'' d' }
          else
            do { m' \<leftarrow> set_info a (i\<lparr>ei_sems := snd (htxd_set_global_activate_halt_sem_status (ei_sems i) 0)\<rparr>) m;
                 reply 256 0 ''Test is activated'' (d\<lparr>d_mgr := Some m', d_test_active := 1\<rparr>) } }"

subsection \<open>The hang monitor\<close>

text \<open>One device in a pass of \<open>htxd_hang_monitor_ecg\<close>, after the wait for the ECG to be active. A device that must be
  updated within 0 seconds leads to a division by zero.\<close>

definition hang_check :: "int \<Rightarrow> sems \<Rightarrow> nat \<Rightarrow> htxshm_HE \<Rightarrow> htxshm_HE fault" where
  "hang_check now ss p h =
     (let complete = (he_max_cycles h \<noteq> 0 \<and> \<not> he_cycles h < he_max_cycles h); elapsed = now - he_tm_last_upd h
      in if he_PID h \<noteq> 0 \<and> he_tm_last_upd h \<noteq> 0 \<and> \<not> complete \<and> htxd_get_device_run_sem_status ss p = 0 \<and>
            htxd_get_device_error_sem_status ss p = 0 then
           (if max_update_lapse h < elapsed then
              (if max_update_lapse h = 0 then None
               else Some (h\<lparr>he_hung_flag := nat ((elapsed div max_update_lapse h) mod 2)\<rparr>))
            else Some (h\<lparr>he_hung_flag := 0\<rparr>))
         else Some h)"

fun hang_loop :: "int \<Rightarrow> sems \<Rightarrow> nat \<Rightarrow> nat \<Rightarrow> htxshm_HE list \<Rightarrow> htxshm_HE list fault" where
  "hang_loop now ss 0 p hs = Some hs"
| "hang_loop now ss (Suc n) p hs =
     (if length hs \<le> p then None
      else do { h \<leftarrow> hang_check now ss p (hs ! p); hang_loop now ss n (Suc p) (hs[p := h]) })"

definition htxd_hang_monitor_ecg :: "int \<Rightarrow> ecg_info \<Rightarrow> ecg_info fault" where
  "htxd_hang_monitor_ecg now i =
     do { (hdr, hs) \<leftarrow> ei_shm i;
          hs \<leftarrow> hang_loop now (ei_sems i) (ei_shm_entries i) 0 hs;
          Some (i\<lparr>ei_shm := Some (hdr, hs)\<rparr>) }"

subsection \<open>The stop watch\<close>

definition htxd_get_run_time_set_exer_count :: "htxshm_HE list \<Rightarrow> int" where
  "htxd_get_run_time_set_exer_count hs = int (length (filter (\<lambda>h. he_test_run_period h \<noteq> 0) hs))"

definition run_time_over :: "int \<Rightarrow> htxshm_HE \<Rightarrow> bool" where
  "run_time_over now h \<longleftrightarrow>
     he_test_run_period h \<noteq> 0 \<and> he_started_delay_flag h = 0 \<and> he_test_started_time h \<noteq> 0 \<and>
     he_test_run_period h \<le> now - he_test_started_time h \<and> he_test_run_period_expired h = 0"

text \<open>One pass over the entries: the count of devices still to be stopped, the entries, and the processes that get a
  \<open>SIGTERM\<close>. The pass is left when the count is used up.\<close>

fun watch_pass :: "int \<Rightarrow> htxshm_HE list \<Rightarrow> int \<Rightarrow> int \<times> htxshm_HE list \<times> int list" where
  "watch_pass now [] c = (c, [], [])"
| "watch_pass now (h # hs) c =
     (if run_time_over now h then
        (let kill = (if he_PID h \<noteq> 0 then [he_PID h] else [])
         in if c - 1 \<le> 0 then (c - 1, h\<lparr>he_test_run_period_expired := 1\<rparr> # hs, kill)
            else let (c', hs', ks) = watch_pass now hs (c - 1)
                 in (c', h\<lparr>he_test_run_period_expired := 1\<rparr> # hs', kill @ ks))
      else let (c', hs', ks) = watch_pass now hs c in (c', h # hs', ks))"

text \<open>\<open>clk k\<close> is the time of the \<open>k\<close>-th pass, \<open>others k\<close> is what other processes do to the entries before it, and \<open>down k\<close>
  says that the daemon is being shut down after it.\<close>

partial_function (option) watch_loop ::
  "(nat \<Rightarrow> int) \<Rightarrow> (nat \<Rightarrow> htxshm_HE list \<Rightarrow> htxshm_HE list) \<Rightarrow> (nat \<Rightarrow> bool) \<Rightarrow> nat \<Rightarrow> htxshm_HE list \<Rightarrow> int \<Rightarrow> int list \<Rightarrow>
     (htxshm_HE list \<times> int list) option" where
  "watch_loop clk others down k hs c sent =
     (let (c, hs, ks) = watch_pass (clk k) (others k hs) c
      in if 0 < c \<and> \<not> down k then watch_loop clk others down (Suc k) hs c (sent @ ks) else Some (hs, sent @ ks))"

definition htxd_stop_watch_monitor ::
  "(nat \<Rightarrow> int) \<Rightarrow> (nat \<Rightarrow> htxshm_HE list \<Rightarrow> htxshm_HE list) \<Rightarrow> (nat \<Rightarrow> bool) \<Rightarrow> htxshm_HE list \<Rightarrow>
     (htxshm_HE list \<times> int list) option" where
  "htxd_stop_watch_monitor clk others down hs =
     (let c = htxd_get_run_time_set_exer_count hs
      in if 0 < c then watch_loop clk others down 0 hs c [] else Some (hs, []))"

subsection \<open>Halting waits for every device\<close>

definition device_stopped :: "sems \<times> htxshm_HE list \<Rightarrow> nat \<Rightarrow> bool" where
  "device_stopped look j \<longleftrightarrow>
     sem_read (fst look) (Ack j) = 1 \<or> sem_read (fst look) (Err j) = 1 \<or> sem_read (fst look) (Run j) = 1 \<or>
     he_PID (snd look ! j) = 0"

lemma stopped_from_all:
  assumes "run_index (j + r) \<le> length ss" and "j + r \<le> length hs"
  shows "\<exists>c\<le>r. stopped_from r j ss hs = Some c \<and> (r \<le> c \<longleftrightarrow> (\<forall>q<r. device_stopped (ss, hs) (j + q)))"
  using assms
proof (induction r arbitrary: j)
  case (Suc r)
  have len: "run_index j + 2 < length ss" "j < length hs" using Suc.prems by (simp_all add: run_index_def)
  let ?st = "ss ! (run_index j + 2) = 1 \<or> ss ! (run_index j + 1) = 1 \<or> ss ! run_index j = 1 \<or> he_PID (hs ! j) = 0"
  have st: "device_stopped (ss, hs) j \<longleftrightarrow> ?st"
    using len by (auto simp: device_stopped_def sem_read_def semctl_GETVAL_def)
  obtain c where c: "c \<le> r" "stopped_from r (Suc j) ss hs = Some c"
      "r \<le> c \<longleftrightarrow> (\<forall>q<r. device_stopped (ss, hs) (Suc j + q))"
    using Suc.IH [of "Suc j"] Suc.prems by auto
  show ?case
  proof (cases ?st)
    case True
    then have "stopped_from (Suc r) j ss hs = Some (Suc c)" using len c(2) by auto
    then show ?thesis using c st True by (auto simp: All_less_Suc2)
  next
    case False
    then have "stopped_from (Suc r) j ss hs = Some 0" using len by auto
    then show ?thesis using st False by (auto simp: All_less_Suc2)
  qed
qed simp

lemma halt_wait_looks:
  assumes "\<forall>k<r. run_index n \<le> length (fst (looks (K + k))) \<and> length (fst (looks (K + k))) \<le> room \<and>
      n \<le> length (snd (looks (K + k)))"
    and "delay + 3 * r = 600"
  shows "halt_wait room n looks delay K = Some (\<exists>k<r. \<forall>j<n. device_stopped (looks (K + k)) j)"
  using assms
proof (induction r arbitrary: delay K)
  case 0
  then show ?case by (subst halt_wait.simps) simp
next
  case (Suc r)
  have l: "run_index n \<le> length (fst (looks K))" "length (fst (looks K)) \<le> room" "n \<le> length (snd (looks K))"
    using Suc.prems(1) by (auto simp: All_less_Suc2)
  obtain c where c: "c \<le> n" "stopped_from n 0 (fst (looks K)) (snd (looks K)) = Some c"
      "n \<le> c \<longleftrightarrow> (\<forall>j<n. device_stopped (looks K) j)"
    using stopped_from_all [of 0 n "fst (looks K)" "snd (looks K)"] l by auto
  have ih: "halt_wait room n looks (delay + 3) (Suc K) =
      Some (\<exists>k<r. \<forall>j<n. device_stopped (looks (Suc K + k)) j)"
    using Suc.prems by (intro Suc.IH) (auto simp: All_less_Suc2)
  show ?case
  proof (cases "n \<le> c")
    case True
    then show ?thesis using Suc.prems(2) l(2) c by (subst halt_wait.simps) (auto simp: Ex_less_Suc2)
  next
    case False
    then have "(\<exists>k<Suc r. \<forall>j<n. device_stopped (looks (K + k)) j) \<longleftrightarrow>
        (\<exists>k<r. \<forall>j<n. device_stopped (looks (Suc K + k)) j)"
      using c(3) by (auto simp: Ex_less_Suc2)
    then show ?thesis using Suc.prems(2) l(2) c(2) ih False by (subst halt_wait.simps) simp
  qed
qed

text \<open>C19: Halting the test sets the system semaphore and then looks at the exercisers, up to 200 times: it answers that all are
  stopped exactly when at one of these looks every device was halted by the system, by an error or by the operator, or
  had ended; otherwise it answers with a warning. Either way the test counts as halted, and the next call of the
  same command clears the system semaphore and activates the test.\<close>

theorem test_halt_answers:
  assumes "d_mgr d = Some m" "m_list m = Some a" "m_heap m a = Some node" "m_device_count m = int n"
    and "ei_sems (n_info node) = 0 # ss"
    and "\<forall>k<200. length (fst (looks k)) = (n + max_add) * SEM_PER_EXER + SEM_GLOBAL \<and> n \<le> length (snd (looks k))"
  shows "\<exists>d' d''. htxd_option_method_test_activate_halt max_add looks d =
      Some (if \<exists>k<200. \<forall>j<n. device_stopped (looks k) j then (0, ''All Hardware Exercisors are stopped'', d')
            else (1, ''Warning: Not all HE's stopped within allowed time.  System will continue...'', d')) \<and>
    d' = d\<lparr>d_mgr := Some (m\<lparr>m_heap := (m_heap m)(a \<mapsto> node\<lparr>n_info := (n_info node)\<lparr>ei_sems := 1 # ss\<rparr>\<rparr>)\<rparr>), d_test_active := 0\<rparr> \<and>
    htxd_option_method_test_activate_halt max_add looks' d' = Some (0, ''Test is activated'', d'') \<and>
    d'' = d\<lparr>d_mgr := Some m, d_test_active := 1\<rparr>"
proof -
  have w: "halt_wait ((n + max_add) * SEM_PER_EXER + SEM_GLOBAL) n looks 0 0 = Some (\<exists>k<200. \<forall>j<n. device_stopped (looks k) j)"
    using halt_wait_looks [of 200 n looks 0 "(n + max_add) * SEM_PER_EXER + SEM_GLOBAL" 0] assms(6)
    by (auto simp: run_index_def)
  let ?m' = "m\<lparr>m_heap := (m_heap m)(a \<mapsto> node\<lparr>n_info := (n_info node)\<lparr>ei_sems := 1 # ss\<rparr>\<rparr>)\<rparr>"
  let ?d' = "d\<lparr>d_mgr := Some ?m', d_test_active := 0\<rparr>"
  note sems = htxd_get_global_activate_halt_sem_status_def htxd_set_global_activate_halt_sem_status_def semctl_GETVAL_def
    SEMCTL_SETVAL_def
  have r: "set_info a ((n_info node)\<lparr>ei_sems := 1 # ss\<rparr>) m = Some ?m'"
    using assms(3) by (simp add: set_info_def at_node_def)
  have undo: "set_info a ((n_info node)\<lparr>ei_sems := 0 # ss\<rparr>) ?m' = Some m"
    using assms(3,5) by (simp add: set_info_def at_node_def fun_upd_idem assms(5) [symmetric])
  have halt: "htxd_option_method_test_activate_halt max_add looks d =
      Some (if \<exists>k<200. \<forall>j<n. device_stopped (looks k) j then (0, ''All Hardware Exercisors are stopped'', ?d')
            else (1, ''Warning: Not all HE's stopped within allowed time.  System will continue...'', ?d'))"
    unfolding htxd_option_method_test_activate_halt_def using assms(1-5) w r
    by (simp add: sems reply_def fits_def Let_def)
  have run: "htxd_option_method_test_activate_halt max_add looks' ?d' =
      Some (0, ''Test is activated'', d\<lparr>d_mgr := Some m, d_test_active := 1\<rparr>)"
    unfolding htxd_option_method_test_activate_halt_def using assms(1-3) undo
    by (simp add: sems reply_def fits_def Let_def)
  show ?thesis by (intro exI conjI, rule halt, rule refl, rule run, rule refl)
qed

text \<open>Two devices, one of them ended: the first look finds the other still running, the second finds it halted.\<close>

definition sample_looks :: "nat \<Rightarrow> sems \<times> htxshm_HE list" where
  "sample_looks k = (1 # replicate 7 0 @ (if k = 0 then 0 else 1) # replicate 3 0, [zero_HE\<lparr>he_PID := 7\<rparr>, zero_HE])"

definition sample_halt :: "ecg_manager \<times> ecg_node" where
  "sample_halt =
     (let n = \<lparr>n_next = None, n_prev = None, n_info = sample_info\<lparr>ei_sems := replicate 12 0\<rparr>\<rparr>
      in ((htxd_init_ecg_manager (\<lambda>a. if a = 1 then Some n else None))\<lparr>m_list := Some 1, m_device_count := 2\<rparr>, n))"

theorem test_halt_answers_witness:
  "\<exists>d'. htxd_option_method_test_activate_halt 0 sample_looks (sample_daemon\<lparr>d_mgr := Some (fst sample_halt)\<rparr>) =
     Some (0, ''All Hardware Exercisors are stopped'', d') \<and> d_test_active d' = 0"
proof -
  have l: "\<forall>k<200. length (fst (sample_looks k)) = (2 + 0) * SEM_PER_EXER + SEM_GLOBAL \<and> 2 \<le> length (snd (sample_looks k))"
    by (simp add: sample_looks_def)
  have "device_stopped (sample_looks 1) j" if "j < 2" for j
    using that by (auto simp: device_stopped_def sample_looks_def sem_read_def semctl_GETVAL_def run_index_def less_2_cases_iff
        nth_append zero_HE_def)
  then have e: "\<exists>k<200. \<forall>j<2. device_stopped (sample_looks k) j" by (intro exI [of _ 1]) simp
  let ?d = "sample_daemon\<lparr>d_mgr := Some (fst sample_halt)\<rparr>"
  have h: "d_mgr ?d = Some (fst sample_halt)" "m_list (fst sample_halt) = Some 1"
      "m_heap (fst sample_halt) 1 = Some (snd sample_halt)" "m_device_count (fst sample_halt) = int 2"
      "ei_sems (n_info (snd sample_halt)) = 0 # replicate 11 0"
    by (simp_all add: sample_halt_def Let_def htxd_init_ecg_manager_def numeral_eq_Suc)
  show ?thesis using test_halt_answers [OF h l, of sample_looks] e by auto
qed

subsection \<open>The stop watch stops every device once\<close>

definition pending :: "htxshm_HE \<Rightarrow> bool" where
  "pending h \<longleftrightarrow> he_test_run_period h \<noteq> 0 \<and> he_test_run_period_expired h = 0"

definition expire :: "int \<Rightarrow> htxshm_HE \<Rightarrow> htxshm_HE" where
  "expire now h = (if run_time_over now h then h\<lparr>he_test_run_period_expired := 1\<rparr> else h)"

definition signals :: "int \<Rightarrow> htxshm_HE list \<Rightarrow> int list" where
  "signals now hs = map he_PID (filter (\<lambda>h. run_time_over now h \<and> he_PID h \<noteq> 0) hs)"

abbreviation (input) count_pending :: "htxshm_HE list \<Rightarrow> int" where
  "count_pending hs \<equiv> int (length (filter pending hs))"

lemma over_pending: "run_time_over now h \<Longrightarrow> pending h"
  by (simp add: run_time_over_def pending_def)

lemma none_over: "count_pending hs \<le> 0 \<Longrightarrow> map (expire now) hs = hs \<and> signals now hs = []"
proof -
  assume "count_pending hs \<le> 0"
  then have "\<forall>h\<in>set hs. \<not> run_time_over now h" using over_pending by (auto simp: filter_empty_conv)
  then show ?thesis by (auto simp: expire_def signals_def filter_empty_conv intro: map_idI)
qed

text \<open>Leaving the pass early skips nothing: the pass is the map over all entries.\<close>

lemma watch_pass_map:
  "count_pending hs \<le> c \<Longrightarrow>
     watch_pass now hs c = (c - int (length (filter (run_time_over now) hs)), map (expire now) hs, signals now hs)"
proof (induction hs arbitrary: c)
  case (Cons h hs)
  show ?case
  proof (cases "run_time_over now h")
    case True
    then have c: "count_pending hs \<le> c - 1" using Cons.prems over_pending [OF True] by simp
    have h: "expire now h = h\<lparr>he_test_run_period_expired := 1\<rparr>" using True by (simp add: expire_def)
    have sg: "signals now (h # hs) = (if he_PID h \<noteq> 0 then [he_PID h] else []) @ signals now hs"
      using True by (simp add: signals_def)
    show ?thesis
    proof (cases "c - 1 \<le> 0")
      case none: True
      then have z: "count_pending hs \<le> 0" using c by linarith
      then have "filter (run_time_over now) hs = []" using over_pending by (auto simp: filter_empty_conv)
      then show ?thesis using True none none_over [OF z, of now] h sg by simp
    next
      case False
      then show ?thesis using True Cons.IH [OF c] h sg by simp
    qed
  next
    case False
    then have "count_pending hs \<le> c" using Cons.prems by (simp split: if_splits)
    then show ?thesis using False Cons.IH by (simp add: expire_def signals_def)
  qed
qed (simp add: signals_def)

lemma pending_expire: "count_pending (map (expire now) hs) = count_pending hs - int (length (filter (run_time_over now) hs))"
proof (induction hs)
  case (Cons h hs)
  have "\<not> pending (h\<lparr>he_test_run_period_expired := 1\<rparr>)" by (simp add: pending_def)
  then show ?case using Cons over_pending [of now h] by (cases "run_time_over now h") (simp_all add: expire_def)
qed simp

lemma watch_pass_ref:
  "watch_pass now hs (count_pending hs) = (count_pending (map (expire now) hs), map (expire now) hs, signals now hs)"
  unfolding pending_expire by (rule watch_pass_map) simp

text \<open>What other processes may do to an entry: not touch its run time, and not its mark.\<close>

definition leaves_watch :: "(htxshm_HE list \<Rightarrow> htxshm_HE list) \<Rightarrow> bool" where
  "leaves_watch f \<longleftrightarrow>
     (\<forall>hs. length (f hs) = length hs \<and>
        (\<forall>j<length hs. he_test_run_period (f hs ! j) = he_test_run_period (hs ! j) \<and>
           he_test_run_period_expired (f hs ! j) = he_test_run_period_expired (hs ! j)))"

lemma leaves_pending:
  assumes "leaves_watch f"
  shows "count_pending (f hs) = count_pending hs"
proof -
  have "map pending (f hs) = map pending hs"
    using assms by (intro nth_equalityI) (auto simp: leaves_watch_def pending_def)
  then have "length (filter id (map pending (f hs))) = length (filter id (map pending hs))" by simp
  then show ?thesis by (simp add: filter_map comp_def)
qed

text \<open>The entries before the \<open>k\<close>-th pass.\<close>

fun watched :: "(nat \<Rightarrow> int) \<Rightarrow> (nat \<Rightarrow> htxshm_HE list \<Rightarrow> htxshm_HE list) \<Rightarrow> htxshm_HE list \<Rightarrow> nat \<Rightarrow> htxshm_HE list" where
  "watched clk others hs 0 = hs"
| "watched clk others hs (Suc k) = map (expire (clk k)) (others k (watched clk others hs k))"

lemma watch_loop_step:
  assumes "leaves_watch (others k)"
  shows "watch_loop clk others down k (watched clk others hs k) (count_pending (watched clk others hs k)) sent =
    (let hs' = watched clk others hs (Suc k); sent' = sent @ signals (clk k) (others k (watched clk others hs k))
     in if 0 < count_pending hs' \<and> \<not> down k then watch_loop clk others down (Suc k) hs' (count_pending hs') sent'
        else Some (hs', sent'))"
proof -
  let ?hs = "others k (watched clk others hs k)"
  have "watch_pass (clk k) ?hs (count_pending (watched clk others hs k)) =
      (count_pending (watched clk others hs (Suc k)), watched clk others hs (Suc k), signals (clk k) ?hs)"
    using watch_pass_ref [of "clk k" ?hs] leaves_pending [OF assms, of "watched clk others hs k"] by simp
  then show ?thesis by (subst watch_loop.simps) (simp only: Let_def prod.case)
qed

lemma signals_count: "int (length (signals now hs)) \<le> count_pending hs - count_pending (map (expire now) hs)"
proof -
  have "length (filter (\<lambda>h. run_time_over now h \<and> he_PID h \<noteq> 0) hs) \<le> length (filter (run_time_over now) hs)"
    by (induction hs) auto
  then show ?thesis unfolding pending_expire by (simp add: signals_def)
qed

lemma watch_loop_ends:
  assumes "\<forall>k. leaves_watch (others k)" "\<forall>k. \<not> down k"
    and "\<forall>h\<in>set (others K (watched clk others hs K)). pending h \<longrightarrow> run_time_over (clk K) h"
    and "K = k + r"
  shows "\<exists>q sent'. watch_loop clk others down k (watched clk others hs k) (count_pending (watched clk others hs k)) sent =
      Some (watched clk others hs (Suc q), sent @ sent') \<and> count_pending (watched clk others hs (Suc q)) = 0 \<and>
    int (length sent') \<le> count_pending (watched clk others hs k)"
  using assms(4)
proof (induction r arbitrary: k sent)
  case 0
  let ?hs = "others k (watched clk others hs k)"
  have "filter (run_time_over (clk k)) ?hs = filter pending ?hs"
    using assms(3) 0 by (intro filter_cong) (auto intro: over_pending)
  then have z: "count_pending (watched clk others hs (Suc k)) = 0" using pending_expire [of "clk k" ?hs] by simp
  have "int (length (signals (clk k) ?hs)) \<le> count_pending (watched clk others hs k)"
    using signals_count [of "clk k" ?hs] leaves_pending [of "others k"] assms(1) by simp
  moreover have "watch_loop clk others down k (watched clk others hs k) (count_pending (watched clk others hs k)) sent =
      Some (watched clk others hs (Suc k), sent @ signals (clk k) ?hs)"
    using watch_loop_step [of others k clk down hs sent] assms(1) z by (simp only: Let_def) simp
  ultimately show ?case using z by blast
next
  case (Suc r)
  let ?hs = "others k (watched clk others hs k)"
  let ?w = "watched clk others hs (Suc k)"
  have le: "int (length (signals (clk k) ?hs)) + count_pending ?w \<le> count_pending (watched clk others hs k)"
    using signals_count [of "clk k" ?hs] leaves_pending [of "others k"] assms(1) by simp
  note step = watch_loop_step [of others k clk down hs sent, OF spec [OF assms(1)]]
  show ?case
  proof (cases "0 < count_pending ?w")
    case True
    obtain q sent' where q: "watch_loop clk others down (Suc k) ?w (count_pending ?w) (sent @ signals (clk k) ?hs) =
        Some (watched clk others hs (Suc q), (sent @ signals (clk k) ?hs) @ sent')"
        "count_pending (watched clk others hs (Suc q)) = 0" "int (length sent') \<le> count_pending ?w"
      using Suc.IH [of "Suc k" "sent @ signals (clk k) ?hs"] Suc.prems by auto
    then have "watch_loop clk others down k (watched clk others hs k) (count_pending (watched clk others hs k)) sent =
        Some (watched clk others hs (Suc q), sent @ (signals (clk k) ?hs @ sent'))"
      using step True assms(2) by (simp only: Let_def append_assoc) simp
    moreover have "int (length (signals (clk k) ?hs @ sent')) \<le> count_pending (watched clk others hs k)"
      using le q(3) by simp
    ultimately show ?thesis using q(2) by blast
  next
    case False
    then have "watch_loop clk others down k (watched clk others hs k) (count_pending (watched clk others hs k)) sent =
        Some (?w, sent @ signals (clk k) ?hs)"
      using step by (simp only: Let_def) simp
    moreover have "count_pending ?w = 0" using False by linarith
    moreover have "int (length (signals (clk k) ?hs)) \<le> count_pending (watched clk others hs k)" using le by linarith
    ultimately show ?thesis by blast
  qed
qed

lemma watched_keeps:
  assumes "\<forall>k. leaves_watch (others k)" "\<forall>h\<in>set hs. he_test_run_period_expired h = 0"
  shows "length (watched clk others hs k) = length hs \<and>
    (\<forall>j<length hs. he_test_run_period (watched clk others hs k ! j) = he_test_run_period (hs ! j) \<and>
       (he_test_run_period (hs ! j) = 0 \<longrightarrow> he_test_run_period_expired (watched clk others hs k ! j) = 0))"
proof (induction k)
  case (Suc k)
  then show ?case using assms(1) by (auto simp: leaves_watch_def expire_def run_time_over_def)
qed (use assms(2) in auto)



subsection \<open>The hung flag\<close>

text \<open>A device the hang monitor watches: its exerciser runs, has reported, is not done and not halted.\<close>

definition hang_watched :: "sems \<Rightarrow> nat \<Rightarrow> htxshm_HE \<Rightarrow> bool" where
  "hang_watched ss p h \<longleftrightarrow>
     he_PID h \<noteq> 0 \<and> he_tm_last_upd h \<noteq> 0 \<and> (he_max_cycles h = 0 \<or> he_cycles h < he_max_cycles h) \<and>
     sem_read ss (Run p) = 0 \<and> sem_read ss (Err p) = 0"

lemma hang_loop_entries:
  assumes "hang_loop now ss n p hs = Some hs'" and "p + n \<le> length hs"
  shows "length hs' = length hs \<and> (\<forall>j<length hs. if p \<le> j \<and> j < p + n then hang_check now ss j (hs ! j) = Some (hs' ! j)
      else hs' ! j = hs ! j)"
  using assms
proof (induction n arbitrary: p hs)
  case (Suc n)
  obtain h where h: "hang_check now ss p (hs ! p) = Some h" "hang_loop now ss n (Suc p) (hs[p := h]) = Some hs'"
    using Suc.prems by (auto split: bind_splits)
  show ?case using Suc.IH [OF h(2)] Suc.prems(2) h(1) by (auto simp: nth_list_update split: if_splits)
qed auto

text \<open>The hung flag that the monitor keeps is the parity of the number of limits that have passed since the last update: for a
  device that has been silent for twice its limit, but not yet three times, a pass of the monitor clears the flag, and so
  again at every even multiple, while the status that is computed for the same device shows it as hung all the time.\<close>

theorem hung_flag_parity:
  assumes "htxd_hang_monitor_ecg now i = Some i'" "ei_shm i = Some (hdr, hs)" "ei_shm_entries i \<le> length hs" "p < ei_shm_entries i"
    and "hang_watched (ei_sems i) p (hs ! p)" "max_update_lapse (hs ! p) = int L" "0 < L"
    and "int (2 * q * L) \<le> now - he_tm_last_upd (hs ! p)" "now - he_tm_last_upd (hs ! p) < int ((2 * q + 1) * L)" "0 < q"
    and "he_no_of_errs (hs ! p) = 0" "he_equaliser_halt (hs ! p) \<noteq> 1" "sem_read (ei_sems i) System \<noteq> 1"
    and "he_started_delay_flag (hs ! p) \<noteq> 1" "hdr_started hdr = 1"
  shows "(\<exists>hs'. ei_shm i' = Some (hdr, hs') \<and> he_hung_flag (hs' ! p) = 0) \<and>
    htxd_get_device_run_status now i hdr p = (0, Some ''HG'')"
proof -
  let ?h = "hs ! p"
  let ?e = "now - he_tm_last_upd ?h"
  obtain hs' where hs': "hang_loop now (ei_sems i) (ei_shm_entries i) 0 hs = Some hs'" "i' = i\<lparr>ei_shm := Some (hdr, hs')\<rparr>"
    using assms(1,2) by (auto simp: htxd_hang_monitor_ecg_def split: bind_splits)
  have c: "hang_check now (ei_sems i) p ?h = Some (hs' ! p)"
    using hang_loop_entries [OF hs'(1)] assms(3,4) by auto
  have "int L < ?e"
  proof -
    have "int L * 1 < int L * (2 * int q)" using assms(7,10) by (intro mult_strict_left_mono) auto
    then show ?thesis using assms(8) by (simp add: mult.commute mult.left_commute)
  qed
  moreover have "?e div int L = 2 * int q"
    using assms(7-9) by (intro div_pos_geq [THEN trans] int_div_pos_eq [where r = "?e - int (2 * q * L)"]) auto
  ultimately have d: "max_update_lapse ?h < ?e" "?e div max_update_lapse ?h = 2 * int q" using assms(6) by simp_all
  have "hang_check now (ei_sems i) p ?h = Some (?h\<lparr>he_hung_flag := 0\<rparr>)"
    using assms(5-7) d by (auto simp: hang_check_def hang_watched_def device_sem_ops Let_def)
  then have "he_hung_flag (hs' ! p) = 0" using c by (cases "hs' ! p") (auto simp: htxshm_HE.defs)
  moreover have "htxd_get_device_run_status now i hdr p = (0, Some ''HG'')"
    using assms(2,5,11-15) d(1)
    by (auto simp: hang_watched_def htxd_get_device_run_status_def device_sem_ops entry_at_def Let_def)
  ultimately show ?thesis using hs'(2) by simp
qed

definition sample_hung :: ecg_info where
  "sample_hung =
     sample_info\<lparr>ei_shm := Some ((new_header 1 1 0)\<lparr>hdr_started := 1\<rparr>,
         [zero_HE\<lparr>he_PID := 7, he_tm_last_upd := 5, he_max_run_tm := 10, he_hung_flag := 1\<rparr>]),
       ei_shm_entries := 1, ei_sems := replicate 9 0\<rparr>"

theorem hung_flag_parity_witness:
  "\<exists>i' hs'. htxd_hang_monitor_ecg 29 sample_hung = Some i' \<and> ei_shm i' = Some ((new_header 1 1 0)\<lparr>hdr_started := 1\<rparr>, hs') \<and>
     he_hung_flag (hs' ! 0) = 0 \<and>
     htxd_get_device_run_status 29 sample_hung ((new_header 1 1 0)\<lparr>hdr_started := 1\<rparr>) 0 = (0, Some ''HG'')"
proof -
  let ?h = "zero_HE\<lparr>he_PID := 7, he_tm_last_upd := 5, he_max_run_tm := 10, he_hung_flag := 1\<rparr>"
  have s: "hang_watched (ei_sems sample_hung) 0 ([?h] ! 0)" "sem_read (ei_sems sample_hung) System \<noteq> 1"
    by (simp_all add: hang_watched_def sample_hung_def sem_read_def semctl_GETVAL_def run_index_def zero_HE_def)
  have "\<exists>i'. htxd_hang_monitor_ecg 29 sample_hung = Some i'"
    by (simp add: htxd_hang_monitor_ecg_def sample_hung_def hang_check_def Let_def zero_HE_def)
  then obtain i' where i': "htxd_hang_monitor_ecg 29 sample_hung = Some i'" by blast
  have "(\<exists>hs'. ei_shm i' = Some ((new_header 1 1 0)\<lparr>hdr_started := 1\<rparr>, hs') \<and> he_hung_flag (hs' ! 0) = 0) \<and>
    htxd_get_device_run_status 29 sample_hung ((new_header 1 1 0)\<lparr>hdr_started := 1\<rparr>) 0 = (0, Some ''HG'')"
    by (rule hung_flag_parity [OF i' _ _ _ s(1) _ _ _ _ _ _ _ s(2), where L = 10 and q = 1])
      (simp_all add: sample_hung_def zero_HE_def)
  then show ?thesis using i' by blast
qed

end
