(* ===== verification/Htxd_Equaliser.thy ===== *)
theory Htxd_Equaliser
  imports Htxd_List
begin

unbundle bit_operations_syntax

text \<open>
  The equaliser of htxd (\<open>bin/htxd/htxd_equaliser.c\<close>): a process that stops and continues the exercisers of an MDT
  by a bit pattern, one bit for each time quantum. The text \<open>cpu_utilization\<close> of a device gives the pattern, or a
  sequence of percentages from which a pattern is made for each period (\<open>Documentation/equaliser.readme\<close>).

  The layout of the processors, which the system configuration library reads from the machine, the results of
  \<open>killpg\<close>, \<open>bind_process\<close>, \<open>rand\<close>, \<open>time\<close> and \<open>fopen\<close>, and what other processes do to the shared memory
  between two turns are inputs. The nested arrays of \<open>struct SYS\<close> are the list of their processors in the order in
  which all loops visit them. The texts sent to the message collector are left out. \<open>exit\<close>, a shift by a count
  outside 0 to 31, a division by zero and an access outside an array are faults.
\<close>

subsection \<open>Processors\<close>

text \<open>\<open>struct CPU\<close>; \<open>cpu_tests\<close> is the used part of \<open>exer_info_index\<close>.\<close>

record CPU =
  cpu_lcpu :: int
  cpu_pcpu :: int
  cpu_tests :: "nat list"

text \<open>What the system configuration library answers.\<close>

record syscfg =
  get_num_of_nodes_in_sys :: int
  get_num_of_chips_in_node :: "nat \<Rightarrow> int"
  get_num_of_cores_in_chip :: "nat \<Rightarrow> nat \<Rightarrow> int"
  get_num_of_cpus_in_core :: "nat \<Rightarrow> nat \<Rightarrow> nat \<Rightarrow> int"
  get_logical_cpu_num :: "nat \<Rightarrow> nat \<Rightarrow> nat \<Rightarrow> nat \<Rightarrow> int"
  get_logical_2_physical :: "int \<Rightarrow> int"

text \<open>A loop that fills an array of \<open>m\<close> elements, with the processors of the elements joined.\<close>

fun joined :: "'a list fault list \<Rightarrow> 'a list fault" where
  "joined [] = Some []"
| "joined (x # xs) = do { a \<leftarrow> x; b \<leftarrow> joined xs; Some (a @ b) }"

definition level :: "nat \<Rightarrow> int \<Rightarrow> (nat \<Rightarrow> 'a list fault) \<Rightarrow> 'a list fault" where
  "level m n f = (if int m < n then None else joined (map f [0..<nat n]))"

definition update_sys_details :: "syscfg \<Rightarrow> CPU list fault" where
  "update_sys_details s =
     level 8 (get_num_of_nodes_in_sys s) (\<lambda>n.
       level 8 (get_num_of_chips_in_node s n) (\<lambda>p.
         level 24 (get_num_of_cores_in_chip s n p) (\<lambda>c.
           level 8 (get_num_of_cpus_in_core s n p c) (\<lambda>t.
             let l = get_logical_cpu_num s n p c t
             in Some [\<lparr>cpu_lcpu = l, cpu_pcpu = get_logical_2_physical s l, cpu_tests = []\<rparr>]))))"

subsection \<open>The configuration of an exerciser\<close>

abbreviation (input) UTIL_LEFT :: nat where "UTIL_LEFT \<equiv> 0"
abbreviation (input) UTIL_RIGHT :: nat where "UTIL_RIGHT \<equiv> 1"
abbreviation (input) UTIL_RANDOM :: nat where "UTIL_RANDOM \<equiv> 2"
abbreviation (input) UTIL_PATTERN :: nat where "UTIL_PATTERN \<equiv> 3"
abbreviation (input) MAX_UTIL_SEQUENCE_LENGTH :: nat where "MAX_UTIL_SEQUENCE_LENGTH \<equiv> 10"
abbreviation (input) MAX_TESTS_PER_CPU :: nat where "MAX_TESTS_PER_CPU \<equiv> 20"

record config_params =
  c_util_pattern :: nat
  c_utilization_pattern :: "32 word"
  c_pattern_length :: nat
  c_sequence_length :: nat
  c_utilization_sequence :: "nat list"

record run_time_config = config_params +
  d_target_utilization :: nat
  d_current_seq_step :: nat
  d_current_step :: nat

text \<open>\<open>strtok\<close> with one delimiter: the token and the text that the next call goes on with.\<close>

definition strtok :: "char \<Rightarrow> cstring \<Rightarrow> (cstring \<times> cstring) option" where
  "strtok d s =
     (let t = dropWhile (\<lambda>c. c = d) s
      in if t = [] then None else Some (takeWhile (\<lambda>c. c \<noteq> d) t, tl (dropWhile (\<lambda>c. c \<noteq> d) t)))"

lemma strtok_shorter: "strtok d s = Some (w, r) \<Longrightarrow> length r < length s"
proof -
  assume a: "strtok d s = Some (w, r)"
  let ?t = "dropWhile (\<lambda>c. c = d) s"
  have t: "?t \<noteq> []" and r: "r = tl (dropWhile (\<lambda>c. c \<noteq> d) ?t)"
    using a by (auto simp: strtok_def Let_def split: if_splits)
  have "length (dropWhile (\<lambda>c. c \<noteq> d) ?t) \<le> length ?t" "length ?t \<le> length s"
    by (rule length_dropWhile_le)+
  then show ?thesis using t r by (cases "dropWhile (\<lambda>c. c \<noteq> d) ?t") auto
qed

function strtok_all :: "char \<Rightarrow> cstring \<Rightarrow> cstring list" where
  "strtok_all d s = (case strtok d s of None \<Rightarrow> [] | Some (w, r) \<Rightarrow> w # strtok_all d r)"
  by pat_completeness auto
termination
  by (relation "measure (\<lambda>(d, s). length s)") (auto dest: strtok_shorter)

declare strtok_all.simps [simp del]

text \<open>\<open>strtoul (s, NULL, 2)\<close> for a text of less than 64 characters, which cannot overflow.\<close>

definition strtoul2 :: "cstring \<Rightarrow> int" where
  "strtoul2 s =
     (let (neg, t) = strtol_sign (dropWhile isspace s);
          v = foldl (\<lambda>a c. 2 * a + int (digit_val c)) 0 (takeWhile (\<lambda>c. c = CHR ''0'' \<or> c = CHR ''1'') t)
      in (if neg then - v else v) mod 2 ^ 64)"

definition util_kind :: "cstring \<Rightarrow> nat \<Rightarrow> nat" where
  "util_kind w old =
     (if strcmp w ''UTIL_LEFT'' = 0 then UTIL_LEFT
      else if strcmp w ''UTIL_RIGHT'' = 0 then UTIL_RIGHT
      else if strcmp w ''UTIL_RANDOM'' = 0 then UTIL_RANDOM else old)"

text \<open>The first numbers of the array are written, the rest stays.\<close>

definition overwrite :: "'a list \<Rightarrow> 'a list \<Rightarrow> 'a list" where
  "overwrite xs ys = xs @ drop (length xs) ys"

definition update_config_detail :: "int \<Rightarrow> cstring \<Rightarrow> run_time_config \<Rightarrow> run_time_config fault" where
  "update_config_detail pattern_length text c =
     (if 64 \<le> length text then None
      else if strchr text (CHR ''%'') \<noteq> None then
        do { (w, rest) \<leftarrow> strtok (CHR ''%'') text;
             let ns = map (\<lambda>n. ushort (atoi n)) (strtok_all (CHR ''_'') rest) in
             if MAX_UTIL_SEQUENCE_LENGTH < length ns then None
             else Some (c\<lparr>c_util_pattern := util_kind w (c_util_pattern c),
                          c_utilization_sequence := overwrite ns (c_utilization_sequence c),
                          c_sequence_length := length ns,
                          c_pattern_length := ushort pattern_length\<rparr>) }
      else Some (c\<lparr>c_utilization_pattern := word_of_int (strtoul2 text), c_util_pattern := UTIL_PATTERN,
                   c_pattern_length := length text\<rparr>))"

text \<open>The number of a device: all digits of its name, in an \<open>int\<close>.\<close>

fun bind_cpu_num :: "cstring \<Rightarrow> int \<Rightarrow> int fault" where
  "bind_cpu_num [] b = Some b"
| "bind_cpu_num (c # s) b =
     (if isdigit c then
        if 2 ^ 31 \<le> b * 10 + int (code c) then None else bind_cpu_num s (b * 10 + int (code c) - 48)
      else bind_cpu_num s b)"

text \<open>The loops over the processors for the device \<open>k\<close> with number \<open>b\<close>.\<close>

fun place_test :: "int \<Rightarrow> nat \<Rightarrow> int \<Rightarrow> cstring \<Rightarrow> CPU list \<Rightarrow> run_time_config list
  \<Rightarrow> (CPU list \<times> run_time_config list) fault" where
  "place_test pattern_length k b text [] cs = Some ([], cs)"
| "place_test pattern_length k b text (p # ps) cs =
     (if cpu_lcpu p = b then
        if MAX_TESTS_PER_CPU \<le> length (cpu_tests p) \<or> length cs \<le> k then None
        else do { c \<leftarrow> update_config_detail pattern_length text (cs ! k);
                  (ps', cs') \<leftarrow> place_test pattern_length k b text ps (cs[k := c]);
                  Some (p\<lparr>cpu_tests := cpu_tests p @ [k]\<rparr> # ps', cs') }
      else do { (ps', cs') \<leftarrow> place_test pattern_length k b text ps cs; Some (p # ps', cs') })"

fun update_exer_info :: "int \<Rightarrow> nat \<Rightarrow> htxshm_HE list \<Rightarrow> CPU list \<Rightarrow> run_time_config list
  \<Rightarrow> (CPU list \<times> run_time_config list) fault" where
  "update_exer_info pattern_length k [] ps cs = Some (ps, cs)"
| "update_exer_info pattern_length k (h # hs) ps cs =
     do { b \<leftarrow> bind_cpu_num (he_sdev_id h) 0;
          (ps', cs') \<leftarrow> place_test pattern_length k b (he_cpu_utilization h) ps cs;
          update_exer_info pattern_length (Suc k) hs ps' cs' }"

subsection \<open>Patterns\<close>

text \<open>The loop over \<open>j\<close> of 1 to \<open>t\<close> that sets the bits \<open>hi - j\<close>.\<close>

fun set_down :: "nat \<Rightarrow> int \<Rightarrow> 32 word \<Rightarrow> 32 word fault" where
  "set_down 0 hi p = Some p"
| "set_down (Suc t) hi p =
     (if 0 \<le> hi - 1 \<and> hi - 1 < 32 then set_down t (hi - 1) (p OR push_bit (nat (hi - 1)) 1) else None)"

definition exchange :: "nat \<Rightarrow> nat \<Rightarrow> 32 word \<Rightarrow> 32 word" where
  "exchange first_pos second_pos p =
     (let digits_to_exch = push_bit first_pos 1 OR push_bit second_pos 1;
          first_digit = drop_bit first_pos p AND 1;
          second_digit = drop_bit second_pos p AND 1;
          digits_aft_exch = push_bit second_pos first_digit OR push_bit first_pos second_digit
      in (NOT digits_to_exch AND p) OR digits_aft_exch)"

text \<open>The loop with \<open>m\<close> turns left; \<open>r i\<close> is what \<open>rand\<close> returns in the turn with \<open>first_pos\<close> \<open>i\<close>.\<close>

fun shuffle_loop :: "nat \<Rightarrow> nat \<Rightarrow> (nat \<Rightarrow> nat) \<Rightarrow> 32 word \<Rightarrow> 32 word fault" where
  "shuffle_loop 0 first_pos r p = Some p"
| "shuffle_loop (Suc m) first_pos r p =
     (let second_pos = first_pos + r first_pos mod Suc m
      in if 32 \<le> second_pos then None else shuffle_loop m (Suc first_pos) r (exchange first_pos second_pos p))"

definition shuffle_pattern :: "nat \<Rightarrow> (nat \<Rightarrow> nat) \<Rightarrow> 32 word \<Rightarrow> 32 word fault" where
  "shuffle_pattern n r p = shuffle_loop n 0 r p"

definition target_active_in_decs :: "run_time_config \<Rightarrow> nat" where
  "target_active_in_decs c = d_target_utilization c * c_pattern_length c div 100"

text \<open>The debug message reads \<open>buf\<close>, which only the body of a loop or the random case writes.\<close>

definition reset_utilization_queue :: "int \<Rightarrow> (nat \<Rightarrow> nat) \<Rightarrow> run_time_config \<Rightarrow> run_time_config fault" where
  "reset_utilization_queue debug r c =
     (let t = target_active_in_decs c; n = c_pattern_length c; u = c_util_pattern c
      in do { p \<leftarrow> (if u = UTIL_LEFT then set_down t (int n) 0
                   else if u = UTIL_RIGHT then set_down t (int t) 0
                   else if u = UTIL_RANDOM then do { p \<leftarrow> set_down t (int n) 0; shuffle_pattern n r p }
                   else Some 0);
              if debug = 1 \<and> u \<noteq> UTIL_RANDOM \<and> (t = 0 \<or> UTIL_RANDOM < u) then None
              else Some (c\<lparr>c_utilization_pattern := p\<rparr>) })"

definition init_config :: "int \<Rightarrow> (nat \<Rightarrow> nat) \<Rightarrow> run_time_config \<Rightarrow> run_time_config fault" where
  "init_config debug r c =
     do { let c = c\<lparr>d_target_utilization := c_utilization_sequence c ! 0\<rparr>;
          c \<leftarrow> (if c_util_pattern c \<noteq> UTIL_PATTERN then reset_utilization_queue debug r c else Some c);
          Some (c\<lparr>d_current_step := 0, d_current_seq_step := 0\<rparr>) }"

text \<open>The places that the loops over processors and their tests visit.\<close>

definition visits :: "CPU list \<Rightarrow> (CPU \<times> nat) list" where
  "visits ps = concat (map (\<lambda>p. map (Pair p) (cpu_tests p)) ps)"

fun init_configs :: "int \<Rightarrow> (nat \<Rightarrow> nat \<Rightarrow> nat) \<Rightarrow> (CPU \<times> nat) list \<Rightarrow> run_time_config list
  \<Rightarrow> run_time_config list fault" where
  "init_configs debug rs [] cs = Some cs"
| "init_configs debug rs ((p, i) # vs) cs =
     (if length cs \<le> i then None
      else do { c \<leftarrow> init_config debug (rs i) (cs ! i); init_configs debug rs vs (cs[i := c]) })"

definition initialize_run_time_data :: "int \<Rightarrow> (nat \<Rightarrow> nat \<Rightarrow> nat) \<Rightarrow> CPU list \<Rightarrow> run_time_config list
  \<Rightarrow> run_time_config list fault" where
  "initialize_run_time_data debug rs ps cs = init_configs debug rs (visits ps) cs"

subsection \<open>The loop\<close>

datatype eq_event =
    Killpg int string
  | Set_online int nat
  | Bind_process int int int

text \<open>\<open>q_log\<close> is the log file, \<open>None\<close> after a failing \<open>fopen\<close>; \<open>q_saved\<close> is its last copy.\<close>

record equaliser =
  q_conf :: "run_time_config list"
  q_HE :: "htxshm_HE list"
  q_log :: "string option"
  q_saved :: string
  q_tm_log_save :: int
  q_events :: "eq_event list"

text \<open>The inputs of a visit and of a turn of the loop; \<open>t_HE\<close> are the entries as the other processes left them. No
  other process writes \<open>equaliser_halt\<close>.\<close>

record visit_in =
  v_killpg :: int
  v_bind :: int
  v_rand :: "nat \<Rightarrow> nat"
  v_time :: string

record turn_in =
  t_clock :: int
  t_fopen :: bool
  t_HE :: "htxshm_HE list"
  t_sems :: sems
  t_visit :: "nat \<Rightarrow> visit_in"

definition controlled :: "sems \<Rightarrow> nat \<Rightarrow> htxshm_HE \<Rightarrow> bool" where
  "controlled ss i h \<longleftrightarrow>
     he_PID h \<noteq> 0 \<and> he_tm_last_upd h \<noteq> 0 \<and> he_started_delay_flag h = 0 \<and>
     (he_max_cycles h = 0 \<or> he_max_cycles h \<noteq> 0 \<and> he_cycles h < he_max_cycles h) \<and>
     semctl_GETVAL ss 0 = 0 \<and> semctl_GETVAL ss (i * SEM_PER_EXER + SEM_GLOBAL + 1) = 0 \<and>
     semctl_GETVAL ss (i * SEM_PER_EXER + SEM_GLOBAL) = 0"

definition action :: "run_time_config \<Rightarrow> (32 word) fault" where
  "action c =
     (let s = int (c_pattern_length c) - (int (d_current_step c) + 1)
      in if 0 \<le> s \<and> s < 32 then Some (drop_bit (nat s) (c_utilization_pattern c) AND 1) else None)"

definition log_text :: "string \<Rightarrow> equaliser \<Rightarrow> equaliser fault" where
  "log_text t q = (case q_log q of None \<Rightarrow> None | Some l \<Rightarrow> Some (q\<lparr>q_log := Some (l @ t)\<rparr>))"

definition event :: "eq_event \<Rightarrow> equaliser \<Rightarrow> equaliser" where
  "event e q = q\<lparr>q_events := q_events q @ [e]\<rparr>"

definition set_equaliser_halt :: "nat \<Rightarrow> nat \<Rightarrow> equaliser \<Rightarrow> equaliser" where
  "set_equaliser_halt i v q = q\<lparr>q_HE := (q_HE q)[i := (q_HE q ! i)\<lparr>he_equaliser_halt := v\<rparr>]\<rparr>"

definition stop_exer :: "equaliser_details \<Rightarrow> CPU \<Rightarrow> visit_in \<Rightarrow> nat \<Rightarrow> equaliser \<Rightarrow> equaliser fault" where
  "stop_exer e p v i q =
     do { q \<leftarrow> log_text (''Sending SIGSTOP to '' @ he_sdev_id (q_HE q ! i) @ '' at '' @ v_time v) q;
          let q = event (Killpg (he_PID (q_HE q ! i)) ''SIGSTOP'') q;
          Some (if v_killpg v \<noteq> 0 then q
                else let q = set_equaliser_halt i 1 q
                     in if eq_offline_cpu e \<noteq> 0 then event (Set_online (cpu_pcpu p) 0) q else q) }"

definition cont_exer :: "equaliser_details \<Rightarrow> CPU \<Rightarrow> visit_in \<Rightarrow> nat \<Rightarrow> equaliser \<Rightarrow> equaliser fault" where
  "cont_exer e p v i q =
     do { q \<leftarrow> (if eq_offline_cpu e \<noteq> 0 then
                 let q = event (Set_online (cpu_pcpu p) 1) q;
                     q = event (Bind_process (he_PID (q_HE q ! i)) (cpu_lcpu p) (cpu_pcpu p)) q
                 in if v_bind v < 0 then None else Some q
               else Some q);
          q \<leftarrow> log_text (''Sending SIGCONT to '' @ he_sdev_id (q_HE q ! i) @ '' at '' @ v_time v) q;
          let q = event (Killpg (he_PID (q_HE q ! i)) ''SIGCONT'') q;
          Some (if v_killpg v \<noteq> 0 then q else set_equaliser_halt i 0 q) }"

text \<open>\<open>current_step\<close> is a \<open>char\<close>.\<close>

definition next_step :: "int \<Rightarrow> (nat \<Rightarrow> nat) \<Rightarrow> run_time_config \<Rightarrow> run_time_config fault" where
  "next_step debug r c =
     (if c_pattern_length c = 0 then None
      else let c = c\<lparr>d_current_step := (d_current_step c + 1) mod c_pattern_length c mod 256\<rparr>
        in if d_current_step c = 0 \<and> c_util_pattern c \<noteq> UTIL_PATTERN then
             if c_sequence_length c = 0 then None
             else let s = (d_current_seq_step c + 1) mod c_sequence_length c;
                      c = c\<lparr>d_current_seq_step := s, d_target_utilization := c_utilization_sequence c ! s\<rparr>
               in if 1 < c_sequence_length c \<or> c_util_pattern c = UTIL_RANDOM
                  then reset_utilization_queue debug r c else Some c
           else Some c)"

definition equalise :: "equaliser_details \<Rightarrow> sems \<Rightarrow> CPU \<Rightarrow> visit_in \<Rightarrow> nat \<Rightarrow> equaliser \<Rightarrow> equaliser fault" where
  "equalise e ss p v i q =
     (if length (q_HE q) \<le> i \<or> length (q_conf q) \<le> i then None
      else if \<not> controlled ss i (q_HE q ! i) then Some q
      else do {
        a \<leftarrow> action (q_conf q ! i);
        q \<leftarrow> (if a = 0 \<and> he_equaliser_halt (q_HE q ! i) = 0 then stop_exer e p v i q
              else if a = 1 \<and> he_equaliser_halt (q_HE q ! i) = 1 then cont_exer e p v i q else Some q);
        c \<leftarrow> next_step (eq_debug_flag e) (v_rand v) (q_conf q ! i);
        Some (q\<lparr>q_conf := (q_conf q)[i := c]\<rparr>) })"

fun equalise_all :: "equaliser_details \<Rightarrow> turn_in \<Rightarrow> (CPU \<times> nat) list \<Rightarrow> equaliser \<Rightarrow> equaliser fault" where
  "equalise_all e t [] q = Some q"
| "equalise_all e t ((p, i) # vs) q =
     do { q \<leftarrow> equalise e (t_sems t) p (t_visit t i) i q; equalise_all e t vs q }"

definition others_write :: "htxshm_HE list \<Rightarrow> equaliser \<Rightarrow> equaliser" where
  "others_write hs q =
     q\<lparr>q_HE := map2 (\<lambda>new old. new\<lparr>he_equaliser_halt := he_equaliser_halt old\<rparr>) hs (q_HE q)\<rparr>"

text \<open>\<open>log_duration\<close> is an \<open>unsigned int\<close>. \<open>fclose\<close> of a null pointer is a fault.\<close>

definition rotate_log :: "equaliser_details \<Rightarrow> turn_in \<Rightarrow> equaliser \<Rightarrow> equaliser fault" where
  "rotate_log e t q =
     (if eq_log_duration e mod 2 ^ 32 \<le> t_clock t - q_tm_log_save q then
        case q_log q of
          None \<Rightarrow> None
        | Some l \<Rightarrow> Some (q\<lparr>q_saved := l, q_tm_log_save := t_clock t,
                             q_log := (if t_fopen t then Some [] else None)\<rparr>)
      else Some q)"

definition eq_turn :: "equaliser_details \<Rightarrow> CPU list \<Rightarrow> turn_in \<Rightarrow> equaliser \<Rightarrow> equaliser fault" where
  "eq_turn e ps t q =
     do { q \<leftarrow> rotate_log e t (others_write (t_HE t) q); equalise_all e t (visits ps) q }"

text \<open>The states after the turns.\<close>

fun eq_loop :: "equaliser_details \<Rightarrow> CPU list \<Rightarrow> turn_in list \<Rightarrow> equaliser \<Rightarrow> equaliser list fault" where
  "eq_loop e ps [] q = Some []"
| "eq_loop e ps (t # ts) q = do { q \<leftarrow> eq_turn e ps t q; qs \<leftarrow> eq_loop e ps ts q; Some (q # qs) }"

text \<open>The process up to its loop. \<open>memory\<close> is what \<open>malloc\<close> returns, with arbitrary contents; \<open>rc\<close> is the result of
  \<open>init_syscfg_with_malloc\<close>.\<close>

definition start_equaliser :: "equaliser_details \<Rightarrow> syscfg \<Rightarrow> int \<Rightarrow> run_time_config list option
  \<Rightarrow> (nat \<Rightarrow> nat \<Rightarrow> nat) \<Rightarrow> int \<Rightarrow> bool \<Rightarrow> htxshm_HE list \<Rightarrow> (CPU list \<times> equaliser) fault" where
  "start_equaliser e s rc memory rs clock opened hs =
     do { cs \<leftarrow> memory;
          if rc \<noteq> 0 then None
          else do {
            ps \<leftarrow> update_sys_details s;
            (ps, cs) \<leftarrow> update_exer_info (eq_pattern_length e) 0 hs ps cs;
            cs \<leftarrow> initialize_run_time_data (eq_debug_flag e) rs ps cs;
            Some (ps, \<lparr>q_conf = cs, q_HE = hs, q_log = (if opened then Some [] else None), q_saved = [],
                       q_tm_log_save = clock, q_events = []\<rparr>) } }"

definition htxd_equaliser :: "equaliser_details \<Rightarrow> syscfg \<Rightarrow> int \<Rightarrow> run_time_config list option
  \<Rightarrow> (nat \<Rightarrow> nat \<Rightarrow> nat) \<Rightarrow> int \<Rightarrow> bool \<Rightarrow> htxshm_HE list \<Rightarrow> turn_in list \<Rightarrow> equaliser list fault" where
  "htxd_equaliser e s rc memory rs clock opened hs ts =
     do { (ps, q) \<leftarrow> start_equaliser e s rc memory rs clock opened hs; eq_loop e ps ts q }"

text \<open>The handler of the signals that end the process: the exit code, and the entries it leaves. Exercisers that are
  stopped stay stopped.\<close>

definition equaliser_sig_end :: "equaliser \<Rightarrow> int \<times> htxshm_HE list" where
  "equaliser_sig_end q = (0, q_HE q)"

subsection \<open>The bits of a pattern\<close>

definition swap :: "nat \<Rightarrow> nat \<Rightarrow> nat \<Rightarrow> nat" where
  "swap i j b = (if b = i then j else if b = j then i else b)"

lemma bij_swap: "bij (swap i j)"
  by (rule involuntory_imp_bij) (simp add: swap_def)

lemma bit_word32: "bit (w :: 32 word) b \<Longrightarrow> b < 32"
  by (drule bit_imp_le_length) simp

lemma bit_digit: "bit (drop_bit i (p :: 32 word) AND 1) b \<longleftrightarrow> b = 0 \<and> bit p i"
  by (auto simp: bit_and_iff bit_drop_bit_eq bit_1_iff)

lemma bit_one: "b < 32 \<Longrightarrow> bit (push_bit k 1 :: 32 word) b \<longleftrightarrow> b = k"
  by (auto simp: bit_push_bit_iff bit_1_iff simp del: push_bit_of_1)

lemma bit_exchange:
  assumes "i < 32" "j < 32"
  shows "bit (exchange i j p) b = bit p (swap i j b)"
proof (cases "b < 32")
  case True
  have dig: "bit (push_bit k (drop_bit l p AND 1)) b \<longleftrightarrow> b = k \<and> bit p l" for k l
    using True by (simp only: bit_push_bit_iff bit_digit) auto
  show ?thesis using True
    by (simp only: exchange_def Let_def bit_or_iff bit_and_iff bit_not_iff bit_one [OF True] dig swap_def) auto
next
  case False
  then show ?thesis using assms bit_word32 by (auto simp: swap_def)
qed

lemma bit_set_down:
  assumes "t \<le> n" "n \<le> 32"
  shows "\<exists>q. set_down t (int n) p = Some q \<and> (\<forall>b. bit q b \<longleftrightarrow> bit p b \<or> n - t \<le> b \<and> b < n)"
  using assms
proof (induction t arbitrary: n p)
  case 0
  then show ?case by auto
next
  case (Suc t)
  then obtain m where n: "n = Suc m" by (cases n) auto
  have m: "m < 32" "t \<le> m" using Suc.prems n by auto
  obtain q where q: "set_down t (int m) (p OR push_bit m 1) = Some q"
    "\<And>b. bit q b \<longleftrightarrow> bit (p OR push_bit m 1) b \<or> m - t \<le> b \<and> b < m"
    using Suc.IH [of m "p OR push_bit m 1"] m by auto
  have "bit (p OR push_bit m 1) b \<longleftrightarrow> bit p b \<or> b = m" for b
    using bit_one [of b m] bit_word32 [of "push_bit m 1" b] bit_one [of m m] m(1)
    by (auto simp: bit_or_iff simp del: push_bit_of_1)
  then show ?case using q m n by (auto simp del: push_bit_of_1)
qed

lemma bit_shuffle_loop:
  assumes "first + m \<le> 32"
  shows "\<exists>q f. shuffle_loop m first r p = Some q \<and> bij f \<and> (\<forall>b. first + m \<le> b \<longrightarrow> f b = b) \<and>
               (\<forall>b. bit q b = bit p (f b))"
  using assms
proof (induction m arbitrary: first p)
  case 0
  show ?case by (rule exI [of _ p], rule exI [of _ "\<lambda>b. b"]) (simp add: bij_id [unfolded id_def])
next
  case (Suc m)
  define second where "second = first + r first mod Suc m"
  have s: "second < first + Suc m" by (simp add: second_def)
  then have b: "first < 32" "second < 32" using Suc.prems by auto
  obtain q f where q: "shuffle_loop m (Suc first) r (exchange first second p) = Some q" and f: "bij f"
    "\<And>b. Suc first + m \<le> b \<Longrightarrow> f b = b" and bits: "\<And>b. bit q b = bit (exchange first second p) (f b)"
    using Suc.IH [of "Suc first" "exchange first second p"] Suc.prems by auto
  show ?case
  proof (intro exI conjI allI impI)
    show "shuffle_loop (Suc m) first r p = Some q" using q b by (simp flip: second_def)
    show "bij (swap first second \<circ> f)" using f(1) bij_swap by (rule bij_comp)
    show "(swap first second \<circ> f) x = x" if "first + Suc m \<le> x" for x
      using that f(2) [of x] s by (auto simp: swap_def)
    show "bit q x = bit p ((swap first second \<circ> f) x)" for x
      using bits [of x] b by (simp add: bit_exchange)
  qed
qed

text \<open>How many bits are set.\<close>

definition ones :: "32 word \<Rightarrow> nat" where
  "ones p = card {b. bit p b}"

lemma ones_bij: "bij f \<Longrightarrow> (\<And>b. bit q b = bit p (f b)) \<Longrightarrow> ones q = ones p"
proof -
  assume f: "bij f" and b: "\<And>b. bit q b = bit p (f b)"
  have "f ` {x. bit q x} = {x. bit p x}"
  proof (intro equalityI subsetI)
    fix y assume "y \<in> {x. bit p x}"
    moreover obtain x where "y = f x" using f by (auto simp: bij_def surj_def)
    ultimately show "y \<in> f ` {x. bit q x}" using b by auto
  qed (use b in auto)
  moreover have "inj_on f {x. bit q x}" using f by (auto simp: bij_def intro: inj_on_subset)
  ultimately show "ones q = ones p" unfolding ones_def using card_image [of f "{x. bit q x}"] by simp
qed

lemma shuffle_pattern_bits:
  assumes "n \<le> 32" "\<And>b. bit p b \<Longrightarrow> b < n"
  shows "\<exists>q. shuffle_pattern n r p = Some q \<and> ones q = ones p \<and> (\<forall>b. bit q b \<longrightarrow> b < n)"
proof -
  obtain q f where q: "shuffle_loop n 0 r p = Some q" "bij f" "\<And>b. n \<le> b \<Longrightarrow> f b = b"
    "\<And>b. bit q b = bit p (f b)"
    using bit_shuffle_loop [of 0 n r p] assms(1) by auto
  have "b < n" if "bit q b" for b
    using that q(3,4) [of b] assms(2) [of b] by (cases "n \<le> b") auto
  moreover have "ones q = ones p" using ones_bij [OF q(2,4)] .
  ultimately show ?thesis using q(1) by (simp add: shuffle_pattern_def)
qed

text \<open>The patterns of length \<open>n\<close> with \<open>t\<close> set bits that the kinds \<open>UTIL_LEFT\<close>, \<open>UTIL_RIGHT\<close> and \<open>UTIL_RANDOM\<close>
  stand for.\<close>

definition pattern_for :: "nat \<Rightarrow> nat \<Rightarrow> nat \<Rightarrow> 32 word \<Rightarrow> bool" where
  "pattern_for u n t p \<longleftrightarrow>
     ones p = t \<and> (\<forall>b. bit p b \<longrightarrow> b < n) \<and>
     (u = UTIL_LEFT \<longrightarrow> (\<forall>b. bit p b \<longleftrightarrow> n - t \<le> b \<and> b < n)) \<and>
     (u = UTIL_RIGHT \<longrightarrow> (\<forall>b. bit p b \<longleftrightarrow> b < t))"

lemma ones_range:
  assumes "\<And>b. bit p b \<longleftrightarrow> m \<le> b \<and> b < n"
  shows "ones p = n - m"
proof -
  have "{b. bit p b} = {m..<n}" by (rule set_eqI) (simp only: assms mem_Collect_eq atLeastLessThan_iff)
  then show ?thesis by (simp add: ones_def)
qed

lemma reset_pattern:
  assumes "c_pattern_length c \<le> 32" "d_target_utilization c \<le> 100" "c_util_pattern c \<le> UTIL_RANDOM"
    and "debug = 1 \<and> c_util_pattern c \<noteq> UTIL_RANDOM \<longrightarrow> 0 < target_active_in_decs c"
  shows "\<exists>p. reset_utilization_queue debug r c = Some (c\<lparr>c_utilization_pattern := p\<rparr>) \<and>
             pattern_for (c_util_pattern c) (c_pattern_length c) (target_active_in_decs c) p"
proof -
  define n t where "n = c_pattern_length c" and "t = target_active_in_decs c"
  have "d_target_utilization c * n \<le> 100 * n" using assms(2) by (rule mult_le_mono1)
  then have "d_target_utilization c * n div 100 \<le> 100 * n div 100" by (rule div_le_mono)
  then have tn: "t \<le> n" by (simp add: t_def n_def target_active_in_decs_def)
  have n: "n \<le> 32" using assms(1) by (simp add: n_def)
  obtain q where q: "set_down t (int n) 0 = Some q" "\<And>b. bit q b \<longleftrightarrow> n - t \<le> b \<and> b < n"
    using bit_set_down [of t n 0] tn n by auto
  obtain q1 where q1: "set_down t (int t) 0 = Some q1" "\<And>b. bit q1 b \<longleftrightarrow> b < t"
    using bit_set_down [of t t 0] tn n by auto
  obtain q2 where q2: "shuffle_pattern n r q = Some q2" "ones q2 = ones q" "\<And>b. bit q2 b \<Longrightarrow> b < n"
    using shuffle_pattern_bits [of n q r] n q(2) by auto
  have o: "ones q = t" "ones q1 = t"
    using ones_range [of q "n - t" n] ones_range [of q1 0 t] q(2) q1(2) tn by auto
  consider "c_util_pattern c = 0" | "c_util_pattern c = 1" | "c_util_pattern c = 2"
    using assms(3) by linarith
  then show ?thesis
  proof cases
    case 1
    then show ?thesis using q o assms(4) tn
      by (intro exI [of _ q]) (simp add: reset_utilization_queue_def pattern_for_def flip: n_def t_def)
  next
    case 2
    then show ?thesis using q1 o assms(4) tn
      by (intro exI [of _ q1]) (simp add: reset_utilization_queue_def pattern_for_def flip: n_def t_def)
  next
    case 3
    then show ?thesis using q q2 o
      by (intro exI [of _ q2]) (simp add: reset_utilization_queue_def pattern_for_def flip: n_def t_def)
  qed
qed

subsection \<open>The phase of an exerciser\<close>

text \<open>What the documentation asks of a configuration: a pattern that fits a word, and one to ten percentages. With the
  debug flag a pattern of kind \<open>UTIL_LEFT\<close> or \<open>UTIL_RIGHT\<close> must have a set bit.\<close>

definition config_ok :: "int \<Rightarrow> run_time_config \<Rightarrow> bool" where
  "config_ok debug c \<longleftrightarrow>
     0 < c_pattern_length c \<and> c_pattern_length c \<le> 32 \<and>
     (c_util_pattern c = UTIL_PATTERN \<or>
      c_util_pattern c \<le> UTIL_RANDOM \<and> 0 < c_sequence_length c \<and>
      (\<forall>s < c_sequence_length c. c_utilization_sequence c ! s \<le> 100 \<and>
         (debug = 1 \<and> c_util_pattern c \<noteq> UTIL_RANDOM \<longrightarrow> 100 \<le> c_utilization_sequence c ! s * c_pattern_length c)))"

text \<open>The configuration after \<open>t\<close> quanta.\<close>

definition in_phase :: "nat \<Rightarrow> run_time_config \<Rightarrow> bool" where
  "in_phase t c \<longleftrightarrow>
     d_current_step c = t mod c_pattern_length c \<and>
     (c_util_pattern c \<noteq> UTIL_PATTERN \<longrightarrow>
      d_current_seq_step c = t div c_pattern_length c mod c_sequence_length c \<and>
      d_target_utilization c = c_utilization_sequence c ! d_current_seq_step c \<and>
      pattern_for (c_util_pattern c) (c_pattern_length c) (target_active_in_decs c) (c_utilization_pattern c))"

definition same_plan :: "run_time_config \<Rightarrow> run_time_config \<Rightarrow> bool" where
  "same_plan c c' \<longleftrightarrow>
     c_util_pattern c' = c_util_pattern c \<and> c_pattern_length c' = c_pattern_length c \<and>
     c_sequence_length c' = c_sequence_length c \<and> c_utilization_sequence c' = c_utilization_sequence c \<and>
     (d_current_step c' \<noteq> 0 \<or> c_util_pattern c = UTIL_PATTERN \<longrightarrow> c_utilization_pattern c' = c_utilization_pattern c)"

lemma div_mod_Suc_same: "Suc t mod n \<noteq> 0 \<Longrightarrow> Suc t div n = t div (n :: nat)"
  by (simp add: div_Suc)

lemma reset_target:
  assumes ok: "config_ok debug c" and u: "c_util_pattern c \<noteq> UTIL_PATTERN"
    and t: "s < c_sequence_length c" "d_target_utilization c = c_utilization_sequence c ! s"
  shows "\<exists>p. reset_utilization_queue debug r c = Some (c\<lparr>c_utilization_pattern := p\<rparr>) \<and>
             pattern_for (c_util_pattern c) (c_pattern_length c) (target_active_in_decs c) p"
proof (rule reset_pattern)
  have n: "d_target_utilization c \<le> 100"
    "debug = 1 \<and> c_util_pattern c \<noteq> UTIL_RANDOM \<Longrightarrow> 100 \<le> d_target_utilization c * c_pattern_length c"
    using ok u t by (auto simp: config_ok_def)
  show "c_pattern_length c \<le> 32" "c_util_pattern c \<le> UTIL_RANDOM" using ok u by (auto simp: config_ok_def)
  show "d_target_utilization c \<le> 100" by (rule n(1))
  show "debug = 1 \<and> c_util_pattern c \<noteq> UTIL_RANDOM \<longrightarrow> 0 < target_active_in_decs c"
    using n(2) by (auto simp: target_active_in_decs_def div_greater_zero_iff)
qed

lemma init_config_phase:
  assumes "config_ok debug c"
  shows "\<exists>c'. init_config debug r c = Some c' \<and> in_phase 0 c' \<and> config_ok debug c' \<and>
              c_util_pattern c' = c_util_pattern c \<and> c_pattern_length c' = c_pattern_length c \<and>
              c_sequence_length c' = c_sequence_length c \<and> c_utilization_sequence c' = c_utilization_sequence c \<and>
              (c_util_pattern c = UTIL_PATTERN \<longrightarrow> c_utilization_pattern c' = c_utilization_pattern c)"
proof (cases "c_util_pattern c = UTIL_PATTERN")
  case True
  then show ?thesis using assms by (auto simp: init_config_def in_phase_def config_ok_def)
next
  case False
  define d where "d = c\<lparr>d_target_utilization := c_utilization_sequence c ! 0\<rparr>"
  have d: "config_ok debug d" using assms by (simp add: d_def config_ok_def)
  have u: "c_util_pattern d \<noteq> UTIL_PATTERN" using False by (simp add: d_def)
  have "0 < c_sequence_length d" using d u by (auto simp: config_ok_def)
  then obtain p where p: "reset_utilization_queue debug r d = Some (d\<lparr>c_utilization_pattern := p\<rparr>)"
    "pattern_for (c_util_pattern d) (c_pattern_length d) (target_active_in_decs d) p"
    using reset_target [OF d u, of 0 r] by (auto simp: d_def)
  have i: "init_config debug r c =
    Some (d\<lparr>c_utilization_pattern := p, d_current_step := 0, d_current_seq_step := 0\<rparr>)"
    using p(1) False by (simp add: init_config_def Let_def flip: d_def) (simp add: d_def)
  show ?thesis unfolding i using p(2) d False
    by (auto simp: in_phase_def config_ok_def target_active_in_decs_def d_def)
qed

lemma next_step_phase:
  assumes ok: "config_ok debug c" and ph: "in_phase t c"
  shows "\<exists>c'. next_step debug r c = Some c' \<and> in_phase (Suc t) c' \<and> config_ok debug c' \<and> same_plan c c'"
proof -
  define n where "n = c_pattern_length c"
  define m where "m = c_sequence_length c"
  have n: "0 < n" "n \<le> 32" using ok by (auto simp: config_ok_def n_def)
  have "Suc t mod n < n" using n(1) by (rule mod_less_divisor)
  then have "Suc t mod n mod 256 = Suc t mod n" using n(2) by (intro mod_less) simp
  then have step: "(d_current_step c + 1) mod n mod 256 = Suc t mod n"
    using ph n by (simp add: in_phase_def mod_Suc_eq flip: n_def)
  define d where "d = c\<lparr>d_current_step := Suc t mod n\<rparr>"
  have unfold: "next_step debug r c =
    (if Suc t mod n = 0 \<and> c_util_pattern c \<noteq> UTIL_PATTERN then
       if m = 0 then None
       else let s = (d_current_seq_step c + 1) mod m;
                b = d\<lparr>d_current_seq_step := s, d_target_utilization := c_utilization_sequence c ! s\<rparr>
         in if 1 < m \<or> c_util_pattern c = UTIL_RANDOM then reset_utilization_queue debug r b else Some b
     else Some d)"
    using n step by (simp add: next_step_def Let_def d_def flip: n_def m_def)
  show ?thesis
  proof (cases "Suc t mod n = 0 \<and> c_util_pattern c \<noteq> UTIL_PATTERN")
    case False
    then have "in_phase (Suc t) d" using ph div_mod_Suc_same [of t n]
      by (auto simp: in_phase_def d_def target_active_in_decs_def simp flip: n_def)
    then show ?thesis using False ok unfolding unfold
      by (auto simp: config_ok_def same_plan_def d_def)
  next
    case True
    define s where "s = (d_current_seq_step c + 1) mod m"
    define b where "b = d\<lparr>d_current_seq_step := s, d_target_utilization := c_utilization_sequence c ! s\<rparr>"
    have m: "0 < m" using ok True by (auto simp: config_ok_def m_def)
    have b: "config_ok debug b" using ok by (simp add: config_ok_def b_def d_def)
    have "Suc t div n = Suc (t div n)" using True by (simp add: div_Suc)
    then have s: "s = Suc t div n mod m" using ph True by (simp add: s_def in_phase_def mod_Suc_eq flip: n_def m_def)
    show ?thesis
    proof (cases "1 < m \<or> c_util_pattern c = UTIL_RANDOM")
      case reset: True
      have "s < c_sequence_length b" using m by (simp add: s_def b_def d_def flip: m_def)
      then obtain p where p: "reset_utilization_queue debug r b = Some (b\<lparr>c_utilization_pattern := p\<rparr>)"
        "pattern_for (c_util_pattern b) (c_pattern_length b) (target_active_in_decs b) p"
        using reset_target [OF b, of s r] True by (auto simp: b_def d_def)
      have e: "next_step debug r c = Some (b\<lparr>c_utilization_pattern := p\<rparr>)"
        unfolding unfold Let_def s_def [symmetric] b_def [symmetric] using True m reset p(1) by simp
      show ?thesis unfolding e using p(2) b s True
        by (auto simp: in_phase_def config_ok_def same_plan_def target_active_in_decs_def b_def d_def simp flip: n_def m_def)
    next
      case False
      then have one: "m = 1" using m by simp
      have e: "next_step debug r c = Some b"
        unfolding unfold Let_def s_def [symmetric] b_def [symmetric] using True m False by simp
      have "in_phase (Suc t) b" using ph True one s
        by (auto simp: in_phase_def target_active_in_decs_def b_def d_def simp flip: n_def m_def)
      then show ?thesis unfolding e using b by (auto simp: same_plan_def b_def d_def)
    qed
  qed
qed

subsection \<open>One visit\<close>

lemma action_bit:
  assumes "config_ok debug c" "in_phase t c"
  shows "action c = Some (if bit (c_utilization_pattern c) (c_pattern_length c - 1 - t mod c_pattern_length c) then 1 else 0)"
proof -
  define n where "n = c_pattern_length c"
  have n: "0 < n" "n \<le> 32" using assms(1) by (auto simp: config_ok_def n_def)
  have l: "t mod n < n" using n(1) by (rule mod_less_divisor)
  have s: "d_current_step c = t mod n" using assms(2) by (simp add: in_phase_def n_def)
  have "drop_bit k p AND 1 = (if bit p k then 1 else 0)" for k and p :: "32 word"
    by (rule bit_eqI) (auto simp: bit_digit bit_1_iff simp del: bit_and_iff)
  moreover have "nat (int n - (int (t mod n) + 1)) = n - 1 - t mod n" using l by linarith
  moreover have "0 \<le> int n - (int (t mod n) + 1)" "int n - (int (t mod n) + 1) < 32" using l n by linarith+
  ultimately show ?thesis unfolding action_def Let_def s n_def [symmetric] by simp
qed

text \<open>What a signal to the exerciser \<open>i\<close> leaves alone.\<close>

definition only_halt :: "nat \<Rightarrow> equaliser \<Rightarrow> equaliser \<Rightarrow> bool" where
  "only_halt i q q' \<longleftrightarrow>
     q_conf q' = q_conf q \<and> q_log q' \<noteq> None \<and> q_tm_log_save q' = q_tm_log_save q \<and>
     length (q_HE q') = length (q_HE q) \<and>
     (\<forall>j. j \<noteq> i \<longrightarrow> q_HE q' ! j = q_HE q ! j) \<and>
     (\<exists>h. q_HE q' ! i = (q_HE q ! i)\<lparr>he_equaliser_halt := h\<rparr>)"

definition visit_ok :: "equaliser_details \<Rightarrow> visit_in \<Rightarrow> bool" where
  "visit_ok e v \<longleftrightarrow> eq_offline_cpu e = 0 \<or> 0 \<le> v_bind v"

lemma HE_halt_same: "h\<lparr>he_equaliser_halt := he_equaliser_halt h\<rparr> = (h :: htxshm_HE)"
  by simp

lemma stop_exer_ok:
  assumes "q_log q = Some l" "i < length (q_HE q)"
  shows "\<exists>q'. stop_exer e p v i q = Some q' \<and> only_halt i q q' \<and>
              (v_killpg v = 0 \<longrightarrow> he_equaliser_halt (q_HE q' ! i) = 1)"
proof -
  have "\<exists>x. h = h\<lparr>he_equaliser_halt := x\<rparr>" for h :: htxshm_HE by (rule exI [of _ "he_equaliser_halt h"]) simp
  moreover have "\<exists>x. h\<lparr>he_equaliser_halt := y\<rparr> = h\<lparr>he_equaliser_halt := x\<rparr>" for h :: htxshm_HE and y by blast
  ultimately show ?thesis using assms
    by (simp add: stop_exer_def log_text_def event_def set_equaliser_halt_def only_halt_def Let_def)
qed

lemma cont_exer_ok:
  assumes "q_log q = Some l" "i < length (q_HE q)" "visit_ok e v"
  shows "\<exists>q'. cont_exer e p v i q = Some q' \<and> only_halt i q q' \<and>
              (v_killpg v = 0 \<longrightarrow> he_equaliser_halt (q_HE q' ! i) = 0)"
proof -
  have "\<exists>x. h = h\<lparr>he_equaliser_halt := x\<rparr>" for h :: htxshm_HE by (rule exI [of _ "he_equaliser_halt h"]) simp
  moreover have "\<exists>x. h\<lparr>he_equaliser_halt := y\<rparr> = h\<lparr>he_equaliser_halt := x\<rparr>" for h :: htxshm_HE and y by blast
  ultimately show ?thesis using assms
    by (auto simp: cont_exer_def log_text_def event_def set_equaliser_halt_def only_halt_def visit_ok_def Let_def)
qed

text \<open>The state of a process that is ready to visit the exercisers \<open>is\<close>.\<close>

definition sane :: "equaliser_details \<Rightarrow> nat set \<Rightarrow> equaliser \<Rightarrow> bool" where
  "sane e is q \<longleftrightarrow>
     q_log q \<noteq> None \<and>
     (\<forall>i \<in> is. i < length (q_HE q) \<and> i < length (q_conf q) \<and> he_equaliser_halt (q_HE q ! i) \<le> 1 \<and>
        config_ok (eq_debug_flag e) (q_conf q ! i) \<and> (\<exists>t. in_phase t (q_conf q ! i)))"

text \<open>One quantum of the exerciser \<open>i\<close> from \<open>q\<close> to \<open>q'\<close>, when it is quantum number \<open>t\<close>: the exerciser is stopped or
  continued by the bit of the quantum.\<close>

definition quantum :: "nat \<Rightarrow> nat \<Rightarrow> equaliser \<Rightarrow> equaliser \<Rightarrow> bool" where
  "quantum i t q q' \<longleftrightarrow>
     (let c = q_conf q ! i; n = c_pattern_length c
      in in_phase (Suc t) (q_conf q' ! i) \<and> same_plan c (q_conf q' ! i) \<and>
         he_equaliser_halt (q_HE q' ! i) = (if bit (c_utilization_pattern c) (n - 1 - t mod n) then 0 else 1))"

definition apart :: "nat \<Rightarrow> equaliser \<Rightarrow> equaliser \<Rightarrow> bool" where
  "apart i q q' \<longleftrightarrow>
     length (q_HE q') = length (q_HE q) \<and> length (q_conf q') = length (q_conf q) \<and>
     q_tm_log_save q' = q_tm_log_save q \<and>
     (\<forall>j. j \<noteq> i \<longrightarrow> q_HE q' ! j = q_HE q ! j \<and> q_conf q' ! j = q_conf q ! j)"

lemma signal_ok:
  assumes "q_log q = Some l" "i < length (q_HE q)" "visit_ok e v" "he_equaliser_halt (q_HE q ! i) \<le> 1"
    and a: "a = (if b then 1 else 0)"
  shows "\<exists>q'. (if a = (0 :: 32 word) \<and> he_equaliser_halt (q_HE q ! i) = 0 then stop_exer e p v i q
               else if a = 1 \<and> he_equaliser_halt (q_HE q ! i) = 1 then cont_exer e p v i q else Some q) = Some q' \<and>
              only_halt i q q' \<and> he_equaliser_halt (q_HE q' ! i) \<le> 1 \<and>
              (v_killpg v = 0 \<longrightarrow> he_equaliser_halt (q_HE q' ! i) = (if b then 0 else 1))"
  (is "\<exists>q'. ?r = Some q' \<and> ?P q'")
proof -
  have le: "he_equaliser_halt (q_HE q' ! i) \<le> 1"
    if "(if b then cont_exer e p v i q else stop_exer e p v i q) = Some q'" for q'
    using that assms(1,2,4)
    by (auto simp: cont_exer_def stop_exer_def log_text_def event_def set_equaliser_halt_def Let_def
        split: if_splits bind_splits)
  have keep: "only_halt i q q" using assms(1)
    by (auto simp: only_halt_def intro: exI [of _ "he_equaliser_halt (q_HE q ! i)"])
  consider "b" "he_equaliser_halt (q_HE q ! i) = 0" | "b" "he_equaliser_halt (q_HE q ! i) = 1"
    | "\<not> b" "he_equaliser_halt (q_HE q ! i) = 0" | "\<not> b" "he_equaliser_halt (q_HE q ! i) = 1"
    using assms(4) by linarith
  then show ?thesis
  proof cases
    case 1
    then show ?thesis using keep a by simp
  next
    case 2
    then show ?thesis using cont_exer_ok [OF assms(1-3), of p] le a by auto
  next
    case 3
    then show ?thesis using stop_exer_ok [OF assms(1,2), of e p v] le a by auto
  next
    case 4
    then show ?thesis using keep a by simp
  qed
qed

lemma equalise_ok:
  assumes sane: "sane e is q" and i: "i \<in> is" and v: "visit_ok e v"
  shows "\<exists>q'. equalise e ss p v i q = Some q' \<and> sane e is q' \<and> apart i q q' \<and>
              (controlled ss i (q_HE q ! i) \<and> v_killpg v = 0 \<and> in_phase t (q_conf q ! i) \<longrightarrow> quantum i t q q')"
proof (cases "controlled ss i (q_HE q ! i)")
  case False
  then show ?thesis using sane i by (auto simp: equalise_def sane_def apart_def)
next
  case True
  let ?c = "q_conf q ! i"
  obtain l where l: "q_log q = Some l" using sane by (auto simp: sane_def)
  have len: "i < length (q_HE q)" "i < length (q_conf q)" and h: "he_equaliser_halt (q_HE q ! i) \<le> 1"
    and ok: "config_ok (eq_debug_flag e) ?c" and ex: "\<exists>t. in_phase t ?c"
    using sane i by (auto simp: sane_def)
  obtain t' where t': "in_phase t' ?c" and tt: "in_phase t ?c \<longrightarrow> t' = t" using ex by (cases "in_phase t ?c") auto
  define b where "b = bit (c_utilization_pattern ?c) (c_pattern_length ?c - 1 - t' mod c_pattern_length ?c)"
  obtain q1 where q1: "(if (if b then 1 else 0) = (0 :: 32 word) \<and> he_equaliser_halt (q_HE q ! i) = 0
      then stop_exer e p v i q
      else if (if b then 1 else 0) = (1 :: 32 word) \<and> he_equaliser_halt (q_HE q ! i) = 1
        then cont_exer e p v i q else Some q) = Some q1"
    and o: "only_halt i q q1" and h1: "he_equaliser_halt (q_HE q1 ! i) \<le> 1"
    and set: "v_killpg v = 0 \<longrightarrow> he_equaliser_halt (q_HE q1 ! i) = (if b then 0 else 1)"
    using signal_ok [OF l len(1) v h refl, where p = p and b = b] by blast
  obtain c' where c': "next_step (eq_debug_flag e) (v_rand v) ?c = Some c'" "in_phase (Suc t') c'"
    "config_ok (eq_debug_flag e) c'" "same_plan ?c c'"
    using next_step_phase [OF ok t'] by blast
  let ?q = "q1\<lparr>q_conf := (q_conf q1)[i := c']\<rparr>"
  have same: "q_conf q1 = q_conf q" "length (q_HE q1) = length (q_HE q)" "q_log q1 \<noteq> None"
    "q_tm_log_save q1 = q_tm_log_save q" "\<And>j. j \<noteq> i \<Longrightarrow> q_HE q1 ! j = q_HE q ! j"
    using o by (auto simp: only_halt_def)
  show ?thesis
  proof (intro exI conjI impI)
    show "equalise e ss p v i q = Some ?q"
      unfolding equalise_def action_bit [OF ok t'] b_def [symmetric]
      using True len q1 c'(1) same(1) by simp
    show "sane e is ?q" using sane same h1 c'(2,3) len
      by (auto simp: sane_def nth_list_update)
    show "apart i q ?q" using same by (simp add: apart_def)
    assume a: "controlled ss i (q_HE q ! i) \<and> v_killpg v = 0 \<and> in_phase t ?c"
    then have "t' = t" using tt by simp
    then show "quantum i t q ?q" using c' set len same a by (simp add: quantum_def Let_def b_def)
  qed
qed

subsection \<open>Turns\<close>

lemma equalise_all_ok:
  assumes "sane e is q" "set (map snd vs) \<subseteq> is" "distinct (map snd vs)" "\<forall>i \<in> is. visit_ok e (t_visit t i)"
  shows "\<exists>q'. equalise_all e t vs q = Some q' \<and> sane e is q' \<and>
              length (q_HE q') = length (q_HE q) \<and> length (q_conf q') = length (q_conf q) \<and>
              (\<forall>j. j \<notin> set (map snd vs) \<longrightarrow> q_HE q' ! j = q_HE q ! j \<and> q_conf q' ! j = q_conf q ! j) \<and>
              (\<forall>i n. i \<in> set (map snd vs) \<and> controlled (t_sems t) i (q_HE q ! i) \<and> v_killpg (t_visit t i) = 0 \<and>
                 in_phase n (q_conf q ! i) \<longrightarrow> quantum i n q q')"
  using assms
proof (induction vs arbitrary: q)
  case Nil
  then show ?case by simp
next
  case (Cons x vs)
  obtain p k where x: "x = (p, k)" by (cases x)
  have k: "k \<in> is" "visit_ok e (t_visit t k)" "k \<notin> set (map snd vs)" using Cons.prems x by auto
  obtain q1 where q1: "equalise e (t_sems t) p (t_visit t k) k q = Some q1" using equalise_ok [OF Cons.prems(1) k(1,2)] by blast
  have a: "sane e is q1 \<and> apart k q q1 \<and>
    (controlled (t_sems t) k (q_HE q ! k) \<and> v_killpg (t_visit t k) = 0 \<and> in_phase n (q_conf q ! k) \<longrightarrow> quantum k n q q1)" for n
    using equalise_ok [OF Cons.prems(1) k(1,2), of "t_sems t" p n] q1 by auto
  have ap: "length (q_HE q1) = length (q_HE q)" "length (q_conf q1) = length (q_conf q)"
    "\<And>j. j \<noteq> k \<Longrightarrow> q_HE q1 ! j = q_HE q ! j" "\<And>j. j \<noteq> k \<Longrightarrow> q_conf q1 ! j = q_conf q ! j"
    using a by (auto simp: apart_def)
  obtain q2 where q2: "equalise_all e t vs q1 = Some q2" "sane e is q2" "length (q_HE q2) = length (q_HE q1)"
    "length (q_conf q2) = length (q_conf q1)"
    and rest: "\<And>j. j \<notin> set (map snd vs) \<Longrightarrow> q_HE q2 ! j = q_HE q1 ! j \<and> q_conf q2 ! j = q_conf q1 ! j"
    and qu: "\<And>i n. i \<in> set (map snd vs) \<Longrightarrow> controlled (t_sems t) i (q_HE q1 ! i) \<Longrightarrow> v_killpg (t_visit t i) = 0 \<Longrightarrow>
                 in_phase n (q_conf q1 ! i) \<Longrightarrow> quantum i n q1 q2"
    using Cons.IH [of q1] Cons.prems a by auto
  show ?case
  proof (intro exI conjI allI impI)
    show "equalise_all e t (x # vs) q = Some q2" using q1 q2(1) x by simp
    show "sane e is q2" by (rule q2(2))
    show "length (q_HE q2) = length (q_HE q)" "length (q_conf q2) = length (q_conf q)" using q2 ap by auto
    show "q_HE q2 ! j = q_HE q ! j" "q_conf q2 ! j = q_conf q ! j" if "j \<notin> set (map snd (x # vs))" for j
      using that rest [of j] ap(3,4) [of j] x by auto
    fix i n
    assume i: "i \<in> set (map snd (x # vs)) \<and> controlled (t_sems t) i (q_HE q ! i) \<and> v_killpg (t_visit t i) = 0 \<and>
      in_phase n (q_conf q ! i)"
    show "quantum i n q q2"
    proof (cases "i = k")
      case True
      then show ?thesis using a [of n] i rest [OF k(3)] by (simp add: quantum_def)
    next
      case False
      then have "i \<in> set (map snd vs)" using i x by auto
      then show ?thesis using qu [of i n] i ap(3,4) [OF False] by (simp add: quantum_def)
    qed
  qed
qed

text \<open>A turn in which no system call fails, with as many entries as before.\<close>

definition turn_ok :: "equaliser_details \<Rightarrow> nat \<Rightarrow> nat set \<Rightarrow> turn_in \<Rightarrow> bool" where
  "turn_ok e n is t \<longleftrightarrow> t_fopen t \<and> length (t_HE t) = n \<and> (\<forall>i \<in> is. visit_ok e (t_visit t i))"

definition driven :: "nat \<Rightarrow> turn_in \<Rightarrow> bool" where
  "driven i t \<longleftrightarrow> controlled (t_sems t) i (t_HE t ! i) \<and> v_killpg (t_visit t i) = 0"

lemma controlled_halt: "controlled ss i (h\<lparr>he_equaliser_halt := x\<rparr>) = controlled ss i h"
  by (simp add: controlled_def)

lemma rotate_log_ok:
  assumes "q_log q = Some l" "t_fopen t"
  shows "\<exists>q'. rotate_log e t q = Some q' \<and> q_conf q' = q_conf q \<and> q_HE q' = q_HE q \<and> q_log q' \<noteq> None"
  using assms by (cases "eq_log_duration e mod 2 ^ 32 \<le> t_clock t - q_tm_log_save q") (simp_all add: rotate_log_def)

lemma eq_turn_ok:
  assumes sane: "sane e (set (map snd (visits ps))) q" and d: "distinct (map snd (visits ps))"
    and t: "turn_ok e (length (q_HE q)) (set (map snd (visits ps))) t"
  shows "\<exists>q'. eq_turn e ps t q = Some q' \<and> sane e (set (map snd (visits ps))) q' \<and>
              length (q_HE q') = length (q_HE q) \<and>
              (\<forall>i n. i \<in> set (map snd (visits ps)) \<and> driven i t \<and> in_phase n (q_conf q ! i) \<longrightarrow> quantum i n q q')"
proof -
  let ?is = "set (map snd (visits ps))"
  define q1 where "q1 = others_write (t_HE t) q"
  have len: "length (t_HE t) = length (q_HE q)" "t_fopen t" using t by (auto simp: turn_ok_def)
  have h: "q_HE q1 ! i = (t_HE t ! i)\<lparr>he_equaliser_halt := he_equaliser_halt (q_HE q ! i)\<rparr>" if "i < length (q_HE q)" for i
    using that len by (simp add: q1_def others_write_def)
  have s1: "sane e ?is q1" using sane len h by (auto simp: sane_def q1_def others_write_def)
  obtain l where l: "q_log q1 = Some l" using s1 by (auto simp: sane_def)
  obtain q2 where q2: "rotate_log e t q1 = Some q2" "q_conf q2 = q_conf q1" "q_HE q2 = q_HE q1" "q_log q2 \<noteq> None"
    using rotate_log_ok [OF l len(2), of e] by blast
  have s2: "sane e ?is q2" using s1 q2 by (auto simp: sane_def)
  have v: "\<forall>i \<in> ?is. visit_ok e (t_visit t i)" using t by (simp add: turn_ok_def)
  obtain q3 where q3: "equalise_all e t (visits ps) q2 = Some q3" "sane e ?is q3" "length (q_HE q3) = length (q_HE q2)"
    and qu: "\<And>i n. i \<in> ?is \<Longrightarrow> controlled (t_sems t) i (q_HE q2 ! i) \<Longrightarrow> v_killpg (t_visit t i) = 0 \<Longrightarrow>
                 in_phase n (q_conf q2 ! i) \<Longrightarrow> quantum i n q2 q3"
    using equalise_all_ok [OF s2 subset_refl d v] by auto
  show ?thesis
  proof (intro exI conjI allI impI)
    show "eq_turn e ps t q = Some q3" using q2(1) q3(1) by (simp add: eq_turn_def flip: q1_def)
    show "sane e ?is q3" by (rule q3(2))
    show "length (q_HE q3) = length (q_HE q)" using q3(3) q2(3) len by (simp add: q1_def others_write_def)
    fix i n
    assume i: "i \<in> ?is \<and> driven i t \<and> in_phase n (q_conf q ! i)"
    have il: "i < length (q_HE q)" using sane i by (auto simp: sane_def)
    have c: "q_conf q2 = q_conf q" using q2(2) by (simp add: q1_def others_write_def)
    have "controlled (t_sems t) i (q_HE q2 ! i)"
      using i h [OF il] q2(3) by (simp add: driven_def controlled_halt)
    then have "quantum i n q2 q3" using qu [of i n] i c by (simp add: driven_def)
    then show "quantum i n q q3" using c by (simp add: quantum_def)
  qed
qed

lemma eq_loop_ok:
  assumes "sane e (set (map snd (visits ps))) q" "distinct (map snd (visits ps))"
    and "\<forall>t \<in> set ts. turn_ok e (length (q_HE q)) (set (map snd (visits ps))) t \<and> driven i t"
    and "i \<in> set (map snd (visits ps))" "in_phase n (q_conf q ! i)"
  shows "\<exists>qs. eq_loop e ps ts q = Some qs \<and> length qs = length ts \<and>
              (\<forall>s < length ts. in_phase (n + s) (q_conf ((q # qs) ! s) ! i) \<and> quantum i (n + s) ((q # qs) ! s) (qs ! s))"
  using assms
proof (induction ts arbitrary: q n)
  case Nil
  then show ?case by simp
next
  case (Cons t ts)
  have t: "turn_ok e (length (q_HE q)) (set (map snd (visits ps))) t" "driven i t" using Cons.prems(3) by auto
  obtain q1 where q1: "eq_turn e ps t q = Some q1" "sane e (set (map snd (visits ps))) q1"
    "length (q_HE q1) = length (q_HE q)" "quantum i n q q1"
    using eq_turn_ok [OF Cons.prems(1,2) t(1)] Cons.prems(4,5) t(2) by blast
  have "in_phase (Suc n) (q_conf q1 ! i)" using q1(4) by (simp add: quantum_def Let_def)
  then obtain qs where qs: "eq_loop e ps ts q1 = Some qs" "length qs = length ts"
    "\<And>s. s < length ts \<Longrightarrow> in_phase (Suc n + s) (q_conf ((q1 # qs) ! s) ! i) \<and>
        quantum i (Suc n + s) ((q1 # qs) ! s) (qs ! s)"
    using Cons.IH [OF q1(2) Cons.prems(2) _ Cons.prems(4), of "Suc n"] Cons.prems(3) q1(3) by auto
  show ?case
  proof (intro exI conjI allI impI)
    show "eq_loop e ps (t # ts) q = Some (q1 # qs)" using q1(1) qs(1) by simp
    show "length (q1 # qs) = length (t # ts)" using qs(2) by simp
    fix s assume s: "s < length (t # ts)"
    show "in_phase (n + s) (q_conf ((q # q1 # qs) ! s) ! i)"
      using qs(3) [of "s - 1"] s Cons.prems(5) by (cases s) auto
    show "quantum i (n + s) ((q # q1 # qs) ! s) ((q1 # qs) ! s)"
      using qs(3) [of "s - 1"] s q1(4) by (cases s) auto
  qed
qed

subsection \<open>Periods\<close>

text \<open>The quanta of period \<open>k\<close> that end with the exerciser \<open>i\<close> running.\<close>

definition active :: "nat \<Rightarrow> nat \<Rightarrow> equaliser list \<Rightarrow> nat \<Rightarrow> nat list" where
  "active i n qs k = filter (\<lambda>j. he_equaliser_halt (q_HE (qs ! (k * n + j)) ! i) = 0) [0..<n]"

lemma length_active:
  assumes "\<And>b. bit p b \<Longrightarrow> b < n"
  shows "length (filter (\<lambda>j. bit p (n - 1 - j)) [0..<n]) = ones p"
proof -
  have "length (filter (\<lambda>j. bit p (n - 1 - j)) [0..<n]) = card {j. j < n \<and> bit p (n - 1 - j)}"
    by (simp flip: distinct_card)
  moreover have "bij_betw (\<lambda>j. n - 1 - j) {j. j < n \<and> bit p (n - 1 - j)} {b. bit p b}"
  proof (rule bij_betw_byWitness [where f' = "\<lambda>j. n - 1 - j"])
    show "\<forall>b \<in> {b. bit p b}. n - 1 - (n - 1 - b) = b"
    proof
      fix b assume "b \<in> {b. bit p b}"
      then show "n - 1 - (n - 1 - b) = b" using assms [of b] by simp
    qed
    show "(\<lambda>j. n - 1 - j) ` {b. bit p b} \<subseteq> {j. j < n \<and> bit p (n - 1 - j)}"
    proof (rule image_subsetI)
      fix b assume b: "b \<in> {b. bit p b}"
      then have "b < n" using assms by simp
      then show "n - 1 - b \<in> {j. j < n \<and> bit p (n - 1 - j)}" using b by simp
    qed
  qed auto
  ultimately show ?thesis by (simp add: bij_betw_same_card ones_def)
qed

lemma filter_upt_less: "t \<le> n \<Longrightarrow> filter (\<lambda>j. j < t) [0..<n] = [0..<t]"
  by (induction n) (auto simp: le_Suc_eq)

lemma filter_upt_ge: "t \<le> n \<Longrightarrow> filter (\<lambda>j. n - t \<le> j) [0..<n] = [n - t..<n]"
proof -
  assume t: "t \<le> n"
  then have "[0..<n] = [0..<n - t] @ [n - t..<n]" by (metis diff_le_self le0 le_Suc_ex upt_add_eq_append)
  then show ?thesis by (simp add: filter_empty_conv)
qed

lemma active_pattern:
  assumes "pattern_for u n t p" "t \<le> n"
  shows "length (filter (\<lambda>j. bit p (n - 1 - j)) [0..<n]) = t"
    and "u = UTIL_LEFT \<Longrightarrow> filter (\<lambda>j. bit p (n - 1 - j)) [0..<n] = [0..<t]"
    and "u = UTIL_RIGHT \<Longrightarrow> filter (\<lambda>j. bit p (n - 1 - j)) [0..<n] = [n - t..<n]"
proof -
  show "length (filter (\<lambda>j. bit p (n - 1 - j)) [0..<n]) = t"
    using length_active [of p n] assms(1) by (auto simp: pattern_for_def)
  show "filter (\<lambda>j. bit p (n - 1 - j)) [0..<n] = [0..<t]" if "u = UTIL_LEFT"
  proof -
    have "filter (\<lambda>j. bit p (n - 1 - j)) [0..<n] = filter (\<lambda>j. j < t) [0..<n]"
      using assms that by (intro filter_cong) (auto simp: pattern_for_def)
    then show ?thesis using filter_upt_less [OF assms(2)] by simp
  qed
  show "filter (\<lambda>j. bit p (n - 1 - j)) [0..<n] = [n - t..<n]" if "u = UTIL_RIGHT"
  proof -
    have "filter (\<lambda>j. bit p (n - 1 - j)) [0..<n] = filter (\<lambda>j. n - t \<le> j) [0..<n]"
      using assms that by (intro filter_cong) (auto simp: pattern_for_def)
    then show ?thesis using filter_upt_ge [OF assms(2)] by simp
  qed
qed

text \<open>The states of a loop that drives the exerciser \<open>i\<close> from its first quantum.\<close>

definition driven_states :: "nat \<Rightarrow> equaliser list \<Rightarrow> bool" where
  "driven_states i qs \<longleftrightarrow>
     (\<forall>s. Suc s < length qs \<longrightarrow> in_phase s (q_conf (qs ! s) ! i) \<and> quantum i s (qs ! s) (qs ! Suc s))"

lemma driven_plan:
  assumes "driven_states i qs" "s < length qs"
  shows "c_util_pattern (q_conf (qs ! s) ! i) = c_util_pattern (q_conf (qs ! 0) ! i) \<and>
         c_pattern_length (q_conf (qs ! s) ! i) = c_pattern_length (q_conf (qs ! 0) ! i) \<and>
         c_sequence_length (q_conf (qs ! s) ! i) = c_sequence_length (q_conf (qs ! 0) ! i) \<and>
         c_utilization_sequence (q_conf (qs ! s) ! i) = c_utilization_sequence (q_conf (qs ! 0) ! i) \<and>
         (c_util_pattern (q_conf (qs ! 0) ! i) = UTIL_PATTERN \<longrightarrow>
          c_utilization_pattern (q_conf (qs ! s) ! i) = c_utilization_pattern (q_conf (qs ! 0) ! i))"
  using assms(2)
proof (induction s)
  case 0
  then show ?case by simp
next
  case (Suc s)
  then have "same_plan (q_conf (qs ! s) ! i) (q_conf (qs ! Suc s) ! i)"
    using assms(1) by (simp add: driven_states_def quantum_def Let_def)
  then show ?case using Suc by (auto simp: same_plan_def)
qed

lemma period_pattern:
  assumes d: "driven_states i qs" and n: "n = c_pattern_length (q_conf (qs ! 0) ! i)"
    and j: "j < n" "Suc (k * n + j) < length qs"
  shows "c_utilization_pattern (q_conf (qs ! (k * n + j)) ! i) = c_utilization_pattern (q_conf (qs ! (k * n)) ! i)"
  using j
proof (induction j)
  case 0
  then show ?case by simp
next
  case (Suc j)
  let ?s = "k * n + j"
  have "same_plan (q_conf (qs ! ?s) ! i) (q_conf (qs ! Suc ?s) ! i)" "in_phase (Suc ?s) (q_conf (qs ! Suc ?s) ! i)"
    using d Suc.prems by (auto simp: driven_states_def quantum_def Let_def)
  moreover have "Suc ?s mod n = Suc j" using Suc.prems(1) by (metis add_Suc_right mod_less mod_mult_self3)
  ultimately show ?case using Suc driven_plan [OF d, of "Suc ?s"] n by (simp add: same_plan_def in_phase_def)
qed

lemma period_active:
  assumes d: "driven_states i qs" and n: "n = c_pattern_length (q_conf (qs ! 0) ! i)"
    and k: "Suc k * n < length qs"
  shows "active i n (tl qs) k =
    filter (\<lambda>j. bit (c_utilization_pattern (q_conf (qs ! (k * n)) ! i)) (n - 1 - j)) [0..<n]"
  unfolding active_def
proof (rule filter_cong [OF refl])
  fix j assume "j \<in> set [0..<n]"
  then have j: "j < n" by simp
  let ?s = "k * n + j"
  have s: "Suc ?s < length qs" using k j by simp
  have "quantum i ?s (qs ! ?s) (qs ! Suc ?s)" using d s by (simp add: driven_states_def)
  moreover have "c_pattern_length (q_conf (qs ! ?s) ! i) = n" using driven_plan [OF d, of ?s] s n by simp
  moreover have "?s mod n = j" using j by simp
  ultimately show "(he_equaliser_halt (q_HE (tl qs ! ?s) ! i) = 0) =
      bit (c_utilization_pattern (q_conf (qs ! (k * n)) ! i)) (n - 1 - j)"
    using period_pattern [OF d n j s] s by (simp add: quantum_def Let_def nth_tl)
qed

lemma period_duty:
  assumes d: "driven_states i qs" and n: "n = c_pattern_length (q_conf (qs ! 0) ! i)"
    and k: "Suc k * n < length qs"
    and u: "c_util_pattern (q_conf (qs ! 0) ! i) = u" "u \<noteq> UTIL_PATTERN"
    and ok: "config_ok debug (q_conf (qs ! 0) ! i)"
  defines "t \<equiv> c_utilization_sequence (q_conf (qs ! 0) ! i) ! (k mod c_sequence_length (q_conf (qs ! 0) ! i)) * n div 100"
  shows "length (active i n (tl qs) k) = t \<and> (u = UTIL_LEFT \<longrightarrow> active i n (tl qs) k = [0..<t]) \<and>
         (u = UTIL_RIGHT \<longrightarrow> active i n (tl qs) k = [n - t..<n])"
proof -
  let ?c = "q_conf (qs ! (k * n)) ! i" and ?b = "q_conf (qs ! 0) ! i"
  have n0: "0 < n" and m: "0 < c_sequence_length ?b" using ok u n by (auto simp: config_ok_def)
  have s: "Suc (k * n) < length qs" using k n0 by simp
  have pl: "c_util_pattern ?c = u" "c_pattern_length ?c = n" "c_sequence_length ?c = c_sequence_length ?b"
    "c_utilization_sequence ?c = c_utilization_sequence ?b"
    using driven_plan [OF d, of "k * n"] s n u by auto
  have "in_phase (k * n) ?c" using d s by (simp add: driven_states_def)
  then have p: "pattern_for u n t (c_utilization_pattern ?c)"
    using pl u n0 by (auto simp: in_phase_def target_active_in_decs_def t_def)
  have "c_utilization_sequence ?b ! (k mod c_sequence_length ?b) \<le> 100"
    using ok u m by (auto simp: config_ok_def)
  then have "c_utilization_sequence ?b ! (k mod c_sequence_length ?b) * n div 100 \<le> 100 * n div 100"
    by (intro div_le_mono mult_le_mono1)
  then have "t \<le> n" by (simp add: t_def)
  note a = active_pattern [OF p this]
  show ?thesis unfolding period_active [OF d n k] using a by simp
qed

lemma pattern_turn:
  assumes d: "driven_states i qs" and n: "n = c_pattern_length (q_conf (qs ! 0) ! i)"
    and u: "c_util_pattern (q_conf (qs ! 0) ! i) = UTIL_PATTERN" and s: "Suc s < length qs"
  shows "he_equaliser_halt (q_HE (qs ! Suc s) ! i) =
    (if bit (c_utilization_pattern (q_conf (qs ! 0) ! i)) (n - 1 - s mod n) then 0 else 1)"
proof -
  have "quantum i s (qs ! s) (qs ! Suc s)" using d s by (simp add: driven_states_def)
  then show ?thesis using driven_plan [OF d, of s] s u n by (simp add: quantum_def Let_def)
qed

subsection \<open>The text of a device\<close>

text \<open>The name and the percentages of a text.\<close>

definition util_parts :: "cstring \<Rightarrow> cstring \<times> nat list" where
  "util_parts text =
     (case strtok (CHR ''%'') text of
        None \<Rightarrow> ([], [])
      | Some (w, rest) \<Rightarrow> (w, map (\<lambda>n. ushort (atoi n)) (strtok_all (CHR ''_'') rest)))"

text \<open>The texts of the documentation: a name and up to ten percentages, or a pattern of at most 32 bits.\<close>

definition text_ok :: "equaliser_details \<Rightarrow> cstring \<Rightarrow> bool" where
  "text_ok e text \<longleftrightarrow>
     length text < 64 \<and>
     (if CHR ''%'' \<in> set text then
        fst (util_parts text) \<in> {''UTIL_LEFT'', ''UTIL_RIGHT'', ''UTIL_RANDOM''} \<and>
        snd (util_parts text) \<noteq> [] \<and> length (snd (util_parts text)) \<le> MAX_UTIL_SEQUENCE_LENGTH \<and>
        0 < ushort (eq_pattern_length e) \<and> ushort (eq_pattern_length e) \<le> 32 \<and>
        (\<forall>n \<in> set (snd (util_parts text)). n \<le> 100 \<and>
           (eq_debug_flag e = 1 \<and> fst (util_parts text) \<noteq> ''UTIL_RANDOM'' \<longrightarrow> 100 \<le> n * ushort (eq_pattern_length e)))
      else text \<noteq> [] \<and> length text \<le> 32 \<and> set text \<subseteq> {CHR ''0'', CHR ''1''})"

definition planned :: "equaliser_details \<Rightarrow> cstring \<Rightarrow> run_time_config \<Rightarrow> bool" where
  "planned e text c \<longleftrightarrow>
     (if CHR ''%'' \<in> set text then
        c_util_pattern c = util_kind (fst (util_parts text)) UTIL_PATTERN \<and>
        c_pattern_length c = ushort (eq_pattern_length e) \<and>
        c_sequence_length c = length (snd (util_parts text)) \<and>
        (\<forall>s < length (snd (util_parts text)). c_utilization_sequence c ! s = snd (util_parts text) ! s)
      else c_util_pattern c = UTIL_PATTERN \<and> c_pattern_length c = length text \<and>
           c_utilization_pattern c = word_of_int (strtoul2 text))"

lemma strcmp_same: "strcmp s s = 0"
  by (induction s) auto

lemma util_kind_values:
  "util_kind ''UTIL_LEFT'' u = UTIL_LEFT" "util_kind ''UTIL_RIGHT'' u = UTIL_RIGHT"
  "util_kind ''UTIL_RANDOM'' u = UTIL_RANDOM"
  by (simp_all add: util_kind_def code_def)

lemma strchr_None_iff: "strchr s c = None \<longleftrightarrow> c \<notin> set s"
  by (auto simp: strchr_def Let_def dropWhile_eq_Nil_conv)

lemma update_config_detail_ok:
  assumes "text_ok e text"
  shows "\<exists>c'. update_config_detail (eq_pattern_length e) text c = Some c' \<and> planned e text c'"
proof (cases "CHR ''%'' \<in> set text")
  case False
  then show ?thesis using assms by (simp add: update_config_detail_def text_ok_def planned_def strchr_None_iff)
next
  case True
  then obtain w rest where w: "strtok (CHR ''%'') text = Some (w, rest)"
    using assms by (auto simp: text_ok_def util_parts_def split: option.splits)
  define ns where "ns = map (\<lambda>n. ushort (atoi n)) (strtok_all (CHR ''_'') rest)"
  have parts: "util_parts text = (w, ns)" by (simp add: util_parts_def w ns_def)
  have "length ns \<le> 10" "length text < 64" and k: "util_kind w (c_util_pattern c) = util_kind w UTIL_PATTERN"
    using assms True parts by (auto simp: text_ok_def util_kind_values)
  then have "update_config_detail (eq_pattern_length e) text c =
    Some (c\<lparr>c_util_pattern := util_kind w UTIL_PATTERN, c_utilization_sequence := overwrite ns (c_utilization_sequence c),
            c_sequence_length := length ns, c_pattern_length := ushort (eq_pattern_length e)\<rparr>)"
    using True w by (simp add: update_config_detail_def strchr_None_iff ns_def)
  then show ?thesis using True parts by (simp add: planned_def overwrite_def nth_append)
qed

lemma planned_config_ok:
  assumes "text_ok e text" "planned e text c"
  shows "config_ok (eq_debug_flag e) c"
proof (cases "CHR ''%'' \<in> set text")
  case False
  then show ?thesis using assms by (simp add: text_ok_def planned_def config_ok_def)
next
  case True
  obtain w ns where parts: "util_parts text = (w, ns)" by (cases "util_parts text")
  have c: "c_util_pattern c = util_kind w UTIL_PATTERN" "c_pattern_length c = ushort (eq_pattern_length e)"
    "c_sequence_length c = length ns" "\<And>s. s < length ns \<Longrightarrow> c_utilization_sequence c ! s = ns ! s"
    using assms(2) True parts by (auto simp: planned_def)
  have w: "w \<in> {''UTIL_LEFT'', ''UTIL_RIGHT'', ''UTIL_RANDOM''}" "ns \<noteq> []"
    "0 < ushort (eq_pattern_length e)" "ushort (eq_pattern_length e) \<le> 32"
    and n: "\<And>n. n \<in> set ns \<Longrightarrow> n \<le> 100 \<and>
       (eq_debug_flag e = 1 \<and> w \<noteq> ''UTIL_RANDOM'' \<longrightarrow> 100 \<le> n * ushort (eq_pattern_length e))"
    using assms(1) True parts by (auto simp: text_ok_def)
  have u: "util_kind w UTIL_PATTERN \<le> UTIL_RANDOM"
    "util_kind w UTIL_PATTERN \<noteq> UTIL_RANDOM \<Longrightarrow> w \<noteq> ''UTIL_RANDOM''"
    using w(1) by (auto simp: util_kind_values)
  show ?thesis unfolding config_ok_def c
  proof (intro conjI disjI2 allI impI)
    fix s assume s: "s < length ns"
    note n [OF nth_mem [OF s]]
    then show "c_utilization_sequence c ! s \<le> 100" using c(4) [OF s] by simp
    assume "eq_debug_flag e = 1 \<and> util_kind w UTIL_PATTERN \<noteq> UTIL_RANDOM"
    then show "100 \<le> c_utilization_sequence c ! s * ushort (eq_pattern_length e)"
      using n [OF nth_mem [OF s]] u(2) c(4) [OF s] by simp
  qed (use w u in auto)
qed

text \<open>A pattern read from its digits.\<close>

lemma bit_binary:
  assumes "set ds \<subseteq> {CHR ''0'', CHR ''1''}" "j < length ds"
  shows "bit (foldl (\<lambda>a c. 2 * a + int (digit_val c)) 0 ds) (length ds - 1 - j) \<longleftrightarrow> ds ! j = CHR ''1''"
  using assms
proof (induction ds arbitrary: j rule: rev_induct)
  case Nil
  then show ?case by simp
next
  case (snoc x xs)
  let ?v = "foldl (\<lambda>a c. 2 * a + int (digit_val c)) 0 xs"
  have x: "int (digit_val x) = of_bool (x = CHR ''1'')"
    using snoc.prems(1) by (auto simp: digit_val_def code_def)
  show ?case
  proof (cases "j < length xs")
    case True
    then have "length xs - j = Suc (length xs - 1 - j)" by simp
    then show ?thesis using snoc True x by (simp add: nth_append bit_Suc)
  next
    case False
    then have "j = length xs" using snoc.prems(2) by simp
    then show ?thesis using x by (simp add: bit_0)
  qed
qed

lemma bit_strtoul2:
  assumes "set text \<subseteq> {CHR ''0'', CHR ''1''}" "length text \<le> 32" "j < length text"
  shows "bit (word_of_int (strtoul2 text) :: 32 word) (length text - 1 - j) \<longleftrightarrow> text ! j = CHR ''1''"
proof -
  obtain c r where t: "text = c # r" and c: "c = CHR ''0'' \<or> c = CHR ''1''"
    using assms by (cases "text") auto
  have sp: "dropWhile isspace text = text" "strtol_sign text = (False, text)"
    using t c by (auto simp: isspace_def code_def strtol_sign_def peek_def)
  have tw: "takeWhile (\<lambda>c. c = CHR ''0'' \<or> c = CHR ''1'') text = text"
    using assms(1) by (auto simp: takeWhile_eq_all_conv)
  define v where "v = foldl (\<lambda>a c. 2 * a + int (digit_val c)) 0 text"
  have "strtoul2 text = v mod 2 ^ 64" by (simp add: strtoul2_def sp tw v_def)
  then have s: "strtoul2 text = take_bit 64 v" by (simp only: take_bit_eq_mod)
  have b: "length text - 1 - j < 32" using assms(2,3) by simp
  then show ?thesis using bit_binary [OF assms(1,3)]
    by (simp add: s bit_word_of_int_iff bit_take_bit_iff flip: v_def)
qed

subsection \<open>The start\<close>

definition bind_of :: "htxshm_HE \<Rightarrow> int fault" where
  "bind_of h = bind_cpu_num (he_sdev_id h) 0"

text \<open>The positions of the entries, counted from \<open>k\<close>, that belong to the processor \<open>b\<close>.\<close>

definition tests_for :: "nat \<Rightarrow> htxshm_HE list \<Rightarrow> int \<Rightarrow> nat list" where
  "tests_for k hs b = map fst (filter (\<lambda>(j, h). bind_of h = Some b) (enumerate k hs))"

lemma tests_for_simps [simp]:
  "tests_for k [] b = []"
  "tests_for k (h # hs) b = (if bind_of h = Some b then k # tests_for (Suc k) hs b else tests_for (Suc k) hs b)"
  by (auto simp: tests_for_def)

lemma set_tests_for: "set (tests_for k hs b) = {j. k \<le> j \<and> j < k + length hs \<and> bind_of (hs ! (j - k)) = Some b}"
proof (induction hs arbitrary: k)
  case Nil
  then show ?case by simp
next
  case (Cons h hs)
  have "{j. k \<le> j \<and> j < k + length (h # hs) \<and> bind_of ((h # hs) ! (j - k)) = Some b} =
    (if bind_of h = Some b then {k} else {}) \<union>
    {j. Suc k \<le> j \<and> j < Suc k + length hs \<and> bind_of (hs ! (j - Suc k)) = Some b}"
    (is "?l = ?r")
  proof (rule set_eqI)
    fix j show "j \<in> ?l \<longleftrightarrow> j \<in> ?r"
      by (cases "j = k") (auto simp: nth_Cons' le_eq_less_or_eq)
  qed
  then show ?case using Cons by auto
qed

lemma distinct_tests_for: "distinct (tests_for k hs b)"
  by (induction hs arbitrary: k) (auto simp: set_tests_for)

definition add_tests :: "(int \<Rightarrow> nat list) \<Rightarrow> CPU \<Rightarrow> CPU" where
  "add_tests f p = p\<lparr>cpu_tests := cpu_tests p @ f (cpu_lcpu p)\<rparr>"

lemma add_tests_sel [simp]: "cpu_lcpu (add_tests f p) = cpu_lcpu p" "cpu_tests (add_tests f p) = cpu_tests p @ f (cpu_lcpu p)"
  by (simp_all add: add_tests_def)

lemma add_tests_none [simp]: "f (cpu_lcpu p) = [] \<Longrightarrow> add_tests f p = p"
  by (simp add: add_tests_def)

lemma place_test_none:
  "b \<notin> set (map cpu_lcpu ps) \<Longrightarrow> place_test n k b u ps cs = Some (ps, cs)"
  by (induction ps) auto

lemma place_test_ok:
  assumes "distinct (map cpu_lcpu ps)" "\<forall>p \<in> set ps. cpu_lcpu p = b \<longrightarrow> length (cpu_tests p) < MAX_TESTS_PER_CPU"
    and "k < length cs" "update_config_detail n u (cs ! k) = Some c"
  shows "place_test n k b u ps cs =
    Some (map (add_tests (\<lambda>l. if l = b then [k] else [])) ps, if b \<in> set (map cpu_lcpu ps) then cs[k := c] else cs)"
  using assms(1,2)
proof (induction ps)
  case Nil
  then show ?case by simp
next
  case (Cons p ps)
  show ?case
  proof (cases "cpu_lcpu p = b")
    case True
    then have no: "b \<notin> set (map cpu_lcpu ps)" using Cons.prems(1) by auto
    then have "map (add_tests (\<lambda>l. if l = b then [k] else [])) ps = ps"
      by (intro map_idI add_tests_none) auto
    moreover have "add_tests (\<lambda>l. if l = b then [k] else []) p = p\<lparr>cpu_tests := cpu_tests p @ [k]\<rparr>"
      using True by (simp add: add_tests_def)
    ultimately show ?thesis using True Cons.prems(2) assms(3,4) place_test_none [OF no] by simp
  next
    case False
    then show ?thesis using Cons by simp
  qed
qed

lemma update_exer_info_ok:
  assumes "\<forall>h \<in> set hs. bind_of h \<noteq> None \<and> text_ok e (he_cpu_utilization h)"
    and "distinct (map cpu_lcpu ps)" "k + length hs \<le> length cs"
    and "\<forall>p \<in> set ps. length (cpu_tests p) + length (tests_for k hs (cpu_lcpu p)) \<le> MAX_TESTS_PER_CPU"
  shows "\<exists>cs'. update_exer_info (eq_pattern_length e) k hs ps cs = Some (map (add_tests (tests_for k hs)) ps, cs') \<and>
           length cs' = length cs \<and> (\<forall>j < k. cs' ! j = cs ! j) \<and>
           (\<forall>j < length hs. the (bind_of (hs ! j)) \<in> set (map cpu_lcpu ps) \<longrightarrow>
              planned e (he_cpu_utilization (hs ! j)) (cs' ! (k + j)))"
  using assms
proof (induction hs arbitrary: k ps cs)
  case Nil
  then show ?case by simp
next
  case (Cons h hs)
  obtain b where b: "bind_of h = Some b" using Cons.prems(1) by auto
  have h: "text_ok e (he_cpu_utilization h)" and k: "k < length cs" using Cons.prems(1,3) by auto
  obtain c where c: "update_config_detail (eq_pattern_length e) (he_cpu_utilization h) (cs ! k) = Some c"
    "planned e (he_cpu_utilization h) c"
    using update_config_detail_ok [OF h] by blast
  define ps1 where "ps1 = map (add_tests (\<lambda>l. if l = b then [k] else [])) ps"
  define cs1 where "cs1 = (if b \<in> set (map cpu_lcpu ps) then cs[k := c] else cs)"
  have room: "\<forall>p \<in> set ps. cpu_lcpu p = b \<longrightarrow> length (cpu_tests p) < MAX_TESTS_PER_CPU"
    using Cons.prems(4) b by auto
  have pl: "place_test (eq_pattern_length e) k b (he_cpu_utilization h) ps cs = Some (ps1, cs1)"
    using place_test_ok [OF Cons.prems(2) room k c(1)] by (simp only: ps1_def cs1_def)
  have l1: "map cpu_lcpu ps1 = map cpu_lcpu ps" by (simp add: ps1_def)
  have "length (cpu_tests p) + length (tests_for (Suc k) hs (cpu_lcpu p)) \<le> MAX_TESTS_PER_CPU" if p: "p \<in> set ps1" for p
  proof -
    obtain p0 where p0: "p0 \<in> set ps" "p = add_tests (\<lambda>l. if l = b then [k] else []) p0"
      using p by (auto simp: ps1_def)
    then show ?thesis using bspec [OF Cons.prems(4) p0(1)] b by (auto split: if_splits)
  qed
  then have r1: "\<forall>p \<in> set ps1. length (cpu_tests p) + length (tests_for (Suc k) hs (cpu_lcpu p)) \<le> MAX_TESTS_PER_CPU"
    by blast
  have hs: "\<forall>h \<in> set hs. bind_of h \<noteq> None \<and> text_ok e (he_cpu_utilization h)" using Cons.prems(1) by simp
  have d1: "distinct (map cpu_lcpu ps1)" using Cons.prems(2) l1 by simp
  have k1: "Suc k + length hs \<le> length cs1" using Cons.prems(3) by (simp add: cs1_def)
  obtain cs' where cs': "update_exer_info (eq_pattern_length e) (Suc k) hs ps1 cs1 =
      Some (map (add_tests (tests_for (Suc k) hs)) ps1, cs')"
    "length cs' = length cs1" "\<And>j. j < Suc k \<Longrightarrow> cs' ! j = cs1 ! j"
    "\<And>j. j < length hs \<Longrightarrow> the (bind_of (hs ! j)) \<in> set (map cpu_lcpu ps1) \<Longrightarrow>
       planned e (he_cpu_utilization (hs ! j)) (cs' ! (Suc k + j))"
    using Cons.IH [OF hs d1 k1 r1] by blast
  have t: "map (add_tests (tests_for (Suc k) hs)) ps1 = map (add_tests (tests_for k (h # hs))) ps"
    using b by (simp add: ps1_def add_tests_def)
  show ?case
  proof (intro exI conjI allI impI)
    show "update_exer_info (eq_pattern_length e) k (h # hs) ps cs = Some (map (add_tests (tests_for k (h # hs))) ps, cs')"
      using b pl cs'(1) t by (simp add: bind_of_def)
    show "length cs' = length cs" using cs'(2) by (simp add: cs1_def)
    show "cs' ! j = cs ! j" if "j < k" for j using that cs'(3) [of j] by (simp add: cs1_def)
    fix j assume j: "j < length (h # hs)" "the (bind_of ((h # hs) ! j)) \<in> set (map cpu_lcpu ps)"
    show "planned e (he_cpu_utilization ((h # hs) ! j)) (cs' ! (k + j))"
    proof (cases j)
      case 0
      then show ?thesis using j b c(2) k cs'(3) [of k] by (simp add: cs1_def)
    next
      case (Suc m)
      then show ?thesis using j cs'(4) [of m] l1 by simp
    qed
  qed
qed

lemma distinct_concat_map:
  assumes "distinct bs" "\<And>b. distinct (f b)" "\<And>a b. a \<noteq> b \<Longrightarrow> set (f a) \<inter> set (f b) = {}"
  shows "distinct (concat (map f bs))"
  using assms(1)
proof (induction bs)
  case Nil
  then show ?case by simp
next
  case (Cons b bs)
  have "set (f b) \<inter> set (f c) = {}" if "c \<in> set bs" for c using that Cons.prems assms(3) [of b c] by auto
  then show ?case using Cons assms(2) by auto
qed

lemma visits_indices: "map snd (visits ps) = concat (map cpu_tests ps)"
  by (simp add: visits_def map_concat comp_def)

lemma init_configs_ok:
  assumes "\<forall>i \<in> set (map snd vs). i < length cs \<and> config_ok debug (cs ! i)" "distinct (map snd vs)"
  shows "\<exists>cs'. init_configs debug rs vs cs = Some cs' \<and> length cs' = length cs \<and>
           (\<forall>j. j \<notin> set (map snd vs) \<longrightarrow> cs' ! j = cs ! j) \<and>
           (\<forall>i \<in> set (map snd vs). \<exists>r. init_config debug r (cs ! i) = Some (cs' ! i))"
  using assms
proof (induction vs arbitrary: cs)
  case Nil
  then show ?case by simp
next
  case (Cons x vs)
  obtain p k where x: "x = (p, k)" by (cases x)
  have k: "k < length cs" "config_ok debug (cs ! k)" "k \<notin> set (map snd vs)" using Cons.prems x by auto
  obtain c where c: "init_config debug (rs k) (cs ! k) = Some c" using init_config_phase [OF k(2)] by blast
  have ok: "\<forall>i \<in> set (map snd vs). i < length (cs[k := c]) \<and> config_ok debug (cs[k := c] ! i)"
  proof
    fix i assume i: "i \<in> set (map snd vs)"
    then have "i \<noteq> k" "i \<in> set (map snd (x # vs))" using k(3) by auto
    then show "i < length (cs[k := c]) \<and> config_ok debug (cs[k := c] ! i)" using Cons.prems(1) by auto
  qed
  have d: "distinct (map snd vs)" using Cons.prems(2) by simp
  obtain cs' where cs': "init_configs debug rs vs (cs[k := c]) = Some cs'" "length cs' = length (cs[k := c])"
    "\<And>j. j \<notin> set (map snd vs) \<Longrightarrow> cs' ! j = cs[k := c] ! j"
    "\<And>i. i \<in> set (map snd vs) \<Longrightarrow> \<exists>r. init_config debug r (cs[k := c] ! i) = Some (cs' ! i)"
    using Cons.IH [OF ok d] by blast
  show ?case
  proof (intro exI [of _ cs'] conjI allI impI ballI)
    show "init_configs debug rs (x # vs) cs = Some cs'" using x k c cs'(1) by simp
    show "length cs' = length cs" using cs'(2) by simp
    show "cs' ! j = cs ! j" if "j \<notin> set (map snd (x # vs))" for j using that cs'(3) [of j] x by simp
    show "\<exists>r. init_config debug r (cs ! i) = Some (cs' ! i)" if "i \<in> set (map snd (x # vs))" for i
    proof (cases "i = k")
      case True
      then show ?thesis using cs'(3) [OF k(3)] k(1) c by auto
    next
      case False
      then show ?thesis using that cs'(4) [of i] x by auto
    qed
  qed
qed

text \<open>A processor layout, memory and devices with which the equaliser starts: no two processors with one number, no
  processor with more than twenty devices, and texts as documented.\<close>

definition setup_ok :: "equaliser_details \<Rightarrow> syscfg \<Rightarrow> run_time_config list \<Rightarrow> htxshm_HE list \<Rightarrow> bool" where
  "setup_ok e s memory hs \<longleftrightarrow>
     (case update_sys_details s of
        None \<Rightarrow> False
      | Some ps \<Rightarrow> distinct (map cpu_lcpu ps) \<and>
                   (\<forall>p \<in> set ps. length (tests_for 0 hs (cpu_lcpu p)) \<le> MAX_TESTS_PER_CPU)) \<and>
     length hs \<le> length memory \<and>
     (\<forall>h \<in> set hs. bind_of h \<noteq> None \<and> text_ok e (he_cpu_utilization h) \<and> he_equaliser_halt h \<le> 1)"

text \<open>The entry \<open>i\<close> has the number of a processor.\<close>

definition placed :: "syscfg \<Rightarrow> htxshm_HE list \<Rightarrow> nat \<Rightarrow> bool" where
  "placed s hs i \<longleftrightarrow>
     i < length hs \<and>
     (case update_sys_details s of None \<Rightarrow> False | Some ps \<Rightarrow> bind_of (hs ! i) \<in> set (map (\<lambda>p. Some (cpu_lcpu p)) ps))"

lemma joined_prop: "joined xs = Some ys \<Longrightarrow> (\<forall>x \<in> set xs. \<forall>zs. x = Some zs \<longrightarrow> (\<forall>z \<in> set zs. Q z)) \<Longrightarrow> \<forall>y \<in> set ys. Q y"
  by (induction xs arbitrary: ys) (auto split: bind_splits)

lemma level_prop: "level m n f = Some ys \<Longrightarrow> (\<And>k zs. f k = Some zs \<Longrightarrow> \<forall>z \<in> set zs. Q z) \<Longrightarrow> \<forall>y \<in> set ys. Q y"
  unfolding level_def by (rule joined_prop [of "map f [0..<nat n]"]) (auto split: if_splits)

lemma update_sys_details_fresh: "update_sys_details s = Some ps \<Longrightarrow> \<forall>p \<in> set ps. cpu_tests p = []"
  unfolding update_sys_details_def
  by (erule level_prop, erule level_prop, erule level_prop, erule level_prop) (auto simp: Let_def)

lemma start_equaliser_ok:
  assumes "setup_ok e s memory hs"
  shows "\<exists>ps q. start_equaliser e s 0 (Some memory) rs clock True hs = Some (ps, q) \<and> q_HE q = hs \<and>
           distinct (map snd (visits ps)) \<and> set (map snd (visits ps)) = {i. placed s hs i} \<and>
           sane e {i. placed s hs i} q \<and>
           (\<forall>i. placed s hs i \<longrightarrow> in_phase 0 (q_conf q ! i) \<and> planned e (he_cpu_utilization (hs ! i)) (q_conf q ! i))"
proof -
  let ?d = "eq_debug_flag e"
  obtain ps0 where ps0: "update_sys_details s = Some ps0" and d0: "distinct (map cpu_lcpu ps0)"
    and room: "\<forall>p \<in> set ps0. length (tests_for 0 hs (cpu_lcpu p)) \<le> MAX_TESTS_PER_CPU"
    and len: "length hs \<le> length memory"
    and hs: "\<forall>h \<in> set hs. bind_of h \<noteq> None \<and> text_ok e (he_cpu_utilization h)"
    and halt: "\<And>h. h \<in> set hs \<Longrightarrow> he_equaliser_halt h \<le> 1"
    using assms by (auto simp: setup_ok_def split: option.splits)
  have fresh: "\<forall>p \<in> set ps0. cpu_tests p = []" by (rule update_sys_details_fresh [OF ps0])
  define ps where "ps = map (add_tests (tests_for 0 hs)) ps0"
  obtain cs where cs: "update_exer_info (eq_pattern_length e) 0 hs ps0 memory = Some (ps, cs)" "length cs = length memory"
    and pl: "\<And>j. j < length hs \<Longrightarrow> the (bind_of (hs ! j)) \<in> set (map cpu_lcpu ps0) \<Longrightarrow>
      planned e (he_cpu_utilization (hs ! j)) (cs ! j)"
    using update_exer_info_ok [OF hs d0, of 0 memory] len room fresh by (auto simp: ps_def)
  have "map cpu_tests ps = map (tests_for 0 hs) (map cpu_lcpu ps0)" using fresh by (simp add: ps_def)
  then have vi: "map snd (visits ps) = concat (map (tests_for 0 hs) (map cpu_lcpu ps0))" by (simp only: visits_indices)
  have dist: "distinct (map snd (visits ps))" unfolding vi
    by (rule distinct_concat_map [OF d0 distinct_tests_for]) (auto simp: set_tests_for)
  have inds: "set (map snd (visits ps)) = {i. placed s hs i}" unfolding vi
    by (auto simp: set_tests_for placed_def ps0)
  have placed: "i < length hs" "planned e (he_cpu_utilization (hs ! i)) (cs ! i)" "config_ok ?d (cs ! i)"
    if i: "placed s hs i" for i
  proof -
    show l: "i < length hs" using i by (simp add: placed_def)
    have "the (bind_of (hs ! i)) \<in> set (map cpu_lcpu ps0)" using i by (auto simp: placed_def ps0)
    then show "planned e (he_cpu_utilization (hs ! i)) (cs ! i)" by (rule pl [OF l])
    then show "config_ok ?d (cs ! i)" using hs nth_mem [OF l] by (intro planned_config_ok) auto
  qed
  have ok: "\<forall>i \<in> set (map snd (visits ps)). i < length cs \<and> config_ok ?d (cs ! i)"
    unfolding inds using placed len cs(2) by force
  obtain cs' where cs': "init_configs ?d rs (visits ps) cs = Some cs'" "length cs' = length cs"
    "\<And>i. placed s hs i \<Longrightarrow> \<exists>r. init_config ?d r (cs ! i) = Some (cs' ! i)"
    using init_configs_ok [OF ok dist, of rs] unfolding inds by blast
  have c': "in_phase 0 (cs' ! i)" "config_ok ?d (cs' ! i)" "planned e (he_cpu_utilization (hs ! i)) (cs' ! i)"
    if i: "placed s hs i" for i
  proof -
    obtain r where r: "init_config ?d r (cs ! i) = Some (cs' ! i)" using cs'(3) [OF i] by blast
    note p = init_config_phase [OF placed(3) [OF i], of r]
    show "in_phase 0 (cs' ! i)" "config_ok ?d (cs' ! i)" using p r by auto
    show "planned e (he_cpu_utilization (hs ! i)) (cs' ! i)"
      using p r placed(2) [OF i] by (auto simp: planned_def)
  qed
  define q where "q = \<lparr>q_conf = cs', q_HE = hs, q_log = Some [], q_saved = [], q_tm_log_save = clock, q_events = []\<rparr>"
  have st: "start_equaliser e s 0 (Some memory) rs clock True hs = Some (ps, q)"
    using ps0 cs(1) cs'(1) by (simp add: start_equaliser_def initialize_run_time_data_def q_def)
  have "sane e {i. placed s hs i} q"
    using placed(1) c'(1,2) halt len cs(2) cs'(2) by (fastforce simp: sane_def q_def)
  then show ?thesis using st dist inds c'(1,3) by (intro exI [of _ ps] exI [of _ q]) (simp add: q_def)
qed

lemma htxd_equaliser_states:
  assumes s: "setup_ok e s memory hs" and i: "placed s hs i"
    and ts: "\<forall>t \<in> set ts. turn_ok e (length hs) {j. placed s hs j} t \<and> driven i t"
  shows "\<exists>q qs. htxd_equaliser e s 0 (Some memory) rs clock True hs ts = Some qs \<and> length qs = length ts \<and>
           driven_states i (q # qs) \<and> config_ok (eq_debug_flag e) (q_conf q ! i) \<and>
           planned e (he_cpu_utilization (hs ! i)) (q_conf q ! i)"
proof -
  obtain ps q where q: "start_equaliser e s 0 (Some memory) rs clock True hs = Some (ps, q)" "q_HE q = hs"
    "distinct (map snd (visits ps))" "set (map snd (visits ps)) = {i. placed s hs i}" "sane e {i. placed s hs i} q"
    "in_phase 0 (q_conf q ! i)" "planned e (he_cpu_utilization (hs ! i)) (q_conf q ! i)"
    using start_equaliser_ok [OF s] i by blast
  obtain qs where qs: "eq_loop e ps ts q = Some qs" "length qs = length ts"
    "\<And>s. s < length ts \<Longrightarrow> in_phase s (q_conf ((q # qs) ! s) ! i) \<and> quantum i s ((q # qs) ! s) (qs ! s)"
    using eq_loop_ok [of e ps q ts i 0] q i ts by auto
  have "htxd_equaliser e s 0 (Some memory) rs clock True hs ts = Some qs" using q(1) qs(1) by (simp add: htxd_equaliser_def)
  moreover have "driven_states i (q # qs)" using qs(2,3) by (simp add: driven_states_def)
  moreover have "config_ok (eq_debug_flag e) (q_conf q ! i)" using q(5) i by (auto simp: sane_def)
  ultimately show ?thesis using qs(2) q(7) by blast
qed

subsection \<open>A pattern of length zero\<close>

lemma equalise_zero:
  assumes "c_pattern_length (q_conf q ! i) = 0" "controlled ss i (q_HE q ! i)"
  shows "equalise e ss p v i q = None"
  using assms by (simp add: equalise_def action_def)

lemma only_halt_stop: "stop_exer e p v j q = Some q' \<Longrightarrow> q_conf q' = q_conf q \<and> (\<forall>i. i \<noteq> j \<longrightarrow> q_HE q' ! i = q_HE q ! i)"
  by (auto simp: stop_exer_def log_text_def event_def set_equaliser_halt_def Let_def split: if_splits option.splits bind_splits)

lemma only_halt_cont: "cont_exer e p v j q = Some q' \<Longrightarrow> q_conf q' = q_conf q \<and> (\<forall>i. i \<noteq> j \<longrightarrow> q_HE q' ! i = q_HE q ! i)"
  by (auto simp: cont_exer_def log_text_def event_def set_equaliser_halt_def Let_def split: if_splits option.splits bind_splits)

lemma equalise_other:
  "equalise e ss p v j q = Some q' \<Longrightarrow> i \<noteq> j \<Longrightarrow> q_conf q' ! i = q_conf q ! i \<and> q_HE q' ! i = q_HE q ! i"
  by (auto simp: equalise_def split: if_splits bind_splits dest: only_halt_stop only_halt_cont)

lemma equalise_all_zero:
  assumes "c_pattern_length (q_conf q ! i) = 0" "controlled (t_sems t) i (q_HE q ! i)" "i \<in> set (map snd vs)"
  shows "equalise_all e t vs q = None"
  using assms
proof (induction vs arbitrary: q)
  case Nil
  then show ?case by simp
next
  case (Cons x vs)
  obtain p j where x: "x = (p, j)" by (cases x)
  show ?case
  proof (cases "j = i")
    case True
    then show ?thesis using x equalise_zero [OF Cons.prems(1,2)] by simp
  next
    case False
    have "equalise_all e t vs q1 = None" if "equalise e (t_sems t) p (t_visit t j) j q = Some q1" for q1
      using Cons.IH [of q1] equalise_other [OF that, of i] False Cons.prems x by auto
    then show ?thesis using x by (cases "equalise e (t_sems t) p (t_visit t j) j q") auto
  qed
qed

text \<open>The texts that give the length zero.\<close>

definition no_length :: "int \<Rightarrow> cstring \<Rightarrow> bool" where
  "no_length n u \<longleftrightarrow> u = [] \<or> CHR ''%'' \<in> set u \<and> ushort n = 0"

lemma update_config_detail_zero: "update_config_detail n u c = Some c' \<Longrightarrow> no_length n u \<Longrightarrow> c_pattern_length c' = 0"
  by (auto simp: update_config_detail_def no_length_def strchr_None_iff Let_def split: if_splits bind_splits)

lemma place_test_keeps:
  assumes "place_test n k b u ps cs = Some (ps', cs')"
  shows "length cs' = length cs \<and> (\<forall>j. j \<noteq> k \<longrightarrow> cs' ! j = cs ! j) \<and>
         map cpu_lcpu ps' = map cpu_lcpu ps \<and> list_all2 (\<lambda>p p'. set (cpu_tests p) \<subseteq> set (cpu_tests p')) ps ps' \<and>
         (no_length n u \<and> (b \<in> set (map cpu_lcpu ps) \<or> c_pattern_length (cs ! k) = 0) \<longrightarrow> c_pattern_length (cs' ! k) = 0) \<and>
         (b \<in> set (map cpu_lcpu ps) \<longrightarrow> k \<in> set (concat (map cpu_tests ps')))"
  using assms
proof (induction ps arbitrary: cs ps' cs')
  case Nil
  then show ?case by simp
next
  case (Cons p ps)
  show ?case
  proof (cases "cpu_lcpu p = b")
    case True
    then obtain c ps1 where c: "update_config_detail n u (cs ! k) = Some c" "k < length cs"
      and r: "place_test n k b u ps (cs[k := c]) = Some (ps1, cs')" and p': "ps' = p\<lparr>cpu_tests := cpu_tests p @ [k]\<rparr> # ps1"
      using Cons.prems by (auto split: if_splits bind_splits)
    note ih = Cons.IH [OF r]
    have "no_length n u \<longrightarrow> c_pattern_length (cs[k := c] ! k) = 0"
      using update_config_detail_zero [OF c(1)] c(2) by simp
    then show ?thesis using ih p' True by auto
  next
    case False
    then obtain ps1 where r: "place_test n k b u ps cs = Some (ps1, cs')" and p': "ps' = p # ps1"
      using Cons.prems by (auto split: bind_splits)
    then show ?thesis using Cons.IH [OF r] False by auto
  qed
qed

lemma list_all2_tests: "list_all2 (\<lambda>p p'. set (cpu_tests p) \<subseteq> set (cpu_tests p')) ps ps' \<Longrightarrow>
  set (concat (map cpu_tests ps)) \<subseteq> set (concat (map cpu_tests ps'))"
  by (induction rule: list_all2_induct) auto

lemma update_exer_info_zero:
  assumes "update_exer_info n k hs ps cs = Some (ps', cs')"
  shows "length cs' = length cs \<and> (\<forall>j < k. cs' ! j = cs ! j) \<and>
         set (concat (map cpu_tests ps)) \<subseteq> set (concat (map cpu_tests ps')) \<and>
         (\<forall>j < length hs. bind_of (hs ! j) \<in> set (map (\<lambda>p. Some (cpu_lcpu p)) ps) \<and>
            no_length n (he_cpu_utilization (hs ! j)) \<longrightarrow>
            k + j \<in> set (concat (map cpu_tests ps')) \<and> c_pattern_length (cs' ! (k + j)) = 0)"
  using assms
proof (induction hs arbitrary: k ps cs)
  case Nil
  then show ?case by simp
next
  case (Cons h hs)
  obtain b ps1 cs1 where b: "bind_of h = Some b"
    and p1: "place_test n k b (he_cpu_utilization h) ps cs = Some (ps1, cs1)"
    and r: "update_exer_info n (Suc k) hs ps1 cs1 = Some (ps', cs')"
    using Cons.prems by (auto simp: bind_of_def split: bind_splits)
  note ih = Cons.IH [OF r] and pk = place_test_keeps [OF p1]
  have l: "map (\<lambda>p. Some (cpu_lcpu p)) ps1 = map (\<lambda>p. Some (cpu_lcpu p)) ps"
    using pk by (metis (mono_tags, lifting) comp_apply list.map_comp map_eq_conv)
  have first: "k \<in> set (concat (map cpu_tests ps')) \<and> c_pattern_length (cs' ! k) = 0"
    if "bind_of h \<in> set (map (\<lambda>p. Some (cpu_lcpu p)) ps)" "no_length n (he_cpu_utilization h)"
  proof -
    have "b \<in> set (map cpu_lcpu ps)" using that(1) b by auto
    then show ?thesis using pk ih that(2) by auto
  qed
  show ?case
  proof (intro conjI allI impI)
    show "length cs' = length cs" using ih pk by simp
    show "cs' ! j = cs ! j" if "j < k" for j using ih pk that by auto
    show "set (concat (map cpu_tests ps)) \<subseteq> set (concat (map cpu_tests ps'))"
      using ih list_all2_tests [of ps ps1] pk by blast
    fix j assume j: "j < length (h # hs)"
      "bind_of ((h # hs) ! j) \<in> set (map (\<lambda>p. Some (cpu_lcpu p)) ps) \<and> no_length n (he_cpu_utilization ((h # hs) ! j))"
    show "k + j \<in> set (concat (map cpu_tests ps'))" using j first ih l by (cases j) auto
    show "c_pattern_length (cs' ! (k + j)) = 0" using j first ih l by (cases j) auto
  qed
qed

lemma init_configs_zero:
  assumes "init_configs debug rs vs cs = Some cs'" "c_pattern_length (cs ! i) = 0"
  shows "c_pattern_length (cs' ! i) = 0"
  using assms
proof (induction vs arbitrary: cs)
  case Nil
  then show ?case by simp
next
  case (Cons x vs)
  obtain p j where x: "x = (p, j)" by (cases x)
  obtain c where c: "init_config debug (rs j) (cs ! j) = Some c" "init_configs debug rs vs (cs[j := c]) = Some cs'" "j < length cs"
    using Cons.prems(1) x by (auto split: if_splits bind_splits)
  have "c_pattern_length c = c_pattern_length (cs ! j)"
    using c(1) by (auto simp: init_config_def reset_utilization_queue_def Let_def split: if_splits bind_splits)
  then show ?case using Cons.IH [OF c(2)] Cons.prems(2) c(3) by (cases "i = j") auto
qed

subsection \<open>An example\<close>

text \<open>Two processors, each with a device: one with percentages, one with a pattern.\<close>

definition sample_details :: equaliser_details where
  "sample_details = \<lparr>eq_enable_flag = 1, eq_debug_flag = 0, eq_offline_cpu = 0, eq_time_quantum = 1000,
     eq_startup_time_delay = 60, eq_log_duration = 60, eq_pattern_length = 4, eq_config_file = []\<rparr>"

definition sample_syscfg :: syscfg where
  "sample_syscfg = \<lparr>get_num_of_nodes_in_sys = 1, get_num_of_chips_in_node = \<lambda>_. 1, get_num_of_cores_in_chip = \<lambda>_ _. 1,
     get_num_of_cpus_in_core = \<lambda>_ _ _. 2, get_logical_cpu_num = \<lambda>_ _ _ t. int t, get_logical_2_physical = \<lambda>l. l\<rparr>"

definition sample_device :: "string \<Rightarrow> string \<Rightarrow> htxshm_HE" where
  "sample_device d u = zero_HE\<lparr>he_sdev_id := d, he_cpu_utilization := u, he_PID := 7, he_tm_last_upd := 1\<rparr>"

definition sample_devices :: "htxshm_HE list" where
  "sample_devices = [sample_device ''fpu0'' ''UTIL_LEFT%50_25'', sample_device ''mem1'' ''110'']"

definition sample_memory :: "run_time_config list" where
  "sample_memory = replicate 2 \<lparr>c_util_pattern = 9, c_utilization_pattern = 77, c_pattern_length = 5, c_sequence_length = 6,
     c_utilization_sequence = replicate 10 1000, d_target_utilization = 8, d_current_seq_step = 9, d_current_step = 3\<rparr>"

definition sample_turn :: turn_in where
  "sample_turn = \<lparr>t_clock = 100, t_fopen = True, t_HE = sample_devices, t_sems = replicate 12 0,
     t_visit = \<lambda>i. \<lparr>v_killpg = 0, v_bind = 0, v_rand = (\<lambda>j. i + j), v_time = ''now''\<rparr>\<rparr>"

lemma sample_setup: "setup_ok sample_details sample_syscfg sample_memory sample_devices"
  by code_simp

lemma sample_placed: "placed sample_syscfg sample_devices 0" "placed sample_syscfg sample_devices 1"
  by code_simp+

lemma sample_driven: "driven 0 sample_turn" "driven 1 sample_turn"
  by code_simp+

lemma sample_turn_ok: "turn_ok sample_details (length sample_devices) is sample_turn"
  by (simp add: turn_ok_def visit_ok_def sample_details_def sample_turn_def)

lemma sample_text: "util_parts (he_cpu_utilization (sample_devices ! 0)) = (''UTIL_LEFT'', [50, 25])"
  by code_simp

subsection \<open>Properties\<close>







end
