(* ===== verification/Htx_Memory.thy ===== *)
theory Htx_Memory
  imports Htx_Halt Htxd_Monitor Htxd_Equaliser
begin

text \<open>
  The shared memory of an ECG between the daemon and the exercisers: which entries are well typed, that is, within the
  widths that the fields of \<open>struct htxshm_HE\<close> have (\<open>inc/hxiipc.h\<close>), and all modelled writes to the memory, of the
  daemon and its equaliser (\<open>bin/htxd\<close>) and of the library in the exercisers (\<open>lib/htx64/hxfupdate.c\<close>), as one step relation.
\<close>

subsection \<open>Well-typed entries\<close>

definition typed_HE :: "htxshm_HE \<Rightarrow> bool" where
  "typed_HE h \<longleftrightarrow>
     list_all (\<lambda>n. n < 2 ^ 16) [he_dma_chan h, he_test_id h, he_intrpt_lev h, he_load_seq h, he_max_run_tm h, he_port h,
       he_priority h, he_slot h] \<and> he_idle_time h < 2 ^ 32 \<and>
     list_all (\<lambda>b. b < 2) [he_cont_on_err h, he_err_ack h, he_hung_flag h, he_start_halted h, he_restart_HE h, he_user_term h,
       he_DR_term h, he_is_child h, he_dup_device h, he_log_vpd h, he_hung_exer h, he_halt_flag h, he_rand_halt h,
       he_equaliser_halt h, he_hotplug_cpu h, he_hotplug_mem h, he_hotplug_io h, he_upd_test_id h, he_started_delay_flag h,
       he_test_run_period_expired h, he_equaliser_flag h, he_offline_cpu h] \<and>
     length (he_HE_name h) < 40 \<and> length (he_adapt_desc h) < 12 \<and> length (he_device_desc h) < 16 \<and>
     length (he_emc_rules h) < 100 \<and> length (he_reg_rules h) < 100 \<and> length (he_sdev_id h) < 40"

lemma typed_zero: "typed_HE zero_HE"
  by (simp add: typed_HE_def zero_HE_def)

lemma typed_frame [simp]:
  "typed_HE (h\<lparr>he_PID := i\<rparr>) = typed_HE h" "typed_HE (h\<lparr>he_max_cycles := w\<rparr>) = typed_HE h"
  "typed_HE (h\<lparr>he_tm_last_err := i\<rparr>) = typed_HE h" "typed_HE (h\<lparr>he_tm_last_upd := i\<rparr>) = typed_HE h"
  "typed_HE (h\<lparr>he_test_started_time := i\<rparr>) = typed_HE h" "typed_HE (h\<lparr>he_cycles := w\<rparr>) = typed_HE h"
  "typed_HE (h\<lparr>he_no_of_errs := w\<rparr>) = typed_HE h"
  by (simp_all add: typed_HE_def)

lemma typed_bits:
  assumes "typed_HE h" "b < 2"
  shows "typed_HE (h\<lparr>he_cont_on_err := b\<rparr>)" "typed_HE (h\<lparr>he_err_ack := b\<rparr>)" "typed_HE (h\<lparr>he_hung_flag := b\<rparr>)"
    "typed_HE (h\<lparr>he_user_term := b\<rparr>)" "typed_HE (h\<lparr>he_DR_term := b\<rparr>)" "typed_HE (h\<lparr>he_halt_flag := b\<rparr>)"
    "typed_HE (h\<lparr>he_upd_test_id := b\<rparr>)" "typed_HE (h\<lparr>he_started_delay_flag := b\<rparr>)"
    "typed_HE (h\<lparr>he_test_run_period_expired := b\<rparr>)" "typed_HE (h\<lparr>he_equaliser_halt := b\<rparr>)"
  using assms by (simp_all add: typed_HE_def)

lemma small_fields: "ushort i < 65536" "bit1 i < 2" "is_yes w < 2"
  by (simp_all add: ushort_less bit1_def is_yes_def nat_less_iff)

lemma typed_device_entry:
  assumes "device_ok ds st" "typed_HE h"
  shows "typed_HE (device_entry ds st h)"
proof -
  let ?m = "vmap ds ++ vmap (snd st)"
  have "\<forall>p\<in>set string_keys. length (uq ?m (fst p)) < min (snd p) 100"
    using assms(1) by (simp add: device_ok_def complete_def)
  then have "length (uq ?m ''HE_name'') < 40" "length (uq ?m ''adapt_desc'') < 12" "length (uq ?m ''device_desc'') < 16"
    "length (uq ?m ''emc_rules'') < 100" "length (uq ?m ''reg_rules'') < 100" by (simp_all add: string_keys_def)
  moreover have "ushort i < 4294967296" for i using small_fields(1) [of i] by simp
  ultimately show ?thesis using assms
    by (simp add: typed_HE_def device_entry_def entry_of_def small_fields device_ok_def)
qed

subsection \<open>The writes\<close>

text \<open>The daemon starts exercisers, records their end, carries out the device and screen commands, and runs its two
  monitors; the equaliser visits an entry; an exerciser attaches, calls the library, and waits in it.\<close>

inductive mem_step :: "htxshm_HE list \<Rightarrow> htxshm_HE list \<Rightarrow> bool" where
  load: "p < length hs \<Longrightarrow> mem_step hs (hs[p := fst (htxd_load_exerciser pid (hs ! p) tbl)])"
| exit: "htxd_reset_exer_pid b pid reason tbl hs = Some (msg, tbl', hs') \<Longrightarrow> mem_step hs hs'"
| device: "ei_shm (s_info s) = Some (hdr, hs) \<Longrightarrow> p < length hs \<Longrightarrow>
    act \<in> {set_coe 0, set_coe 1, htxd_set_device_terminate_status v, htxd_set_device_restart_status v} \<Longrightarrow>
    ei_shm (s_info (snd (act p s))) = Some (hdr', hs') \<Longrightarrow> mem_step hs hs'"
| screen: "ei_shm i = Some (hdr, hs) \<Longrightarrow> htxd_toggle_coe_soe pos mode operation i = Some i' \<Longrightarrow>
    ei_shm i' = Some (hdr', hs') \<Longrightarrow> mem_step hs hs'"
| hang: "ei_shm i = Some (hdr, hs) \<Longrightarrow> htxd_hang_monitor_ecg now i = Some i' \<Longrightarrow> ei_shm i' = Some (hdr', hs') \<Longrightarrow> mem_step hs hs'"
| watch: "watch_pass now hs c = (c', hs', ks) \<Longrightarrow> mem_step hs hs'"
| equaliser: "equalise eq ss p v i q = Some q' \<Longrightarrow> mem_step (q_HE q) (q_HE q')"
| attach: "s_entries e = hs \<Longrightarrow> p < length hs \<Longrightarrow> htx_start w e u = Some (int p + 1, u', now) \<Longrightarrow> mem_step hs (hs[p := u_HE u'])"
| call: "p < length hs \<Longrightarrow> u_HE (hx_u x) = hs ! p \<Longrightarrow> toupper c \<noteq> CHR ''S'' \<Longrightarrow> hxfupdate_tunsafe ce c x = Some x' \<Longrightarrow>
    mem_step hs (hs[p := u_HE (hx_u x')])"
| wait: "p < length hs \<Longrightarrow> u_HE (hx_u x) = hs ! p \<Longrightarrow> \<forall>r. hx_phase x \<noteq> Returned r \<Longrightarrow> exer_step ce x x' \<Longrightarrow>
    mem_step hs (hs[p := u_HE (hx_u x')])"

subsection \<open>Every write keeps the entries well typed\<close>

definition typed :: "htxshm_HE list \<Rightarrow> bool" where
  "typed hs \<longleftrightarrow> list_all typed_HE hs"

lemma typed_update [intro]: "typed hs \<Longrightarrow> typed_HE h \<Longrightarrow> typed (hs[p := h])"
  using set_update_subset_insert by (fastforce simp: typed_def list_all_iff)

lemma typed_nth [simp]: "typed hs \<Longrightarrow> p < length hs \<Longrightarrow> typed_HE (hs ! p)"
  by (simp add: typed_def list_all_length)

lemma typed_accumulate: "typed_HE h \<Longrightarrow> typed_HE (accumulate clock d h)"
proof -
  have "unat (test_id d) < 65536" using unsigned_less [of "test_id d"] by simp
  then show "typed_HE h \<Longrightarrow> typed_HE (accumulate clock d h)"
    by (simp add: typed_HE_def accumulate_def split_def Let_def)
qed

lemma fail_send_HE [simp]: "u_HE (snd (fail_send w t u)) = u_HE u"
  by (simp add: fail_send_def)

lemma msgsnd_HE [simp]: "u_HE (snd (msgsnd w q u)) = u_HE u"
  by (simp add: msgsnd_def Let_def)

lemma typed_htx_update: "typed_HE (u_HE u) \<Longrightarrow> typed_HE (u_HE (snd (htx_update w u)))"
  by (simp add: htx_update_def Let_def typed_accumulate)

lemma get_msg_HE [simp]: "u_HE (snd (htx_get_msg w vpd m u)) = u_HE u"
  by (simp add: htx_get_msg_def Let_def)

lemma typed_htx_message: "htx_message w m u = Some (rc, t, u') \<Longrightarrow> typed_HE (u_HE u) \<Longrightarrow> typed_HE (u_HE u')"
  by (auto simp: htx_message_def Let_def split_def split: bind_splits if_splits)

lemma typed_htx_error: "htx_error w m u = Some u' \<Longrightarrow> typed_HE (u_HE u) \<Longrightarrow> typed_HE (u_HE u')"
  by (auto simp: htx_error_def intro: typed_htx_message split: bind_splits)

lemma typed_after_switch: "typed_HE (u_HE (hx_u x)) \<Longrightarrow> typed_HE (u_HE (hx_u (after_switch w c r x)))"
  by (simp add: after_switch_def halt_error_def Let_def typed_bits)

lemma typed_call:
  assumes "hxfupdate_tunsafe ce c x = Some x'" "toupper c \<noteq> CHR ''S''" "typed_HE (u_HE (hx_u x))"
  shows "typed_HE (u_HE (hx_u x'))"
proof -
  have e: "typed_HE (u_HE (hx_u x'))" if "call_error ce y = Some x'" "typed_HE (u_HE (hx_u y))" for y
    using that
    by (auto simp: call_error_def Let_def split_def typed_bits intro!: typed_htx_update elim!: typed_htx_error
        split: bind_splits if_splits)
  have m: "typed_HE (u_HE (hx_u x'))" if "call_message ce y = Some x'" "typed_HE (u_HE (hx_u y))" for y
    using that by (auto simp: call_message_def intro: typed_htx_message split: bind_splits)
  have f: "typed_HE (u_HE (hx_u x'))" if "call_finish ce y = Some x'" "typed_HE (u_HE (hx_u y))" for y
    using that by (auto simp: call_finish_def htx_finish_def Let_def typed_htx_update split: if_splits)
  have u: "typed_HE (u_HE (hx_u x'))" if "call_update ce y = Some x' \<or> call_reconfig y = Some x'" "typed_HE (u_HE (hx_u y))" for y
    using that by (auto simp: call_update_def call_reconfig_def Let_def typed_htx_update typed_bits)
  show ?thesis using assms
    by (auto simp: hxfupdate_tunsafe_def Let_def split: if_splits elim!: e m f intro: u)
qed

lemma typed_wait:
  assumes "exer_step ce x x'" "\<forall>r. hx_phase x \<noteq> Returned r" "typed_HE (u_HE (hx_u x))"
  shows "typed_HE (u_HE (hx_u x'))"
  using assms by cases (auto simp: typed_after_switch)

lemma typed_start_HE: "typed_HE h \<Longrightarrow> typed_HE (start_HE now d h)"
  by (simp add: typed_HE_def start_HE_def)

lemma attach_code: "attach errno k calls = Some (f, r) \<Longrightarrow> f \<in> fst ` set calls"
  by (induction errno k calls rule: attach.induct) (auto split: if_splits)

lemma start_found_only:
  assumes "htx_start w e u = Some (int p + 1, u', now)"
  shows "start_found w e p u = Some (int p + 1, u', now)"
proof -
  have c: "f < 0" if "attach errno k common_calls = Some (f, r) \<or> attach errno k ecg_calls = Some (f, r)" for errno k f r
  proof -
    have "f \<in> fst ` set common_calls \<or> f \<in> fst ` set ecg_calls" using that attach_code by blast
    then show ?thesis by (auto simp: common_calls_def ecg_calls_def)
  qed
  have n: "fst (start_error w t f er sv tx v) = f" for t f er sv tx v by (simp add: start_error_def)
  have s: "j = p" if "start_found w e j u = Some (int p + 1, u', now)" for j
    using that by (auto simp: start_found_def Let_def split: bind_splits)
  show ?thesis using assms s c n [of HTX_SYS_MSG]
    by (fastforce simp: htx_start_def Let_def split_def n split: option.splits if_splits)
qed

lemma typed_start_delay: "start_delay w down u = Some u' \<Longrightarrow> typed_HE (u_HE u) \<Longrightarrow> typed_HE (u_HE u')"
  by (auto simp: start_delay_def Let_def typed_bits split: if_splits bind_splits)

lemma typed_attach:
  assumes "htx_start w e u = Some (int p + 1, u', now)" "typed_HE (s_entries e ! p)"
  shows "typed_HE (u_HE u')"
proof -
  have "typed_HE (u_HE v)" if "start_delay w (s_shutdown e) ((tick u)\<lparr>u_HE := start_HE t (u_data u) (s_entries e ! p),
      u_data := start_data (u_data u)\<rparr>) = Some v" for t v
    using typed_start_delay [OF that] typed_start_HE assms(2) by simp
  then show ?thesis using start_found_only [OF assms(1)]
    by (auto simp: start_found_def Let_def split: bind_splits)
qed

lemma typed_set_HE:
  assumes "ei_shm i = Some (hdr, hs)" "typed hs" "\<And>h. typed_HE h \<Longrightarrow> typed_HE (f h)" "p < length hs"
  shows "\<exists>hs'. ei_shm (set_HE f p i) = Some (hdr, hs') \<and> typed hs' \<and> length hs' = length hs"
  using assms by (auto simp: set_HE_def intro!: typed_update)

lemma typed_device:
  assumes "ei_shm (s_info s) = Some (hdr, hs)" "typed hs" "p < length hs"
    and "act \<in> {set_coe 0, set_coe 1, htxd_set_device_terminate_status v, htxd_set_device_restart_status v}"
    and "ei_shm (s_info (snd (act p s))) = Some (hdr', hs')"
  shows "typed hs'"
proof -
  have h: "typed_HE (entry_at p (s_info s))" using assms(1-3) by (simp add: entry_at_def)
  have c: "typed hs'" if "ei_shm (set_HE f p (s_info s)) = Some (hdr', hs')" "\<And>h. typed_HE h \<Longrightarrow> typed_HE (f h)" for f
    using typed_set_HE [of "s_info s" hdr hs f p] assms(1-3) that by auto
  from assms(4) consider (coe) v where "act = set_coe v" "v < 2" | (ended) "act = htxd_set_device_terminate_status v"
    | (restart) "act = htxd_set_device_restart_status v" by force
  then show ?thesis
  proof cases
    case coe
    then show ?thesis using assms(5) by (auto simp: set_coe_def intro!: c [of "\<lambda>h. h\<lparr>he_cont_on_err := _\<rparr>"] typed_bits)
  next
    case ended
    then show ?thesis using assms(1,2,3,5) h
      by (auto simp: htxd_set_device_terminate_status_def Let_def set_HE_def typed_bits split: if_splits
          intro!: typed_update)
  next
    case restart
    then show ?thesis using assms(1,2,3,5) h
      by (auto simp: htxd_set_device_restart_status_def htxd_load_exerciser_def Let_def set_HE_def split: if_splits prod.splits
          intro!: typed_update)
  qed
qed

lemma typed_fold_set_HE:
  assumes "ei_shm i = Some (hdr, hs)" "typed hs" "\<And>h. typed_HE h \<Longrightarrow> typed_HE (f h)" "\<forall>p\<in>set ps. p < length hs"
  shows "\<exists>hs'. ei_shm (fold (set_HE f) ps i) = Some (hdr, hs') \<and> typed hs'"
  using assms(1,2,4)
proof (induction ps arbitrary: i hs)
  case (Cons p ps)
  then obtain hs' where "ei_shm (set_HE f p i) = Some (hdr, hs')" "typed hs'" "length hs' = length hs"
    using typed_set_HE [of i hdr hs f p] assms(3) by auto
  then show ?case using Cons.IH [of "set_HE f p i" hs'] Cons.prems by auto
qed simp

lemma typed_set_coe_from:
  assumes "ei_shm i = Some (hdr, hs)" "typed hs" "set_coe_from n pos operation i = Some i'" "ei_shm i' = Some (hdr', hs')"
  shows "typed hs'"
proof (cases "n = 0")
  case False
  have "nat (operation mod 2) < 2" by (simp add: nat_less_iff)
  then have "\<exists>hs'. ei_shm (fold (set_HE (\<lambda>h. h\<lparr>he_cont_on_err := nat (operation mod 2)\<rparr>)) [nat pos..<nat pos + n] i) =
      Some (hdr, hs') \<and> typed hs'" if "0 \<le> pos" "pos + int n \<le> int (length hs)"
    using that assms(1,2) by (intro typed_fold_set_HE) (auto simp: typed_bits)
  then show ?thesis using assms False by (auto simp: set_coe_from_def split: if_splits)
qed (use assms in \<open>auto simp: set_coe_from_def\<close>)

lemma typed_screen:
  assumes "ei_shm i = Some (hdr, hs)" "typed hs" "htxd_toggle_coe_soe pos mode operation i = Some i'" "ei_shm i' = Some (hdr', hs')"
  shows "typed hs'"
  using assms typed_set_coe_from [OF assms(1,2) _ assms(4)]
  by (auto simp: htxd_toggle_coe_soe_def set_HE_def typed_bits split: if_splits intro!: typed_update)

lemma typed_hang_check: "hang_check now ss p h = Some h' \<Longrightarrow> typed_HE h \<Longrightarrow> typed_HE h'"
  by (auto simp: hang_check_def Let_def typed_bits nat_less_iff split: if_splits)

lemma typed_hang_loop: "hang_loop now ss n p hs = Some hs' \<Longrightarrow> typed hs \<Longrightarrow> typed hs'"
proof (induction n arbitrary: p hs)
  case (Suc n)
  then obtain h where h: "p < length hs" "hang_check now ss p (hs ! p) = Some h" "hang_loop now ss n (Suc p) (hs[p := h]) = Some hs'"
    by (auto split: if_splits bind_splits)
  then have "typed_HE h" using typed_hang_check Suc.prems(2) typed_nth by blast
  then show ?case using Suc.IH [OF h(3)] typed_update Suc.prems(2) by blast
qed simp

lemma typed_watch: "watch_pass now hs c = (c', hs', ks) \<Longrightarrow> typed hs \<Longrightarrow> typed hs'"
  by (induction now hs c arbitrary: c' hs' ks rule: watch_pass.induct)
    (auto simp: Let_def typed_bits typed_def split: if_splits prod.splits)

lemma equalise_entries:
  assumes "equalise e ss p v i q = Some q'"
  shows "\<exists>b < 2. q_HE q' = q_HE q \<or> q_HE q' = (q_HE q)[i := (q_HE q ! i)\<lparr>he_equaliser_halt := b\<rparr>]"
proof -
  have s: "q_HE r = q_HE q \<or> q_HE r = (q_HE q)[i := (q_HE q ! i)\<lparr>he_equaliser_halt := 1\<rparr>]" if "stop_exer e p v i q = Some r" for r
    using that by (auto simp: stop_exer_def log_text_def event_def set_equaliser_halt_def Let_def
        split: if_splits option.splits bind_splits)
  have c: "q_HE r = q_HE q \<or> q_HE r = (q_HE q)[i := (q_HE q ! i)\<lparr>he_equaliser_halt := 0\<rparr>]" if "cont_exer e p v i q = Some r" for r
    using that by (auto simp: cont_exer_def log_text_def event_def set_equaliser_halt_def Let_def
        split: if_splits option.splits bind_splits)
  have "q_HE q' = q_HE q \<or> (\<exists>r. q_HE q' = q_HE r \<and> (stop_exer e p v i q = Some r \<or> cont_exer e p v i q = Some r))"
    using assms by (auto simp: equalise_def split: if_splits bind_splits)
  then show ?thesis using s c by (metis one_less_numeral_iff pos2 semiring_norm(76))
qed

lemma typed_step: "mem_step hs hs' \<Longrightarrow> typed hs \<Longrightarrow> typed hs'"
proof (induction rule: mem_step.induct)
  case (load p hs pid tbl)
  then show ?case by (intro typed_update) (auto simp: htxd_load_exerciser_def)
next
  case (exit b pid reason tbl hs msg tbl' hs')
  then show ?case by (auto simp: htxd_reset_exer_pid_def Let_def split: option.splits if_splits intro!: typed_update)
next
  case (hang i hdr hs now i' hdr' hs')
  then show ?case by (auto simp: htxd_hang_monitor_ecg_def intro: typed_hang_loop split: bind_splits)
next
  case (attach e hs p w u u' now)
  then have "typed_HE (u_HE u')" using typed_attach typed_nth by blast
  then show ?case using attach.prems typed_update by blast
next
  case (call p hs x c ce x')
  then have "typed_HE (u_HE (hx_u x'))" using typed_call typed_nth by metis
  then show ?case using call.prems typed_update by blast
next
  case (wait p hs x ce x')
  then have "typed_HE (u_HE (hx_u x'))" using typed_wait typed_nth by metis
  then show ?case using wait.prems typed_update by blast
next
  case (device s hdr hs p act v hdr' hs')
  then show ?case using typed_device by blast
next
  case (screen i hdr hs pos mode operation i' hdr' hs')
  then show ?case using typed_screen by blast
next
  case (watch now hs c c' hs' ks)
  then show ?case using typed_watch by blast
next
  case (equaliser eq ss p v i q q')
  then obtain b where b: "b < 2" "q_HE q' = q_HE q \<or> q_HE q' = (q_HE q)[i := (q_HE q ! i)\<lparr>he_equaliser_halt := b\<rparr>]"
    using equalise_entries by blast
  moreover have "i < length (q_HE q)" using equaliser.hyps by (auto simp: equalise_def split: if_splits)
  ultimately show ?case using equaliser.prems by (auto intro!: typed_update typed_bits)
qed



end
