(* ===== verification/Htxd_Report.thy ===== *)
theory Htxd_Report
  imports Htxd_Monitor
begin

text \<open>
  The commands of htxd that sum up an ECG for the client or the screens: the summary, the failure status, the counted
  cycles, the last update, the run time, the setup flag, and the pages of screens 2, 4 and 5; and the commands that read
  and set the environment of the daemon, which the exercisers inherit (\<open>bin/htxd/htxd_option_method_misc.c\<close>).

  The number of errors in the system header is written by the message collector, and is an input.
\<close>

subsection \<open>The ECG a report is about\<close>

text \<open>The named ECG or else the running one; \<open>unknown\<close> is the text for a name that is not there.\<close>

definition report_method :: "(string \<Rightarrow> string) \<Rightarrow> htxd_command \<Rightarrow> daemon \<Rightarrow> (ecg_info \<Rightarrow> (int \<times> string) fault) \<Rightarrow> answer" where
  "report_method unknown c d body =
     (let rc = htxd_validate_command_requirements d
      in if rc \<noteq> 0 then reply 1024 rc ''No ECG/MDT is currently running'' d
         else do {
           m \<leftarrow> d_mgr d;
           a \<leftarrow> htxd_get_ecg_info_node m (if c_ecg_name c \<noteq> [] then c_ecg_name c else m_running m);
           case a of
             None \<Rightarrow> reply 1024 (- 1) (if c_ecg_name c \<noteq> [] then unknown (c_ecg_name c)
                                     else ''Internal Error: Failed to get a running ecg<>'') d
           | Some a \<Rightarrow> do { node \<leftarrow> m_heap m a; (rc, t) \<leftarrow> body (n_info node); reply 1024 rc t d } })"

definition not_running :: "string \<Rightarrow> string" where
  "not_running name = ''Specified ECG/MDT<'' @ name @ ''> is not currently running''"

definition incorrect_name :: "string \<Rightarrow> string" where
  "incorrect_name name = ''Incorrect ECG Name('' @ name @ '') provided''"

definition htxd_option_method_exersetupinfo :: "htxd_command \<Rightarrow> daemon \<Rightarrow> answer" where
  "htxd_option_method_exersetupinfo c d =
     report_method not_running c d (\<lambda>i.
       do { hs \<leftarrow> entries_of i;
            Some (0, ''setup_of_all_exers_done = '' @
              show_int (if \<exists>h\<in>set hs. he_upd_test_id h = 0 then 0 else 1)) })"

text \<open>Division and remainder of C, which round towards zero.\<close>

definition c_div :: "int \<Rightarrow> int \<Rightarrow> int" where
  "c_div a b = sgn a * sgn b * (\<bar>a\<bar> div \<bar>b\<bar>)"

definition c_mod :: "int \<Rightarrow> int \<Rightarrow> int" where
  "c_mod a b = a - b * c_div a b"

definition htxd_option_method_get_run_time :: "int \<Rightarrow> htxd_command \<Rightarrow> daemon \<Rightarrow> answer" where
  "htxd_option_method_get_run_time now c d =
     report_method incorrect_name c d (\<lambda>i.
       (let t = wrap32 (wrap32 now - ei_run_start_time i)
        in Some (0, ''Run_time = '' @ show_int (c_div t 60) @ '' minutes '' @ show_int (c_mod t 60) @ '' seconds'')))"

definition last_update :: "htxshm_HE list \<Rightarrow> int" where
  "last_update hs = foldl (\<lambda>t h. if t < he_tm_last_upd h then he_tm_last_upd h else t) 0 hs"

text \<open>\<open>date\<close> prints the date of a time.\<close>

definition htxd_option_method_get_last_update_time :: "clock \<Rightarrow> (int \<Rightarrow> string) \<Rightarrow> htxd_command \<Rightarrow> daemon \<Rightarrow> answer" where
  "htxd_option_method_get_last_update_time ck date c d =
     report_method incorrect_name c d (\<lambda>i.
       do { hs \<leftarrow> entries_of i;
            let t = last_update hs;
            Some (0, ''Last_update_time = '' @
              (if t = 0 then ''00:00:00 00/00/00'' else date t @ [SP] @ snd (snd ck t))) })"

subsection \<open>The failure status\<close>

text \<open>Where a device is counted. The order of the tests is not that of \<open>htxd_get_device_run_status\<close>.\<close>

datatype fail_kind = Dd | Tm | St | Er | Cp | Ld | Hg | Pr | Rn

definition fail_kind_of :: "int \<Rightarrow> ecg_info \<Rightarrow> nat \<Rightarrow> fail_kind" where
  "fail_kind_of now i p =
     (let h = entry_at p i; ss = ei_sems i
      in if he_PID h = 0 then (if he_user_term h = 0 then Dd else Tm)
         else if htxd_get_global_activate_halt_sem_status ss = 1 \<or> he_equaliser_halt h = 1 \<or>
             htxd_get_device_run_sem_status ss p \<noteq> 0 then St
         else if htxd_get_device_error_sem_status ss p \<noteq> 0 then Er
         else if he_max_cycles h \<noteq> 0 \<and> he_max_cycles h \<le> he_cycles h then Cp
         else if he_tm_last_upd h = - 1 then Ld
         else if max_update_lapse h < now - he_tm_last_upd h then Hg
         else if 0 < he_no_of_errs h then Pr
         else Rn)"

definition fail_status :: "int \<Rightarrow> ecg_info \<Rightarrow> bool fault" where
  "fail_status now i =
     do { (hdr, _) \<leftarrow> ei_shm i;
          _ \<leftarrow> entries_of i;
          let ks = (if hdr_started hdr \<noteq> 1 then [] else map (fail_kind_of now i) [0..<ei_shm_entries i]);
          Some (count_list ks Er \<noteq> 0 \<or> count_list ks Dd \<noteq> 0 \<or> count_list ks Tm \<noteq> 0 \<or> count_list ks Cp \<noteq> 0 \<or>
                count_list ks Pr \<noteq> 0 \<or> count_list ks Hg \<noteq> 0) }"

definition htxd_option_method_get_fail_status :: "int \<Rightarrow> htxd_command \<Rightarrow> daemon \<Rightarrow> answer" where
  "htxd_option_method_get_fail_status now c d =
     report_method incorrect_name c d (\<lambda>i.
       do { f \<leftarrow> fail_status now i; Some (0, ''Fail_status = '' @ (if f then ''1'' else ''0'')) })"

subsection \<open>The counted cycles\<close>

text \<open>One \<open>%s\<close> of \<open>sscanf\<close>: the word and the rest.\<close>

definition scan_word :: "cstring \<Rightarrow> string \<times> cstring" where
  "scan_word s = (let t = dropWhile isspace s in (takeWhile (\<lambda>c. \<not> isspace c) t, dropWhile (\<lambda>c. \<not> isspace c) t))"

text \<open>The loop over the entries, with the flag that a name was found and the sum, which wraps around.\<close>

fun cycles_loop :: "bool \<Rightarrow> string \<Rightarrow> htxshm_HE list \<Rightarrow> bool \<times> u64 \<Rightarrow> bool \<times> u64" where
  "cycles_loop started name [] (found, n) = (found, n)"
| "cycles_loop started name (h # hs) (found, n) =
     (if strncmp (he_sdev_id h) name (length name) = 0 then
        (if \<not> started then (True, n)
         else cycles_loop started name hs (True, n + he_cycles h + (if he_test_id h \<noteq> 0 then 1 else 0)))
      else cycles_loop started name hs (found, n))"

text \<open>A list of blanks leaves the name unset.\<close>

definition dev_cycles :: "string \<Rightarrow> ecg_info \<Rightarrow> (int \<times> string) fault" where
  "dev_cycles l i =
     (if l = [] then Some (- 1, ''No device name prefix is provided'')
      else do {
        let name = fst (scan_word l);
        name \<leftarrow> (if name = [] then None else fits 256 name);
        (hdr, _) \<leftarrow> ei_shm i;
        hs \<leftarrow> entries_of i;
        let (found, n) = cycles_loop (hdr_started hdr = 1) name hs (False, 0);
        Some (if found then (0, name @ '' = '' @ show_int (sint n))
              else (- 1, ''Device name prefix('' @ name @ '') is NOT found'')) })"

definition htxd_option_method_get_dev_cycles :: "htxd_command \<Rightarrow> daemon \<Rightarrow> answer" where
  "htxd_option_method_get_dev_cycles c d =
     report_method incorrect_name c d (dev_cycles (htxd_correct_device_list_for_all_devices (c_option_list c)))"

subsection \<open>The summary\<close>

record ecg_summary =
  running_device :: nat
  suspended_device :: nat
  error_device :: nat
  partially_running_device :: nat
  terminated_device :: nat
  died_device :: nat
  hung_device :: nat
  completed_device :: nat
  inactive_device :: nat

definition init_ecg_summary :: ecg_summary where
  "init_ecg_summary =
     \<lparr>running_device = 0, suspended_device = 0, error_device = 0, partially_running_device = 0, terminated_device = 0,
      died_device = 0, hung_device = 0, completed_device = 0, inactive_device = 0\<rparr>"

text \<open>The counters a status adds to. Devices terminated by a reconfiguration (DT) are counted in a field that is never
  printed; devices whose run time is over (RT) or whose start is delayed (SD) are not counted.\<close>

definition count_status :: "string \<Rightarrow> ecg_summary \<Rightarrow> ecg_summary" where
  "count_status st s =
     (if st = ''RN'' then s\<lparr>running_device := running_device s + 1\<rparr>
      else if st = ''DD'' then s\<lparr>died_device := died_device s + 1\<rparr>
      else if st = ''DT'' then s
      else if st = ''TM'' then s\<lparr>terminated_device := terminated_device s + 1\<rparr>
      else if st = ''ER'' then s\<lparr>error_device := error_device s + 1\<rparr>
      else if st = ''ST'' then s\<lparr>suspended_device := suspended_device s + 1\<rparr>
      else if st = ''CP'' then s\<lparr>completed_device := completed_device s + 1\<rparr>
      else if st = ''HG'' then s\<lparr>hung_device := hung_device s + 1\<rparr>
      else if st = ''PR'' then s\<lparr>partially_running_device := partially_running_device s + 1\<rparr>
      else s)"

text \<open>The loop over the devices. A status that cannot be read leaves the two characters of the device before. A device
  that waits for the start ends the loop and makes all devices inactive.\<close>

fun summary_loop :: "(nat \<Rightarrow> string option) \<Rightarrow> nat \<Rightarrow> nat list \<Rightarrow> string option \<Rightarrow> ecg_summary \<Rightarrow> ecg_summary fault" where
  "summary_loop status n [] old s = Some s"
| "summary_loop status n (p # ps) old s =
     do { st \<leftarrow> (case status p of None \<Rightarrow> old | Some st \<Rightarrow> Some st);
          if st = ''  '' then Some (s\<lparr>inactive_device := n\<rparr>)
          else summary_loop status n ps (Some st) (count_status st s) }"

definition summary_text :: "string \<Rightarrow> nat \<Rightarrow> ecg_summary \<Rightarrow> string" where
  "summary_text name n s =
     name @ '' is in ACTIVE state\<newline>'' @
     ''Total Devices       = '' @ dec_digits n @ [NL] @
     '' Running            = '' @ dec_digits (running_device s) @ [NL] @
     '' Suspended          = '' @ dec_digits (suspended_device s) @ [NL] @
     '' Error              = '' @ dec_digits (error_device s) @ [NL] @
     '' Partially Running   = '' @ dec_digits (partially_running_device s) @ [NL] @
     '' Terminated         = '' @ dec_digits (terminated_device s) @ [NL] @
     '' Died               = '' @ dec_digits (died_device s) @ [NL] @
     '' Hung               = '' @ dec_digits (hung_device s) @ [NL] @
     '' Completed          = '' @ dec_digits (completed_device s) @ [NL] @
     '' Inactive           = '' @ dec_digits (inactive_device s) @ [NL, NL]"

definition htxd_getecgsum_all_device :: "int \<Rightarrow> ecg_info \<Rightarrow> string fault" where
  "htxd_getecgsum_all_device now i =
     do { (hdr, _) \<leftarrow> ei_shm i;
          _ \<leftarrow> entries_of i;
          s \<leftarrow> summary_loop (\<lambda>p. snd (htxd_get_device_run_status now i hdr p)) (ei_shm_entries i) [0..<ei_shm_entries i]
                 None init_ecg_summary;
          Some (summary_text (ei_name i) (ei_shm_entries i) s) }"

text \<open>Without a name every ECG writes its summary over that of the ECG before.\<close>

definition htxd_option_method_getecgsum :: "int \<Rightarrow> htxd_command \<Rightarrow> daemon \<Rightarrow> answer" where
  "htxd_option_method_getecgsum now c d =
     (let rc = htxd_validate_command_requirements d
      in if rc \<noteq> 0 then reply 4096 rc ''No ECG/MDT is currently running'' d
         else do {
           m \<leftarrow> d_mgr d;
           if c_ecg_name c \<noteq> [] then do {
             a \<leftarrow> htxd_get_ecg_info_node m (c_ecg_name c);
             case a of
               None \<Rightarrow> reply 4096 (- 1) (not_running (c_ecg_name c)) d
             | Some a \<Rightarrow> do { node \<leftarrow> m_heap m a; t \<leftarrow> htxd_getecgsum_all_device now (n_info node); reply 4096 0 t d } }
           else do {
             (_, _, _, t) \<leftarrow> each_ecg (\<lambda>s _. do { t \<leftarrow> htxd_getecgsum_all_device now (s_info s); t \<leftarrow> fits 4096 t; Some (0, s, t) })
                (m_list m) (0, 0, m, []);
             reply 4096 0 t d } })"

subsection \<open>The pages of the screens\<close>

abbreviation (input) SCREEN_5_ENTRIES_PER_PAGE :: nat where "SCREEN_5_ENTRIES_PER_PAGE \<equiv> 34"
abbreviation (input) SCREEN_2_4_DEVICES_PER_PAGE :: nat where "SCREEN_2_4_DEVICES_PER_PAGE \<equiv> 15"

definition angled :: "string \<Rightarrow> string" where
  "angled s = CHR ''<'' # s @ ''> ''"

definition htxd_get_screen_5_row_entry :: "clock \<Rightarrow> ecg_info \<Rightarrow> nat \<Rightarrow> string fault" where
  "htxd_get_screen_5_row_entry ck i p =
     do { (hdr, hs) \<leftarrow> ei_shm i;
          st \<leftarrow> snd (htxd_get_device_run_status (fst ck) i hdr p);
          let h = entry_at p i;
          let (day, tm) = snd ck (he_tm_last_upd h);
          let (eday, etm) = error_day ck h;
          fits 256 (angled (he_sdev_id h) @ angled st @ angled day @ angled tm @
            angled (show_int (wrap32 (uint (he_cycles h)))) @ angled (dec_digits (he_test_id h)) @
            angled eday @ angled etm @ ''|'') }"

text \<open>The number of rows does not depend on where the page starts.\<close>

definition htxd_screen_5_all_device :: "clock \<Rightarrow> int \<Rightarrow> string \<Rightarrow> ecg_info \<Rightarrow> int \<Rightarrow> string fault" where
  "htxd_screen_5_all_device ck errs started i start =
     do { (hdr, hs) \<leftarrow> ei_shm i;
          let n = min (ei_shm_entries i) SCREEN_5_ENTRIES_PER_PAGE;
          rows \<leftarrow> (if n = 0 then Some []
                   else if start < 0 \<or> int (length hs) < start + int n then None
                   else cat_rows (htxd_get_screen_5_row_entry ck i) [nat start..<nat start + n]);
          Some (show_int (min (int (ei_shm_entries i) - start) (int SCREEN_5_ENTRIES_PER_PAGE)) @ [SP] @ show_int errs @ [SP] @
                dec_digits (ei_shm_entries i) @ [SP] @ ei_name i @ [SP] @ show_int (fst ck) @ [SP] @ started @ '' |'' @ rows) }"

text \<open>A page of the first ECG, from the position in the option list.\<close>

definition page_method ::
  "htxd_command \<Rightarrow> daemon \<Rightarrow> (int \<Rightarrow> string \<Rightarrow> 'a) \<Rightarrow> (ecg_info \<Rightarrow> int \<Rightarrow> 'a fault) \<Rightarrow> 'a fault" where
  "page_method c d message page =
     (let rc = htxd_validate_command_requirements d
      in if rc \<noteq> 0 then Some (message rc ''No ECG/MDT is currently running'')
         else do {
           m \<leftarrow> d_mgr d;
           a \<leftarrow> m_list m;
           node \<leftarrow> m_heap m a;
           let start = atoi (htxd_correct_device_list_for_all_devices (c_option_list c));
           if int (ei_shm_entries (n_info node)) < start
           then Some (message 1 ''Internal error, device position crossing the max limit'')
           else page (n_info node) start })"

definition htxd_option_method_screen_5 :: "clock \<Rightarrow> int \<Rightarrow> htxd_command \<Rightarrow> daemon \<Rightarrow> answer" where
  "htxd_option_method_screen_5 ck errs c d =
     do { (rc, t) \<leftarrow> page_method c d Pair
            (\<lambda>i start. do { t \<leftarrow> htxd_screen_5_all_device ck errs (ei_start_time i) i start; Some (0, t) });
          reply 10240 rc t d }"

text \<open>Screens 2 and 4 are sent as an array of records in 10 KB of memory.\<close>

record activate_halt_entry =
  row_device_name :: string
  row_device_status :: string
  row_slot :: nat
  row_port :: nat
  row_adapt_desc :: string
  row_device_desc :: string

datatype screen_mode = SCREEN_MODE_2 | SCREEN_MODE_4

definition htxd_get_screen_2_4_row_entry :: "screen_mode \<Rightarrow> ecg_info \<Rightarrow> nat \<Rightarrow> activate_halt_entry fault" where
  "htxd_get_screen_2_4_row_entry mode i p =
     do { let h = entry_at p i;
          name \<leftarrow> fits 40 (he_sdev_id h);
          adapt \<leftarrow> fits 12 (he_adapt_desc h);
          desc \<leftarrow> fits 16 (he_device_desc h);
          Some \<lparr>row_device_name = name,
            row_device_status =
              (case mode of
                 SCREEN_MODE_2 \<Rightarrow> if htxd_get_device_run_sem_status (ei_sems i) p = 0 then '' ACTIVE '' else '' HALTED ''
               | SCREEN_MODE_4 \<Rightarrow> if he_cont_on_err h = 0 then ''  HOE   '' else ''  COE   ''),
            row_slot = he_slot h, row_port = he_port h, row_adapt_desc = adapt, row_device_desc = desc\<rparr> }"

fun page_rows :: "(nat \<Rightarrow> 'a fault) \<Rightarrow> nat list \<Rightarrow> 'a list fault" where
  "page_rows row [] = Some []"
| "page_rows row (p # ps) = do { r \<leftarrow> row p; rs \<leftarrow> page_rows row ps; Some (r # rs) }"

definition htxd_screen_2_4_all_device :: "screen_mode \<Rightarrow> ecg_info \<Rightarrow> int \<Rightarrow> activate_halt_entry list fault" where
  "htxd_screen_2_4_all_device mode i start =
     do { hs \<leftarrow> entries_of i;
          if start < 0 then None
          else page_rows (htxd_get_screen_2_4_row_entry mode i)
                 [nat start..<min (ei_shm_entries i) (nat start + SCREEN_2_4_DEVICES_PER_PAGE)] }"

definition htxd_option_method_screen_2 :: "htxd_command \<Rightarrow> daemon \<Rightarrow> (int \<times> (string + activate_halt_entry list)) fault" where
  "htxd_option_method_screen_2 c d =
     page_method c d (\<lambda>rc t. (rc, Inl t))
       (\<lambda>i start. do { rs \<leftarrow> htxd_screen_2_4_all_device SCREEN_MODE_2 i start; Some (0, Inr rs) })"

definition htxd_option_method_screen_4 :: "htxd_command \<Rightarrow> daemon \<Rightarrow> (int \<times> (string + activate_halt_entry list)) fault" where
  "htxd_option_method_screen_4 c d =
     page_method c d (\<lambda>rc t. (rc, Inl t))
       (\<lambda>i start. do { rs \<leftarrow> htxd_screen_2_4_all_device SCREEN_MODE_4 i start; Some (0, Inr rs) })"

subsection \<open>The environment\<close>

text \<open>\<open>setenv\<close> with overwriting, which refuses names that are empty or hold an equals sign.\<close>

definition setenv :: "string \<Rightarrow> string \<Rightarrow> (string \<rightharpoonup> string) \<Rightarrow> int \<times> (string \<rightharpoonup> string)" where
  "setenv name v env = (if name = [] \<or> CHR ''='' \<in> set name then (- 1, env) else (0, env(name \<mapsto> v)))"

definition env_flag :: "string \<Rightarrow> string \<Rightarrow> htxd_command \<Rightarrow> daemon \<Rightarrow> answer" where
  "env_flag name what c d =
     (if c_option_list c = [] then
        (case d_env d name of
           None \<Rightarrow> reply 512 0 (name @ '' is not set'') d
         | Some v \<Rightarrow> reply 512 0 (name @ '' value is '' @ v) d)
      else if c_option_list c = ''1'' then
        reply 512 0 (''set '' @ what @ '' flag successfully'') (d\<lparr>d_env := snd (setenv name ''1'' (d_env d))\<rparr>)
      else if c_option_list c = ''0'' then
        reply 512 0 (''unset '' @ what @ '' flag successfully'') (d\<lparr>d_env := snd (setenv name ''0'' (d_env d))\<rparr>)
      else reply 512 (- 1) (''Error : failed while setting '' @ what @ '' flag ('' @ name @
             '') because of invalid argument, valid argument is 1 or 0'') d)"

definition htxd_option_method_set_eeh :: "htxd_command \<Rightarrow> daemon \<Rightarrow> answer" where
  "htxd_option_method_set_eeh = env_flag ''HTXEEH'' ''eeh''"

definition htxd_option_method_set_kdblevel :: "htxd_command \<Rightarrow> daemon \<Rightarrow> answer" where
  "htxd_option_method_set_kdblevel = env_flag ''HTXKDBLEVEL'' ''kdb level''"

text \<open>The words are read into arrays of 128 characters; 22 is the error number of an invalid argument.\<close>

definition htxd_option_method_set_htx_env :: "htxd_command \<Rightarrow> daemon \<Rightarrow> answer" where
  "htxd_option_method_set_htx_env c d =
     (if c_option_list c = [] then reply 512 1 ''Please provide environment variable and value'' d
      else do {
        let (name, l) = scan_word (c_option_list c);
        name \<leftarrow> fits 128 name;
        v \<leftarrow> fits 128 (fst (scan_word l));
        if name = [] then reply 512 1 ''could not find environment variable'' d
        else (let (rc, env) = setenv name v (d_env d)
              in if rc \<noteq> 0 then reply 512 rc (''Error : setenv returned while setting environment varibale <'' @ name @
                   ''> with value <'' @ v @ ''>, return  code <'' @ show_int rc @ ''> and errno <22>'') d
                 else reply 512 rc (''environment variable <'' @ name @ ''> is set with <'' @ v @ ''> successfully'')
                   (d\<lparr>d_env := env\<rparr>)) })"

definition htxd_option_method_get_htx_env :: "htxd_command \<Rightarrow> daemon \<Rightarrow> answer" where
  "htxd_option_method_get_htx_env c d =
     (if c_option_list c = [] then reply 512 1 ''Please provide environment variable'' d
      else do {
        name \<leftarrow> fits 128 (fst (scan_word (c_option_list c)));
        if name = [] then reply 512 1 ''could not find environment variable'' d
        else case d_env d name of
            None \<Rightarrow> reply 512 1 (''environment variable <'' @ name @ ''> is not defined'') d
          | Some v \<Rightarrow> reply 512 0 (''environment variable <'' @ name @ ''> value is <'' @ v @ ''>'') d })"

subsection \<open>The failure status and the status of the devices\<close>

text \<open>A device for which the two commands look at the same things: it did not end in an orderly way, its error semaphore is
  only set after errors, it is not halted with errors, and it is past its start.\<close>

definition settled :: "ecg_info \<Rightarrow> nat \<Rightarrow> bool" where
  "settled i p \<longleftrightarrow>
     (let h = entry_at p i; ss = ei_sems i
      in if he_PID h = 0 then he_DR_term h \<noteq> 1 \<and> he_test_run_period_expired h \<noteq> 1
         else he_started_delay_flag h \<noteq> 1 \<and> he_tm_last_upd h \<noteq> - 1 \<and> htxd_get_device_error_sem_status ss p \<noteq> - 1 \<and>
           (if 0 < he_no_of_errs h
            then htxd_get_device_run_sem_status ss p = 0 \<and> htxd_get_global_activate_halt_sem_status ss \<noteq> 1 \<and>
              he_equaliser_halt h \<noteq> 1
            else htxd_get_device_error_sem_status ss p = 0))"

definition failing :: "string option \<Rightarrow> bool" where
  "failing st \<longleftrightarrow> st \<in> Some ` {''ER'', ''DD'', ''TM'', ''CP'', ''PR'', ''HG''}"

definition fails :: "fail_kind \<Rightarrow> bool" where
  "fails k \<longleftrightarrow> k \<in> {Er, Dd, Tm, Cp, Pr, Hg}"

lemma fail_status_any:
  assumes "ei_shm i = Some (hdr, hs)" "ei_shm_entries i \<le> length hs" "hdr_started hdr = 1"
  shows "fail_status now i = Some (\<exists>p<ei_shm_entries i. fails (fail_kind_of now i p))"
  using assms
  by (auto simp: fail_status_def entries_of_def count_list_0_iff fails_def image_iff Bex_def
      split: if_splits)

lemma settled_agrees:
  assumes "settled i p" "hdr_started hdr = 1"
  shows "fails (fail_kind_of now i p) \<longleftrightarrow> failing (snd (htxd_get_device_run_status now i hdr p))"
proof (cases "he_PID (entry_at p i) = 0")
  case True
  then show ?thesis using assms
    by (simp add: settled_def fails_def failing_def fail_kind_of_def htxd_get_device_run_status_def Let_def)
next
  case False
  show ?thesis
  proof (cases "0 < he_no_of_errs (entry_at p i)")
    case True
    then show ?thesis using assms False
      by (simp add: settled_def fails_def failing_def fail_kind_of_def htxd_get_device_run_status_def Let_def)
  next
    case False
    then show ?thesis using assms \<open>he_PID (entry_at p i) \<noteq> 0\<close>
      by (auto simp add: settled_def fails_def failing_def fail_kind_of_def htxd_get_device_run_status_def Let_def)
  qed
qed

text \<open>C28: The failure status and the status table agree on devices that neither ended in an orderly way nor are halted after
  errors: the failure status of a started ECG is 1 exactly when some device is shown as stopped on an error, died,
  terminated, completed, partially running or hung. They differ on the others: a device that was ended because its run
  time was over is shown as such but makes the failure status 1, and if all devices are suspended the failure status is
  0, whatever errors they have had.\<close>

theorem fail_status_agrees:
  assumes "ei_shm i = Some (hdr, hs)" "ei_shm_entries i \<le> length hs" "hdr_started hdr = 1"
  shows "((\<forall>p<ei_shm_entries i. settled i p) \<longrightarrow>
      fail_status now i = Some (\<exists>p<ei_shm_entries i. failing (snd (htxd_get_device_run_status now i hdr p)))) \<and>
    (\<forall>p<ei_shm_entries i. he_PID (entry_at p i) = 0 \<and> he_DR_term (entry_at p i) \<noteq> 1 \<and> he_test_run_period_expired (entry_at p i) = 1 \<longrightarrow>
      htxd_get_device_run_status now i hdr p = (0, Some ''RT'') \<and> fail_status now i = Some True) \<and>
    ((\<forall>p<ei_shm_entries i. he_PID (entry_at p i) \<noteq> 0 \<and> htxd_get_device_run_sem_status (ei_sems i) p \<noteq> 0) \<longrightarrow>
      fail_status now i = Some False)"
proof -
  note f = fail_status_any [OF assms, of now]
  have "fails (fail_kind_of now i p)" if "he_PID (entry_at p i) = 0" for p
    using that by (simp add: fails_def fail_kind_of_def Let_def)
  moreover have "\<not> fails (fail_kind_of now i p)"
    if "he_PID (entry_at p i) \<noteq> 0" "htxd_get_device_run_sem_status (ei_sems i) p \<noteq> 0" for p
    using that by (simp add: fails_def fail_kind_of_def Let_def)
  moreover have "htxd_get_device_run_status now i hdr p = (0, Some ''RT'')"
    if "he_PID (entry_at p i) = 0" "he_DR_term (entry_at p i) \<noteq> 1" "he_test_run_period_expired (entry_at p i) = 1" for p
    using that assms(3) by (simp add: htxd_get_device_run_status_def Let_def)
  ultimately show ?thesis using settled_agrees [OF _ assms(3), of i _ now] by (simp add: f) blast
qed

definition sample_report :: ecg_info where
  "sample_report = sample_info\<lparr>ei_shm := Some ((new_header 2 2 0)\<lparr>hdr_started := 1\<rparr>,
       [zero_HE\<lparr>he_sdev_id := ''mem0'', he_PID := 7, he_tm_last_upd := 5, he_max_run_tm := 100, he_cycles := 3\<rparr>,
        zero_HE\<lparr>he_sdev_id := ''mem1''\<rparr>]),
     ei_shm_entries := 2, ei_sems := replicate 12 0\<rparr>"

lemmas sample_report_eval = sample_report_def entry_at_def htxd_get_device_error_sem_status_def
  htxd_get_device_run_sem_status_def htxd_get_global_activate_halt_sem_status_def semctl_GETVAL_def zero_HE_def run_index_def Let_def

theorem fail_status_agrees_witness: "fail_status 6 sample_report = Some True"
proof -
  obtain hdr hs where s: "ei_shm sample_report = Some (hdr, hs)" "ei_shm_entries sample_report \<le> length hs" "hdr_started hdr = 1"
    by (simp add: sample_report_def)
  have n: "ei_shm_entries sample_report = 2" by (simp add: sample_report_def)
  have "settled sample_report p" if "p < 2" for p
    using that by (auto simp: settled_def sample_report_eval numeral_2_eq_2 less_Suc_eq)
  moreover have "failing (snd (htxd_get_device_run_status 6 sample_report hdr 1))"
    using s(3) by (simp add: htxd_get_device_run_status_def sample_report_eval failing_def)
  then have "\<exists>p<2. failing (snd (htxd_get_device_run_status 6 sample_report hdr p))" by (intro exI [of _ 1]) simp
  ultimately show ?thesis using fail_status_agrees [OF s, of 6] unfolding n by simp
qed

subsection \<open>The summary counts every device once\<close>

definition statuses :: "int \<Rightarrow> ecg_info \<Rightarrow> htxshm_hdr \<Rightarrow> string list" where
  "statuses now i hdr = map (\<lambda>p. the (snd (htxd_get_device_run_status now i hdr p))) [0..<ei_shm_entries i]"

definition summary_of :: "string list \<Rightarrow> ecg_summary" where
  "summary_of sts =
     \<lparr>running_device = count_list sts ''RN'', suspended_device = count_list sts ''ST'', error_device = count_list sts ''ER'',
      partially_running_device = count_list sts ''PR'', terminated_device = count_list sts ''TM'',
      died_device = count_list sts ''DD'', hung_device = count_list sts ''HG'', completed_device = count_list sts ''CP'',
      inactive_device = 0\<rparr>"

lemma fold_count_status: "fold count_status sts (summary_of ss) = summary_of (ss @ sts)"
proof (induction sts arbitrary: ss)
  case (Cons st sts)
  have "count_status st (summary_of ss) = summary_of (ss @ [st])"
    by (simp add: count_status_def summary_of_def)
  then show ?case using Cons [of "ss @ [st]"] by simp
qed simp

lemma summary_loop_all:
  "\<forall>p\<in>set ps. status p \<noteq> None \<and> status p \<noteq> Some ''  '' \<Longrightarrow>
     summary_loop status n ps old s = Some (fold count_status (map (\<lambda>p. the (status p)) ps) s)"
  by (induction ps arbitrary: old s) auto

lemma status_values:
  "htxd_get_device_run_status now i hdr p = (rc, Some st) \<Longrightarrow>
     st \<in> {''  '', ''RN'', ''ST'', ''ER'', ''PR'', ''TM'', ''DD'', ''HG'', ''CP'', ''DT'', ''RT'', ''SD''}"
  by (auto simp: htxd_get_device_run_status_def Let_def split: if_splits)



subsection \<open>Cycles and environment\<close>

lemma cycles_loop_sum:
  "cycles_loop True name hs (found, n) =
     (found \<or> (\<exists>h\<in>set hs. strncmp (he_sdev_id h) name (length name) = 0),
      n + (\<Sum>h\<leftarrow>filter (\<lambda>h. strncmp (he_sdev_id h) name (length name) = 0) hs. he_cycles h + (if he_test_id h \<noteq> 0 then 1 else 0)))"
  by (induction hs arbitrary: found n) (auto simp: add.assoc)

lemma cycles_loop_waiting:
  "cycles_loop False name hs (found, n) = (found \<or> (\<exists>h\<in>set hs. strncmp (he_sdev_id h) name (length name) = 0), n)"
  by (induction hs arbitrary: found n) auto

definition is_word :: "string \<Rightarrow> bool" where
  "is_word w \<longleftrightarrow> w \<noteq> [] \<and> length w < 128 \<and> (\<forall>c\<in>set w. \<not> isspace c)"

lemma scan_word_first:
  assumes "is_word w"
  shows "scan_word w = (w, [])" "isspace c \<Longrightarrow> scan_word (w @ c # l) = (w, c # l)" "isspace c \<Longrightarrow> scan_word (c # w) = (w, [])"
  using assms
  by (auto simp: is_word_def scan_word_def Let_def dropWhile_append1 takeWhile_append2 dropWhile_append2 takeWhile_eq_all_conv
      dropWhile_eq_Nil_conv neq_Nil_conv)

text \<open>C39: A variable set through the daemon is read back with the same value, for all names and values that are words of less
  than 128 characters without an equals sign in the name; every other variable, and all else of the daemon, stays as
  it was.\<close>

theorem env_round_trip:
  assumes "is_word name" "CHR ''='' \<notin> set name" "is_word v"
  shows "\<exists>t d'. htxd_option_method_set_htx_env \<lparr>c_index = 39, c_ecg_name = e, c_option_list = name @ SP # v\<rparr> d = Some (0, t, d') \<and>
    htxd_option_method_get_htx_env \<lparr>c_index = 40, c_ecg_name = e, c_option_list = name\<rparr> d' =
      Some (0, ''environment variable <'' @ name @ ''> value is <'' @ v @ ''>'', d') \<and>
    d' = d\<lparr>d_env := d_env d'\<rparr> \<and> (\<forall>other. other \<noteq> name \<longrightarrow> d_env d' other = d_env d other)"
proof -
  note w = scan_word_first(2) [OF assms(1), of SP v] scan_word_first(3) [OF assms(3), of SP] scan_word_first(1) [OF assms(1)]
  have n: "name \<noteq> []" "length name < 128" "length v < 128" using assms by (auto simp: is_word_def)
  let ?d = "d\<lparr>d_env := (d_env d)(name \<mapsto> v)\<rparr>"
  have "htxd_option_method_set_htx_env \<lparr>c_index = 39, c_ecg_name = e, c_option_list = name @ SP # v\<rparr> d =
      Some (0, ''environment variable <'' @ name @ ''> is set with <'' @ v @ ''> successfully'', ?d)"
    using n assms(2) by (simp add: htxd_option_method_set_htx_env_def w setenv_def reply_def fits_def)
  moreover have "htxd_option_method_get_htx_env \<lparr>c_index = 40, c_ecg_name = e, c_option_list = name\<rparr> ?d =
      Some (0, ''environment variable <'' @ name @ ''> value is <'' @ v @ ''>'', ?d)"
    using n by (simp add: htxd_option_method_get_htx_env_def w reply_def fits_def)
  ultimately show ?thesis by (intro exI conjI) auto
qed

theorem env_round_trip_witness:
  "\<exists>t d'. htxd_option_method_set_htx_env \<lparr>c_index = 39, c_ecg_name = [], c_option_list = ''TZ UTC''\<rparr> sample_daemon = Some (0, t, d') \<and>
     htxd_option_method_get_htx_env \<lparr>c_index = 40, c_ecg_name = [], c_option_list = ''TZ''\<rparr> d' =
       Some (0, ''environment variable <TZ> value is <UTC>'', d')"
proof -
  have "is_word ''TZ''" "CHR ''='' \<notin> set ''TZ''" "is_word ''UTC''" by (auto simp: is_word_def isspace_def code_def)
  from env_round_trip [OF this, of "[]" sample_daemon] show ?thesis by auto
qed

lemma dev_cycles_answer:
  assumes "is_word name" "ei_shm i = Some (hdr, hs)" "ei_shm_entries i \<le> length hs" "hdr_started hdr = 1"
    and "hits = filter (\<lambda>h. strncmp (he_sdev_id h) name (length name) = 0) (take (ei_shm_entries i) hs)"
  shows "dev_cycles name i =
    Some (if hits = [] then (- 1, ''Device name prefix('' @ name @ '') is NOT found'')
          else (0, name @ '' = '' @ show_int (sint (\<Sum>h\<leftarrow>hits. he_cycles h + (if he_test_id h \<noteq> 0 then 1 else 0)))))"
  using assms scan_word_first(1) [OF assms(1)]
  by (auto simp: dev_cycles_def entries_of_def cycles_loop_sum is_word_def fits_def filter_empty_conv)

subsection \<open>Reports change nothing\<close>

lemma reply_daemon: "reply sz rc t d = Some (rc', t', d') \<Longrightarrow> d' = d"
  by (auto simp: reply_def split: bind_splits)

lemma report_method_daemon: "report_method unknown c d body = Some (rc, t, d') \<Longrightarrow> d' = d"
  by (auto simp: report_method_def Let_def split: if_splits bind_splits option.splits dest: reply_daemon)

lemma reports_keep:
  "htxd_option_method_exersetupinfo c d = Some (rc, t, d') \<Longrightarrow> d' = d"
  "htxd_option_method_get_run_time now c d = Some (rc, t, d') \<Longrightarrow> d' = d"
  "htxd_option_method_get_last_update_time ck date c d = Some (rc, t, d') \<Longrightarrow> d' = d"
  "htxd_option_method_get_fail_status now c d = Some (rc, t, d') \<Longrightarrow> d' = d"
  "htxd_option_method_get_dev_cycles c d = Some (rc, t, d') \<Longrightarrow> d' = d"
  "htxd_option_method_screen_5 ck errs c d = Some (rc, t, d') \<Longrightarrow> d' = d"
  by (auto simp: htxd_option_method_exersetupinfo_def htxd_option_method_get_run_time_def
      htxd_option_method_get_last_update_time_def htxd_option_method_get_fail_status_def
      htxd_option_method_get_dev_cycles_def htxd_option_method_screen_5_def
      dest: report_method_daemon reply_daemon split: bind_splits)

lemma getecgsum_keeps: "htxd_option_method_getecgsum now c d = Some (rc, t, d') \<Longrightarrow> d' = d"
  by (auto simp: htxd_option_method_getecgsum_def Let_def dest: reply_daemon split: if_splits bind_splits option.splits)

lemma env_commands_keep:
  "env_flag name what c d = Some (rc, t, d') \<Longrightarrow> d' = d\<lparr>d_env := d_env d'\<rparr>"
  "htxd_option_method_set_htx_env c d = Some (rc, t, d') \<Longrightarrow> d' = d\<lparr>d_env := d_env d'\<rparr>"
  "htxd_option_method_get_htx_env c d = Some (rc, t, d') \<Longrightarrow> d' = d\<lparr>d_env := d_env d'\<rparr>"
  by (auto simp: env_flag_def htxd_option_method_set_htx_env_def htxd_option_method_get_htx_env_def Let_def
      dest!: reply_daemon split: if_splits bind_splits option.splits prod.splits)

end
