(* ===== verification/Htxd_Dispatch.thy ===== *)
theory Htxd_Dispatch
  imports Htxd_Report
begin

text \<open>
  The dispatcher of htxd: the option table with its methods (\<open>bin/htxd/htxd_option_list.c\<close>), the admission of a command by
  the state of the daemon (\<open>htxd_process_command.c\<close>), the thread that serves a connection (\<open>htxd_daemon.c\<close>), and the
  daemon as a state machine over commands, the ends of exercisers and the passes of the hang monitor.

  The commands that are not modelled (they print files, run scripts or send raw memory) do not change the state of the
  daemon; their answers are inputs.
\<close>

unbundle bit_operations_syntax

subsection \<open>Two more commands\<close>

text \<open>How the script that makes the MDTs and the count of their stanzas come out.\<close>

datatype create_outcome = Popen_Fails int | Pclose_Fails int | Stanzas int

definition htxd_option_method_create_mdt :: "string \<Rightarrow> create_outcome \<Rightarrow> daemon \<Rightarrow> answer" where
  "htxd_option_method_create_mdt log_dir out d =
     (let d = d\<lparr>d_created := True, d_state := IDLE\<rparr>
      in case out of
           Popen_Fails e \<Rightarrow> reply 512 (- 1) (''Error: popen failed with errno <'' @ show_int e @ ''>'') d
         | Pclose_Fails e \<Rightarrow> reply 512 (- 1) (''Error: pclose failed with errno <'' @ show_int e @ ''>'') d
         | Stanzas n \<Rightarrow>
             if 2 < n then reply 512 0 ''mdts are created successfully.'' d
             else do { t \<leftarrow> fits 300 (''Error: mdt creation is failed, please check error at log file <'' @ log_dir @
                         ''/htxd_bash_profile_output>.'');
                       reply 512 (- 1) t d })"

definition htxd_option_method_refresh :: "int \<Rightarrow> daemon \<Rightarrow> answer" where
  "htxd_option_method_refresh reload d =
     (let n = (case d_mgr d of None \<Rightarrow> 0 | Some m \<Rightarrow> m_length m)
      in if 0 < n then reply 1024 0 (''command failed: <'' @ show_int n @
           ''> MDT(s) are running currently, stop all MDTs before system refresh'') d
         else reply 1024 reload
           (if reload = 0 then ''system refresh is completed successfully'' else ''refresh command failed'') d)"

subsection \<open>The option table with its methods\<close>

text \<open>What a command meets: the system, the clock, and the answers of the commands that are not modelled.\<close>

record world =
  w_sys :: sys
  w_dev :: dev_sys
  w_clock :: clock
  w_date :: "int \<Rightarrow> string"
  w_error_count :: int
  w_looks :: "nat \<Rightarrow> sems \<times> htxshm_HE list"
  w_log_dir :: string
  w_create :: create_outcome
  w_reload :: int
  w_other :: "nat \<Rightarrow> htxd_command \<Rightarrow> daemon \<Rightarrow> (int \<times> string) fault"

definition option_method :: "world \<Rightarrow> nat \<Rightarrow> htxd_command \<Rightarrow> daemon \<Rightarrow> answer" where
  "option_method w ix c d =
     (if ix = 0 then htxd_option_method_create_mdt (w_log_dir w) (w_create w) d
      else if ix = 2 then htxd_option_method_run_mdt (w_sys w) (c_ecg_name c) d
      else if ix = 3 then htxd_option_method_getactecg d
      else if ix = 4 then htxd_option_method_shutdown_mdt (w_sys w) (c_ecg_name c) d
      else if ix = 5 then htxd_option_method_refresh (w_reload w) d
      else if ix = 6 then htxd_option_method_activate c d
      else if ix = 7 then htxd_option_method_suspend (w_dev w) c d
      else if ix = 8 then htxd_option_method_terminate (w_dev w) c d
      else if ix = 9 then htxd_option_method_restart (w_dev w) c d
      else if ix = 10 then htxd_option_method_coe c d
      else if ix = 11 then htxd_option_method_soe c d
      else if ix = 12 then htxd_option_method_status (w_clock w) c d
      else if ix = 17 then htxd_option_method_set_eeh c d
      else if ix = 18 then htxd_option_method_set_kdblevel c d
      else if ix = 21 then htxd_option_method_getecgsum (fst (w_clock w)) c d
      else if ix = 23 then htxd_option_method_select_mdt (w_sys w) (c_ecg_name c) d
      else if ix = 24 then htxd_option_method_exersetupinfo c d
      else if ix = 26 then htxd_option_method_query (w_clock w) c d
      else if ix = 29 then htxd_option_method_screen_5 (w_clock w) (w_error_count w) c d
      else if ix = 31 then htxd_option_method_get_daemon_state d
      else if ix = 32 then htxd_option_method_coe_soe c d
      else if ix = 33 then htxd_option_method_activate_halt c d
      else if ix = 34 then htxd_option_method_device_count d
      else if ix = 35 then htxd_option_method_test_activate_halt (y_max_add (w_sys w)) (w_looks w) d
      else if ix = 39 then htxd_option_method_set_htx_env c d
      else if ix = 40 then htxd_option_method_get_htx_env c d
      else if ix = 41 then htxd_option_method_get_run_time (fst (w_clock w)) c d
      else if ix = 42 then htxd_option_method_get_last_update_time (w_clock w) (w_date w) c d
      else if ix = 43 then htxd_option_method_get_fail_status (fst (w_clock w)) c d
      else if ix = 44 then htxd_option_method_get_dev_cycles c d
      else do { (rc, t) \<leftarrow> w_other w ix c d; Some (rc, t, d) })"

subsection \<open>Processing a command\<close>

definition htxd_get_daemon_state_string :: "nat \<Rightarrow> string" where
  "htxd_get_daemon_state_string st =
     (if st = IDLE then ''IDLE'' else if st = CREATING_MDT then ''CREATING_MDT''
      else if st = SELECTING_MDT then ''SELECTING_MDT'' else if st = SELECTED_MDT then ''SELECTED_MDT''
      else if st = STARTING_MDT then ''STARTING_MDT'' else if st = RUNNING_MDT then ''RUNNING_MDT''
      else if st = SHUTTING_DOWN_MDT then ''SHUTTING_DOWN_MDT'' else ''UNKNOWN_STATE'')"

text \<open>The heading with the names of the loaded ECGs, built in 512 characters per ECG.\<close>

definition running_heading :: "daemon \<Rightarrow> string fault" where
  "running_heading d =
     (case d_mgr d of
        None \<Rightarrow> Some ''No MDT/ECG is currently running''
      | Some m \<Rightarrow>
          if m_length m \<le> 0 then Some ''No MDT/ECG is currently running''
          else do { l \<leftarrow> htxd_get_running_ecg_list m;
                    if m_length m * 512 \<le> int (length l) + 2 then None else Some l })"

text \<open>The number in the command is used as an index without a test.\<close>

definition htxd_process_command :: "world \<Rightarrow> htxd_command \<Rightarrow> daemon \<Rightarrow> answer" where
  "htxd_process_command w c d =
     (if c_index c < 0 \<or> int (length option_list) \<le> c_index c then None
      else
        (let ix = nat (c_index c); e = option_list ! ix
         in if d_state d AND command_state e = 0 then
              reply 1000 (- 1) (''Daemon state is <'' @ htxd_get_daemon_state_string (d_state d) @ ''>, command option <'' @
                option_string e @ ''> is not supported at this daemon state'') d
            else do {
              (rc, t, d) \<leftarrow> option_method w ix c d;
              if \<not> running_ecg_display_flag e then Some (rc, t, d)
              else do { l \<leftarrow> running_heading d;
                        Some (rc, ''Currently running ECG/MDT : '' @ l @ [NL] @ ''==========================='' @ [NL] @ t, d) } }))"

text \<open>The thread of a connection: the bytes it sends back, if any. \<open>past\<close> is the memory behind the result, \<open>err\<close> the error
  number at hand.\<close>

definition htxd_command_thraead_handler ::
  "world \<Rightarrow> string \<Rightarrow> int \<Rightarrow> piece list \<Rightarrow> daemon \<Rightarrow> (string option \<times> daemon) fault" where
  "htxd_command_thraead_handler w past err ps d =
     do { (buf, ps) \<leftarrow> htxd_receive_command ps;
          case buf of
            None \<Rightarrow> Some (None, d)
          | Some s \<Rightarrow>
              if htxd_verify_command_buffer_format buf \<noteq> 0
              then Some (Some (htxd_send_response HTXCMDLINE_COMMAND past
                     (''Error while receiving command, errno <'' @ show_int err @ ''>'') (- 1)), d)
              else do { c \<leftarrow> htxd_update_command_object (y_home (w_sys w)) s;
                        (rc, t, d) \<leftarrow> htxd_process_command w c d;
                        Some (Some (htxd_send_response (command_type (option_list ! nat (c_index c))) past t rc), d) } }"

subsection \<open>What a command keeps of the list of ECGs\<close>

text \<open>The same nodes, linked in the same way, with the same names.\<close>

definition keeps_list :: "ecg_manager \<Rightarrow> ecg_manager \<Rightarrow> bool" where
  "keeps_list m m' \<longleftrightarrow>
     m_list m' = m_list m \<and> m_length m' = m_length m \<and> m_current m' = m_current m \<and> m_selected m' = m_selected m \<and>
     m_running m' = m_running m \<and>
     (\<forall>a. map_option (\<lambda>n. (n_next n, n_prev n, ei_name (n_info n))) (m_heap m' a) =
          map_option (\<lambda>n. (n_next n, n_prev n, ei_name (n_info n))) (m_heap m a))"

definition keeps :: "daemon \<Rightarrow> daemon \<Rightarrow> bool" where
  "keeps d d' \<longleftrightarrow> d_state d' = d_state d \<and> rel_option keeps_list (d_mgr d) (d_mgr d')"

lemma keeps_list_refl [simp]: "keeps_list m m"
  by (simp add: keeps_list_def)

lemma keeps_list_trans: "keeps_list m m' \<Longrightarrow> keeps_list m' m'' \<Longrightarrow> keeps_list m m''"
  by (simp add: keeps_list_def)

lemma keeps_refl [simp]: "keeps d d"
  by (simp add: keeps_def option.rel_refl)

lemma keeps_seg:
  "keeps_list m m' \<Longrightarrow> seg (m_heap m') prev p xs q = seg (m_heap m) prev p xs q"
proof (induction xs arbitrary: prev p)
  case (Cons a xs)
  have "map_option (\<lambda>n. (n_next n, n_prev n, ei_name (n_info n))) (m_heap m' a) =
      map_option (\<lambda>n. (n_next n, n_prev n, ei_name (n_info n))) (m_heap m a)"
    using Cons.prems by (simp add: keeps_list_def)
  then show ?case using Cons by (cases "m_heap m a"; cases "m_heap m' a") auto
qed simp

lemma keeps_manages: "keeps_list m m' \<Longrightarrow> manages m' xs = manages m xs"
  by (auto simp: manages_def keeps_seg) (simp_all add: keeps_list_def)

lemma set_info_keeps:
  assumes "set_info a i m = Some m'" "m_heap m a = Some n" "ei_name i = ei_name (n_info n)"
  shows "keeps_list (m\<lparr>m_table := tbl\<rparr>) m' \<and> keeps_list m m'"
  using assms by (auto simp: set_info_Some keeps_list_def)

subsection \<open>The device commands keep the list\<close>

text \<open>An action that keeps the name of its ECG.\<close>

definition names_ecg :: "(site \<Rightarrow> string \<Rightarrow> (int \<times> site \<times> string) fault) \<Rightarrow> bool" where
  "names_ecg act \<longleftrightarrow> (\<forall>s l rc s' l'. act s l = Some (rc, s', l') \<longrightarrow> ei_name (s_info s') = ei_name (s_info s))"

lemma for_names_name:
  assumes "\<And>p s. ei_name (s_info (snd (act p s))) = ei_name (s_info s)"
  shows "for_names act ns (rc, s) = Some (rc', s') \<Longrightarrow> ei_name (s_info s') = ei_name (s_info s)"
proof (induction ns arbitrary: rc s)
  case (Cons n ns)
  then obtain hs where hs: "entries_of (s_info s) = Some hs"
      "for_names act ns (case find_device hs n of None \<Rightarrow> (rc, s) | Some p \<Rightarrow> act p s) = Some (rc', s')"
    by (auto split: bind_splits)
  then show ?case using Cons.IH assms by (cases "find_device hs n") (simp, metis option.simps(5) surjective_pairing)
qed simp

lemma on_devices_names:
  assumes "\<And>p s. ei_name (s_info (snd (act p s))) = ei_name (s_info s)"
  shows "names_ecg (on_devices patterns room act)"
  unfolding names_ecg_def
  by (auto simp: on_devices_def dest!: for_names_name [OF assms] split: bind_splits)

lemma on_all_name:
  assumes "\<And>p s. ei_name (s_info (snd (act p s))) = ei_name (s_info s)"
  shows "ei_name (s_info (on_all act s)) = ei_name (s_info s)"
proof -
  have "ei_name (s_info (fold (\<lambda>p s. snd (act p s)) ps s)) = ei_name (s_info s)" for ps
    by (induction ps arbitrary: s) (simp_all add: assms)
  then show ?thesis by (simp add: on_all_def)
qed

lemma act_names:
  "ei_name (s_info (snd (set_run v p s))) = ei_name (s_info s)"
  "ei_name (s_info (snd (set_coe v p s))) = ei_name (s_info s)"
  "ei_name (s_info (snd (htxd_set_device_terminate_status u p s))) = ei_name (s_info s)"
  "ei_name (s_info (snd (htxd_set_device_restart_status u p s))) = ei_name (s_info s)"
  by (simp_all add: set_run_def set_coe_def set_HE_def htxd_set_device_terminate_status_def
      htxd_set_device_restart_status_def Let_def split_def)

lemma device_acts_names:
  "names_ecg (htxd_activate_device room)" "names_ecg (htxd_suspend_device room)" "names_ecg (htxd_coe_device room)"
  "names_ecg (htxd_soe_device room)" "names_ecg (htxd_terminate_device u)" "names_ecg (htxd_restart_device u)"
  "names_ecg (no_list htxd_activate_all_device)" "names_ecg (no_list htxd_suspend_all_device)"
  "names_ecg (no_list htxd_coe_all_device)" "names_ecg (no_list htxd_soe_all_device)"
  "names_ecg (no_list (htxd_terminate_all_device u))" "names_ecg (no_list (htxd_restart_all_device u))"
  unfolding htxd_activate_device_def htxd_suspend_device_def htxd_coe_device_def htxd_soe_device_def
    htxd_terminate_device_def htxd_restart_device_def
  by (rule on_devices_names, rule act_names)+
    (auto simp: names_ecg_def no_list_def htxd_activate_all_device_def htxd_suspend_all_device_def htxd_coe_all_device_def
      htxd_soe_all_device_def htxd_terminate_all_device_def htxd_restart_all_device_def on_all_name act_names
      split: bind_splits)

lemma at_ecg_keeps:
  assumes "names_ecg act" "at_ecg act a k m l = Some (rc, k', m', l')"
  shows "keeps_list m m'"
proof -
  obtain n s where n: "m_heap m a = Some n"
      "act \<lparr>s_info = n_info n, s_table = m_table m, s_calls = k\<rparr> l = Some (rc, s, l')"
      "set_info a (s_info s) (m\<lparr>m_table := s_table s\<rparr>) = Some m'"
    using assms(2) by (auto simp: at_ecg_def split: bind_splits)
  have "ei_name (s_info s) = ei_name (s_info \<lparr>s_info = n_info n, s_table = m_table m, s_calls = k\<rparr>)"
    using assms(1) n(2) unfolding names_ecg_def by blast
  then have "ei_name (s_info s) = ei_name (n_info n)" by simp
  then show ?thesis using n(1,3) by (auto simp: set_info_Some keeps_list_def)
qed

lemma each_ecg_keeps:
  assumes "names_ecg act" "each_ecg act p st = Some st'"
  shows "keeps_list (fst (snd (snd st))) (fst (snd (snd st')))"
proof -
  have "names_ecg act \<longrightarrow> keeps_list (fst (snd (snd st))) (fst (snd (snd st')))"
  proof (rule each_ecg.raw_induct [OF _ assms(2)], rule impI)
    fix each act p st st'
    assume ih: "\<And>act p st st'. each act p st = Some st' \<Longrightarrow> names_ecg act \<longrightarrow> keeps_list (fst (snd (snd st))) (fst (snd (snd st')))"
      and eq: "(case p of None \<Rightarrow> Some st | Some a \<Rightarrow> let (rc, k, m, l) = st in do {
          node \<leftarrow> m_heap m a; st \<leftarrow> at_ecg act a k m l; each act (n_next node) st }) = Some st'"
      and act: "names_ecg act"
    show "keeps_list (fst (snd (snd st))) (fst (snd (snd st')))"
    proof (cases p)
      case (Some a)
      obtain rc k m l where st: "st = (rc, k, m, l)" by (cases st)
      obtain node :: ecg_node and st1 where n: "at_ecg act a k m l = Some st1" "each act (n_next node) st1 = Some st'"
        using eq unfolding Some st by (simp add: bind_eq_Some_conv del: split_paired_Ex) blast
      obtain rc1 k1 m1 l1 where st1: "st1 = (rc1, k1, m1, l1)" by (cases st1)
      show ?thesis using at_ecg_keeps [OF act n(1) [unfolded st1]] ih [OF n(2)] act
        by (auto simp: st st1 intro: keeps_list_trans)
    qed (use eq in simp)
  qed
  then show ?thesis using assms(1) by blast
qed

lemma on_target_keeps:
  assumes "names_ecg act" "names_ecg (no_list act_all)" "on_target act act_all target m l = Some (rc, m', l')"
  shows "keeps_list m m'"
  using assms each_ecg_keeps [OF assms(1), of "m_list m" "(0, 0, m, l)"] each_ecg_keeps [OF assms(2), of "m_list m" "(0, 0, m, [])"]
    at_ecg_keeps [OF assms(1)] at_ecg_keeps [OF assms(2)]
  by (auto simp: on_target_def htxd_process_all_active_ecg_device_def htxd_process_all_active_ecg_def
      split: option.splits bind_splits if_splits)

lemma reply_Some: "reply sz rc t d = Some (rc', t', d') \<longleftrightarrow> length t < sz \<and> rc' = rc \<and> t' = t \<and> d' = d"
  by (auto simp: reply_def fits_def)

lemma device_method_keeps:
  assumes "device_method d c body = Some (rc, t, d')"
    and "\<And>m target l rc t d'. d_mgr d = Some m \<Longrightarrow> body m target l = Some (rc, t, d') \<Longrightarrow> keeps d d'"
  shows "keeps d d'"
  using assms by (auto simp: device_method_def Let_def reply_Some split: if_splits bind_splits option.splits)

lemma answer_table_keeps:
  assumes "answer_table mode room rc target shown m' d = Some (rc', t, d')" "d_mgr d = Some m" "keeps_list m m'"
  shows "keeps d d'"
  using assms by (auto simp: answer_table_def reply_Some keeps_def split: bind_splits)

lemma device_commands_keep:
  "htxd_option_method_activate c d = Some (rc, t, d') \<Longrightarrow> keeps d d'"
  "htxd_option_method_suspend u c d = Some (rc, t, d') \<Longrightarrow> keeps d d'"
  "htxd_option_method_terminate u c d = Some (rc, t, d') \<Longrightarrow> keeps d d'"
  "htxd_option_method_restart u c d = Some (rc, t, d') \<Longrightarrow> keeps d d'"
  "htxd_option_method_coe c d = Some (rc, t, d') \<Longrightarrow> keeps d d'"
  "htxd_option_method_soe c d = Some (rc, t, d') \<Longrightarrow> keeps d d'"
  unfolding htxd_option_method_activate_def htxd_option_method_suspend_def htxd_option_method_terminate_def
    htxd_option_method_restart_def htxd_option_method_coe_def htxd_option_method_soe_def Let_def
  by (erule device_method_keeps; auto split: bind_splits; erule answer_table_keeps, assumption;
      rule on_target_keeps; (assumption | rule device_acts_names))+

lemma table_commands_keep:
  "htxd_option_method_status ck c d = Some (rc, t, d') \<Longrightarrow> keeps d d'"
  "htxd_option_method_query ck c d = Some (rc, t, d') \<Longrightarrow> keeps d d'"
  by (auto simp: htxd_option_method_status_def htxd_option_method_query_def reply_Some elim!: device_method_keeps
      split: bind_splits)

lemma toggles_name:
  "htxd_toggle_coe_soe pos mode operation i = Some i' \<Longrightarrow> ei_name i' = ei_name i"
  "htxd_toggle_activate_halt pos mode operation i = Some i' \<Longrightarrow> ei_name i' = ei_name i"
proof -
  have f: "ei_name (fold g ks i) = ei_name i" if "\<And>k i. ei_name (g k i) = ei_name i" for g :: "nat \<Rightarrow> ecg_info \<Rightarrow> ecg_info" and ks i
    using that by (induction ks arbitrary: i) simp_all
  show "htxd_toggle_coe_soe pos mode operation i = Some i' \<Longrightarrow> ei_name i' = ei_name i"
    by (auto simp: htxd_toggle_coe_soe_def set_coe_from_def set_HE_def f split: if_splits bind_splits)
  show "htxd_toggle_activate_halt pos mode operation i = Some i' \<Longrightarrow> ei_name i' = ei_name i"
    by (auto simp: htxd_toggle_activate_halt_def set_run_sem_at_def Let_def f split: if_splits)
qed

lemma screen_method_keeps:
  assumes "screen_method act c d = Some (rc, t, d')"
    and "\<And>pos mode operation i i'. act pos mode operation i = Some i' \<Longrightarrow> ei_name i' = ei_name i"
  shows "keeps d d'"
  using assms(1)
  by (auto simp: screen_method_def Let_def reply_Some keeps_def set_info_Some keeps_list_def option.rel_refl dest!: assms(2)
      split: if_splits bind_splits)

lemma other_commands_keep:
  "htxd_option_method_getactecg d = Some (rc, t, d') \<Longrightarrow> keeps d d'"
  "htxd_option_method_refresh r d = Some (rc, t, d') \<Longrightarrow> keeps d d'"
  "htxd_option_method_get_daemon_state d = Some (rc, t, d') \<Longrightarrow> keeps d d'"
  "htxd_option_method_device_count d = Some (rc, t, d') \<Longrightarrow> keeps d d'"
  "htxd_option_method_coe_soe c d = Some (rc, t, d') \<Longrightarrow> keeps d d'"
  "htxd_option_method_activate_halt c d = Some (rc, t, d') \<Longrightarrow> keeps d d'"
  by (auto simp: htxd_option_method_getactecg_def htxd_option_method_refresh_def htxd_option_method_get_daemon_state_def
      htxd_option_method_device_count_def htxd_option_method_coe_soe_def htxd_option_method_activate_halt_def reply_Some
      Let_def split: if_splits bind_splits intro: screen_method_keeps toggles_name)

lemma halt_command_keeps:
  "htxd_option_method_test_activate_halt add looks d = Some (rc, t, d') \<Longrightarrow> keeps d d'"
  by (auto simp: htxd_option_method_test_activate_halt_def Let_def reply_Some keeps_def set_info_Some keeps_list_def
      split: if_splits bind_splits)

lemma env_keeps: "d' = d\<lparr>d_env := e\<rparr> \<Longrightarrow> keeps d d'"
  by (simp add: keeps_def option.rel_refl)

lemma report_commands_keep:
  "htxd_option_method_exersetupinfo c d = Some (rc, t, d') \<Longrightarrow> keeps d d'"
  "htxd_option_method_get_run_time now c d = Some (rc, t, d') \<Longrightarrow> keeps d d'"
  "htxd_option_method_get_last_update_time ck date c d = Some (rc, t, d') \<Longrightarrow> keeps d d'"
  "htxd_option_method_get_fail_status now c d = Some (rc, t, d') \<Longrightarrow> keeps d d'"
  "htxd_option_method_get_dev_cycles c d = Some (rc, t, d') \<Longrightarrow> keeps d d'"
  "htxd_option_method_screen_5 ck errs c d = Some (rc, t, d') \<Longrightarrow> keeps d d'"
  "htxd_option_method_getecgsum now c d = Some (rc, t, d') \<Longrightarrow> keeps d d'"
  by (auto simp: keeps_def option.rel_refl dest!: reports_keep getecgsum_keeps)

lemma env_commands_keep_list:
  "htxd_option_method_set_eeh c d = Some (rc, t, d') \<Longrightarrow> keeps d d'"
  "htxd_option_method_set_kdblevel c d = Some (rc, t, d') \<Longrightarrow> keeps d d'"
  "htxd_option_method_set_htx_env c d = Some (rc, t, d') \<Longrightarrow> keeps d d'"
  "htxd_option_method_get_htx_env c d = Some (rc, t, d') \<Longrightarrow> keeps d d'"
  unfolding htxd_option_method_set_eeh_def htxd_option_method_set_kdblevel_def
  by (rule env_keeps, erule env_commands_keep)+

text \<open>Apart from creating MDTs, and running, selecting and shutting one down, no command changes the state of the daemon or
  its list of ECGs.\<close>

lemma option_method_keeps:
  assumes "option_method w ix c d = Some (rc, t, d')" "ix \<notin> {0, 2, 4, 23}"
  shows "keeps d d'"
  using assms
  by (auto simp: option_method_def split: if_splits bind_splits
      dest: device_commands_keep table_commands_keep other_commands_keep halt_command_keeps
      report_commands_keep env_commands_keep_list)

subsection \<open>The daemon holds at most one ECG\<close>

definition one_mdt :: "ecg_manager \<Rightarrow> string \<Rightarrow> bool" where
  "one_mdt m name \<longleftrightarrow>
     (\<exists>a n. manages m [a] \<and> m_current m = Some a \<and> m_heap m a = Some n \<and> ei_name (n_info n) = name)"

text \<open>Between commands an idle daemon has no manager, and one that is not idle has a manager with exactly one ECG: the
  selected or running one, or one whose start was given up.\<close>

definition daemon_ok :: "daemon \<Rightarrow> bool" where
  "daemon_ok d \<longleftrightarrow>
     (case d_mgr d of
        None \<Rightarrow> d_state d = IDLE
      | Some m \<Rightarrow>
          d_state d = SELECTED_MDT \<and> one_mdt m (m_selected m) \<or> d_state d = RUNNING_MDT \<and> one_mdt m (m_running m) \<or>
          d_state d = STARTING_MDT \<and> (\<exists>name. one_mdt m name))"

lemma keeps_one:
  assumes "keeps_list m m'" "one_mdt m name"
  shows "one_mdt m' name"
proof -
  obtain a n where a: "manages m [a]" "m_current m = Some a" "m_heap m a = Some n" "ei_name (n_info n) = name"
    using assms(2) by (auto simp: one_mdt_def)
  have "map_option (\<lambda>n. (n_next n, n_prev n, ei_name (n_info n))) (m_heap m' a) = Some (n_next n, n_prev n, name)"
    using assms(1) a(3,4) by (simp add: keeps_list_def)
  moreover have "m_current m' = Some a" using assms(1) a(2) by (simp add: keeps_list_def)
  ultimately show ?thesis using keeps_manages [OF assms(1)] a(1) by (auto simp: one_mdt_def)
qed

lemma keeps_ok:
  assumes "keeps d d'" "daemon_ok d"
  shows "daemon_ok d'"
proof (cases "d_mgr d")
  case None
  then show ?thesis using assms by (simp add: keeps_def daemon_ok_def)
next
  case (Some m)
  then obtain m' where m': "d_mgr d' = Some m'" "keeps_list m m'" using assms(1) by (auto simp: keeps_def option_rel_Some1)
  then have "m_selected m' = m_selected m" "m_running m' = m_running m" by (simp_all add: keeps_list_def)
  then show ?thesis using assms Some m' keeps_one [OF m'(2)] by (auto simp: keeps_def daemon_ok_def)
qed

lemma activate_all_keeps:
  "htxd_activate_all_ecg_devices y m = Some m' \<Longrightarrow> keeps_list m m'"
  by (auto simp: htxd_activate_all_ecg_devices_def Let_def set_info_Some keeps_list_def split: bind_splits if_splits prod.splits)

lemma keeps_running:
  "one_mdt m name \<Longrightarrow> one_mdt (m\<lparr>m_running := r\<rparr>) name" "one_mdt m name \<Longrightarrow> one_mdt (m\<lparr>m_selected := r\<rparr>) name"
  by (simp_all add: one_mdt_def manages_def)

lemma run_loaded_ok:
  assumes "run_loaded y name m d = Some (rc, t, d')" "one_mdt m name"
  shows "daemon_ok d'"
proof -
  obtain a n m1 where a: "m_current m = Some a" "m_heap m a = Some n"
      "set_info a ((n_info n)\<lparr>ei_run_start_time := wrap32 (y_time y)\<rparr>) m = Some m1"
    using assms(1) by (auto simp: run_loaded_def split: bind_splits)
  have m1: "one_mdt m1 name" using set_info_keeps [OF a(3,2)] keeps_one [OF _ assms(2)] by simp
  show ?thesis
  proof (cases "\<not> d_syscfg d \<and> y_syscfg y \<noteq> 0")
    case True
    then show ?thesis using assms(1) a m1 by (auto simp: run_loaded_def reply_Some Let_def daemon_ok_def)
  next
    case False
    then obtain m2 d2 n2 where s: "htxd_activate_all_ecg_devices y m1 = Some m2"
        "htxd_load_hxstats y (d\<lparr>d_state := STARTING_MDT, d_mgr := Some m1, d_syscfg := True,
           d_mgr := Some (m2\<lparr>m_running := name\<rparr>)\<rparr>) = Some d2"
        "d_mgr d' = d_mgr (htxd_start_equaliser y n2 d2)" "d_state d' = RUNNING_MDT"
      using assms(1) a by (auto simp: run_loaded_def reply_Some Let_def split: bind_splits)
    have "one_mdt (m2\<lparr>m_running := name\<rparr>) name" using keeps_one [OF activate_all_keeps [OF s(1)] m1] by (rule keeps_running)
    then show ?thesis using s(3,4) load_hxstats_frame [OF s(2)] by (simp add: daemon_ok_def)
  qed
qed

lemma init_ecg_info_one:
  assumes "y_sem_id y \<noteq> - 1" "y_shm_ok y" "htxd_init_ecg_info y name off (htxd_init_ecg_manager (\<lambda>_. None)) = Some (rc, off', m)"
  shows "one_mdt m name"
  using init_ecg_info_effect [OF manages_init _ assms(1,2,3)] by (auto simp: one_mdt_def loaded_def)

lemma run_mdt_ok:
  assumes "htxd_option_method_run_mdt y name d = Some (rc, t, d')" "daemon_ok d" "d_state d = IDLE \<or> d_state d = SELECTED_MDT"
    and "y_sem_id y \<noteq> - 1" "y_shm_ok y"
  shows "daemon_ok d'"
proof (cases "d_mgr d")
  case None
  then have st: "d_state d = IDLE" using assms(2) by (simp add: daemon_ok_def)
  show ?thesis
  proof (cases "y_exists y")
    case False
    then show ?thesis using assms(1) None st
      by (auto simp: htxd_option_method_run_mdt_def Let_def reply_Some daemon_ok_def)
  next
    case True
    have "htxd_get_ecg_info_node (htxd_init_ecg_manager (\<lambda>_. None)) n = Some None" for n
      by (simp add: htxd_get_ecg_info_node_def htxd_init_ecg_manager_def find_node.simps)
    then obtain rc' off m d1 where i: "htxd_init_ecg_info y (mdt_name y name) (d_key_off d) (htxd_init_ecg_manager (\<lambda>_. None)) =
        Some (rc', off, m)" "run_loaded y (mdt_name y name) m d1 = Some (rc, t, d')"
      using assms(1) True None st
      by (auto simp: htxd_option_method_run_mdt_def Let_def create_ecg_manager_def split: bind_splits)
    show ?thesis using run_loaded_ok [OF i(2)] init_ecg_info_one [OF assms(4,5) i(1)] by simp
  qed
next
  case (Some m)
  then have st: "d_state d = SELECTED_MDT" "one_mdt m (m_selected m)" using assms(2,3) by (auto simp: daemon_ok_def)
  show ?thesis
  proof (cases "y_exists y \<and> mdt_name y name = m_selected m")
    case False
    then show ?thesis using assms(1) Some st
      by (auto simp: htxd_option_method_run_mdt_def Let_def reply_Some daemon_ok_def create_ecg_manager_def split: if_splits)
  next
    case True
    then obtain d1 where "run_loaded y (mdt_name y name) (m\<lparr>m_selected := []\<rparr>) d1 = Some (rc, t, d')"
      using assms(1) Some st by (auto simp: htxd_option_method_run_mdt_def Let_def create_ecg_manager_def)
    then show ?thesis using run_loaded_ok keeps_running(2) [OF st(2)] True by simp
  qed
qed

lemma select_mdt_ok:
  assumes "htxd_option_method_select_mdt y name d = Some (rc, t, d')" "daemon_ok d" "d_state d = IDLE"
    and "y_sem_id y \<noteq> - 1" "y_shm_ok y"
  shows "daemon_ok d'"
proof -
  have None: "d_mgr d = None" using assms(2,3) by (auto simp: daemon_ok_def split: option.splits)
  show ?thesis
  proof (cases "y_exists y")
    case False
    then show ?thesis using assms(1,3) None
      by (auto simp: htxd_option_method_select_mdt_def Let_def reply_Some daemon_ok_def)
  next
    case True
    have "htxd_get_ecg_info_node (htxd_init_ecg_manager (\<lambda>_. None)) n = Some None" for n
      by (simp add: htxd_get_ecg_info_node_def htxd_init_ecg_manager_def find_node.simps)
    then obtain rc' off m where i: "htxd_init_ecg_info y (mdt_name y name) (d_key_off d) (htxd_init_ecg_manager (\<lambda>_. None)) =
        Some (rc', off, m)" "d_mgr d' = Some (m\<lparr>m_selected := mdt_name y name\<rparr>)" "d_state d' = SELECTED_MDT"
      using assms(1,3) True None
      by (auto simp: htxd_option_method_select_mdt_def Let_def create_ecg_manager_def reply_Some split: bind_splits)
    have "one_mdt (m\<lparr>m_selected := mdt_name y name\<rparr>) (mdt_name y name)"
      using init_ecg_info_one [OF assms(4,5) i(1)] by (rule keeps_running)
    then show ?thesis using i(2,3) by (simp add: daemon_ok_def)
  qed
qed

lemma shutdown_mdt_ok:
  assumes "htxd_option_method_shutdown_mdt y name d = Some (rc, t, d')" "daemon_ok d"
  shows "daemon_ok d'"
proof (cases "d' = d")
  case False
  then obtain m where m: "d_mgr d = Some m" using assms(1)
    by (auto simp: htxd_option_method_shutdown_mdt_def reply_Some split: if_splits bind_splits)
  then obtain a n where a: "manages m [a]" "m_heap m a = Some n" using assms(2) by (auto simp: daemon_ok_def one_mdt_def)
  have "m_length m = 1" using a(1) by (simp add: manages_def)
  then have "d_mgr d' = None \<and> d_state d' = IDLE"
    using assms(1) False m a(2) find_last_one [OF a]
    by (auto simp: htxd_option_method_shutdown_mdt_def reply_Some htxd_remove_ecg_info_node_def htxd_unload_exercisers_def
        htxd_idle_daemon_def Let_def split: if_splits bind_splits)
  then show ?thesis by (simp add: daemon_ok_def)
qed (use assms(2) in simp)

subsection \<open>The state machine of the daemon\<close>

text \<open>The table's states of the four commands that change the state of the daemon.\<close>

lemma command_states:
  "command_state (option_list ! 0) = IDLE" "command_state (option_list ! 2) = IDLE_SELECTED"
  "command_state (option_list ! 4) = SELECTED_RUNNING" "command_state (option_list ! 23) = IDLE"
  by (simp_all add: option_list_def opt_def)

lemma process_command_cases:
  assumes "htxd_process_command w c d = Some (rc, t, d')"
  obtains "rc = - 1" "d' = d"
  | ix rc' t' where "ix = nat (c_index c)" "ix < length option_list" "d_state d AND command_state (option_list ! ix) \<noteq> 0"
      "option_method w ix c d = Some (rc', t', d')"
  using assms by (auto simp: htxd_process_command_def Let_def reply_Some split: if_splits bind_splits)

text \<open>A step of the daemon: a command, while semaphores and shared memory can be had; the end of an exerciser; a pass of the
  hang monitor; and what the exercisers write to the shared memory and the semaphores of an ECG.\<close>

inductive daemon_step :: "daemon \<Rightarrow> daemon \<Rightarrow> bool" where
  command: "htxd_process_command w c d = Some (rc, t, d') \<Longrightarrow> y_sem_id (w_sys w) \<noteq> - 1 \<Longrightarrow> y_shm_ok (w_sys w) \<Longrightarrow>
    daemon_step d d'"
| exit: "d_mgr d = Some m \<Longrightarrow> m_heap m a = Some n \<Longrightarrow> ei_shm (n_info n) = Some (hdr, hs) \<Longrightarrow>
    htxd_reset_exer_pid (d_ecg_shutdown d) pid reason (m_table m) hs = Some (msg, tbl, hs') \<Longrightarrow>
    set_info a ((n_info n)\<lparr>ei_shm := Some (hdr, hs')\<rparr>) (m\<lparr>m_table := tbl\<rparr>) = Some m' \<Longrightarrow>
    daemon_step d (d\<lparr>d_mgr := Some m'\<rparr>)"
| hang: "d_mgr d = Some m \<Longrightarrow> m_heap m a = Some n \<Longrightarrow> htxd_hang_monitor_ecg now (n_info n) = Some i \<Longrightarrow>
    set_info a i m = Some m' \<Longrightarrow> daemon_step d (d\<lparr>d_mgr := Some m'\<rparr>)"
| exercisers: "d_mgr d = Some m \<Longrightarrow> m_heap m a = Some n \<Longrightarrow>
    set_info a ((n_info n)\<lparr>ei_shm := shm, ei_sems := ss\<rparr>) m = Some m' \<Longrightarrow> daemon_step d (d\<lparr>d_mgr := Some m'\<rparr>)"

inductive reachable :: "daemon \<Rightarrow> bool" where
  start: "d_state d = IDLE \<Longrightarrow> d_mgr d = None \<Longrightarrow> reachable d"
| more: "reachable d \<Longrightarrow> daemon_step d d' \<Longrightarrow> reachable d'"

inductive_cases daemon_stepE: "daemon_step d d'"

lemma hang_name: "htxd_hang_monitor_ecg now i = Some i' \<Longrightarrow> ei_name i' = ei_name i"
  by (auto simp: htxd_hang_monitor_ecg_def split: bind_splits)

text \<open>A step that is not a command keeps the state and the list.\<close>

lemma step_keeps:
  assumes "daemon_step d d'"
  shows "keeps d d' \<or> (\<exists>w c rc t. htxd_process_command w c d = Some (rc, t, d') \<and> y_sem_id (w_sys w) \<noteq> - 1 \<and> y_shm_ok (w_sys w))"
  using assms
proof cases
  case (exit m a n hdr hs pid reason msg tbl hs' m')
  then show ?thesis using set_info_keeps [of a _ "m\<lparr>m_table := tbl\<rparr>" m' n "m_table m"] by (simp add: keeps_def)
next
  case (hang m a n now i m')
  then show ?thesis using set_info_keeps [of a i m m' n] hang_name by (simp add: keeps_def)
next
  case (exercisers m a n shm ss m')
  then show ?thesis using set_info_keeps [of a _ m m' n] by (simp add: keeps_def)
qed blast

lemma command_ok_step:
  assumes "htxd_process_command w c d = Some (rc, t, d')" "y_sem_id (w_sys w) \<noteq> - 1" "y_shm_ok (w_sys w)" "daemon_ok d"
  shows "daemon_ok d'"
  using assms(1)
proof (cases rule: process_command_cases)
  case (2 ix rc' t')
  have st: "d_state d \<in> {IDLE, SELECTED_MDT, RUNNING_MDT, STARTING_MDT}"
    using assms(4) by (auto simp: daemon_ok_def split: option.splits)
  consider "ix \<notin> {0, 2, 4, 23}" | "ix = 0" | "ix = 2" | "ix = 4" | "ix = 23" by blast
  then show ?thesis
  proof cases
    case 1
    then show ?thesis using option_method_keeps [OF 2(4)] keeps_ok assms(4) by blast
  next
    case zero: 2
    then have "d_state d = IDLE" using 2(3) st by (auto simp: command_states)
    moreover have "d_mgr d' = d_mgr d" "d_state d' = IDLE"
      using 2(4) zero by (auto simp: option_method_def htxd_option_method_create_mdt_def Let_def reply_Some
          split: create_outcome.splits if_splits bind_splits)
    ultimately show ?thesis using assms(4) by (auto simp: daemon_ok_def split: option.splits)
  next
    case 3
    then have "d_state d = IDLE \<or> d_state d = SELECTED_MDT" using 2(3) st by (auto simp: command_states)
    then show ?thesis using 2(4) 3 run_mdt_ok assms(2-4) by (auto simp: option_method_def)
  next
    case 4
    then show ?thesis using 2(4) shutdown_mdt_ok assms(4) by (auto simp: option_method_def)
  next
    case 5
    then have "d_state d = IDLE" using 2(3) st by (auto simp: command_states)
    then show ?thesis using 2(4) 5 select_mdt_ok assms(2-4) by (auto simp: option_method_def)
  qed
qed (use assms(4) in simp)

lemma reachable_ok:
  assumes "reachable d"
  shows "daemon_ok d"
  using assms
proof (induction rule: reachable.induct)
  case (start d)
  then show ?case by (simp add: daemon_ok_def)
next
  case (more d d')
  then show ?case using step_keeps keeps_ok command_ok_step by blast
qed


definition sample_world :: "sys \<Rightarrow> world" where
  "sample_world y =
     \<lparr>w_sys = y, w_dev = sample_dev_sys, w_clock = (0, \<lambda>_. ([], [])), w_date = (\<lambda>_. []), w_error_count = 0, w_looks = sample_looks, w_log_dir = [],
      w_create = Stanzas 9, w_reload = 0, w_other = (\<lambda>_ _ _. None)\<rparr>"

definition sample_run :: htxd_command where
  "sample_run = \<lparr>c_index = 2, c_ecg_name = ''mdt.bu'', c_option_list = []\<rparr>"

lemma run_option: "option_list ! 2 = opt ''-run'' True False 1 9" "length option_list = 45"
  by (simp_all add: option_list_def)


subsection \<open>A start that was given up\<close>

lemma starting_keeps:
  assumes "daemon_step d d'" "d_state d = STARTING_MDT"
  shows "d_state d' = STARTING_MDT"
proof -
  have "keeps d d'" if "htxd_process_command w c d = Some (rc, t, d')" for w c rc t
    using that
  proof (cases rule: process_command_cases)
    case (2 ix rc' t')
    then have "ix \<notin> {0, 2, 4, 23}" using assms(2) by (auto simp: command_states)
    then show ?thesis using option_method_keeps [OF 2(4)] by simp
  qed simp
  then show ?thesis using step_keeps [OF assms(1)] assms(2) by (auto simp: keeps_def)
qed

text \<open>C23: A run command that fails to initialise the system configuration leaves the daemon in the starting state for good: in
  whatever way it goes on from there, it stays in that state, and it refuses every command to create, run, select or shut
  down an MDT, without any change.\<close>

theorem starting_is_stuck:
  assumes "d_state d = STARTING_MDT" "daemon_step\<^sup>*\<^sup>* d d'"
  shows "d_state d' = STARTING_MDT \<and>
    (\<forall>w c rc t d''. c_index c \<in> {0, 2, 4, 23} \<and> htxd_process_command w c d' = Some (rc, t, d'') \<longrightarrow> rc = - 1 \<and> d'' = d')"
proof -
  have st: "d_state d' = STARTING_MDT" using assms(2,1) by (induction rule: rtranclp_induct) (auto dest: starting_keeps)
  moreover have "rc = - 1 \<and> d'' = d'"
    if "c_index c \<in> {0, 2, 4, 23}" "htxd_process_command w c d' = Some (rc, t, d'')" for w c rc t d''
    using that(2)
  proof (cases rule: process_command_cases)
    case (2 ix rc' t')
    then show ?thesis using that(1) st by (auto simp: command_states)
  qed simp
  ultimately show ?thesis by blast
qed

lemma init_ecg_info_syscfg: "htxd_init_ecg_info (y\<lparr>y_syscfg := e\<rparr>) name off m = htxd_init_ecg_info y name off m"
proof -
  have "fill_info (y\<lparr>y_syscfg := e\<rparr>) = fill_info y" by (intro ext) (simp add: fill_info_def)
  then show ?thesis by (simp add: htxd_init_ecg_info_def cong: if_cong)
qed

lemma syscfg_fails:
  "\<exists>t d. htxd_option_method_run_mdt (sample_sys\<lparr>y_syscfg := 5\<rparr>) ''mdt.bu'' sample_daemon = Some (5, t, d) \<and> d_state d = STARTING_MDT"
proof -
  let ?y = "sample_sys\<lparr>y_syscfg := 5\<rparr>" and ?init = "htxd_init_ecg_manager (\<lambda>_. None)"
  have y: "y_exists ?y" "y_syscfg ?y = 5" "sys_ok sample_entries [(''mem0'', [(''port'', ''8'')])] sample_sys"
    using sample_mdt by (simp_all add: sample_sys_def sys_ok_def)
  obtain m n off where i: "htxd_init_ecg_info ?y ''mdt.bu'' 0 ?init = Some (0, off, m)" "m_heap m (y_addr sample_sys) = Some n"
    using init_ecg_info_file [OF sample_mdt, of "''mdt.bu''" 0 "\<lambda>_. None"] unfolding init_ecg_info_syscfg by blast
  have c: "m_current m = Some (y_addr sample_sys)"
    using init_ecg_info_effect [OF manages_init, of ?y "''mdt.bu''" 0 "\<lambda>_. None" 0 off m] i(1) y(3) by (simp add: sys_ok_def)
  have f: "htxd_get_ecg_info_node ?init ''mdt.bu'' = Some None"
    by (simp add: htxd_get_ecg_info_node_def htxd_init_ecg_manager_def find_node.simps)
  have five: "show_int 5 = ''5''" by code_simp
  show ?thesis using i c f y(1,2)
    by (simp add: htxd_option_method_run_mdt_def mdt_name_def create_ecg_manager_def run_loaded_def set_info_Some reply_def
        fits_def five Let_def sample_daemon_def)
      (simp add: htxd_load_hxsmsg_def)
qed

theorem starting_is_stuck_witness:
  "\<exists>t d. htxd_option_method_run_mdt (sample_sys\<lparr>y_syscfg := 5\<rparr>) ''mdt.bu'' sample_daemon = Some (5, t, d) \<and>
     (\<forall>rc t' d'. htxd_process_command (sample_world sample_sys) sample_run d = Some (rc, t', d') \<longrightarrow> rc = - 1 \<and> d' = d)"
proof -
  obtain t d where d: "htxd_option_method_run_mdt (sample_sys\<lparr>y_syscfg := 5\<rparr>) ''mdt.bu'' sample_daemon = Some (5, t, d)"
      "d_state d = STARTING_MDT"
    using syscfg_fails by blast
  have "c_index sample_run \<in> {0, 2, 4, 23}" by (simp add: sample_run_def)
  then show ?thesis using starting_is_stuck [OF d(2) rtranclp.rtrancl_refl] d(1) by blast
qed

text \<open>C40: The commands that count the loaded devices and that halt or activate the test are admitted in every state, but reach for
  the list of ECGs of a manager that an idle daemon does not have: sent to an idle daemon, either of them makes it
  crash.\<close>

theorem idle_daemon_crashes:
  assumes "reachable d" "d_state d = IDLE" "c_index c = 34 \<or> c_index c = 35"
  shows "htxd_process_command w c d = None"
proof -
  have "d_mgr d = None"
    using reachable_ok [OF assms(1)] assms(2) by (auto simp: daemon_ok_def split: option.splits)
  then show ?thesis using assms(3)
    by (auto simp: htxd_process_command_def option_method_def htxd_option_method_device_count_def
        htxd_option_method_test_activate_halt_def option_list_def opt_def assms(2))
qed

theorem idle_daemon_crashes_witness:
  "htxd_process_command (sample_world sample_sys) \<lparr>c_index = 34, c_ecg_name = [], c_option_list = []\<rparr> sample_daemon = None"
proof (rule idle_daemon_crashes)
  show "reachable sample_daemon" by (rule start) (simp_all add: sample_daemon_def)
qed (simp_all add: sample_daemon_def)

end
