(* ===== verification/Hxs_Log.thy ===== *)
theory Hxs_Log
  imports Htx_Update
begin

text \<open>
  The log files of the message collector (\<open>src/bin/hxsmsg\<close>): writing a text and wrapping the file at its
  threshold (\<open>write_log.c\<close>, \<open>check_wrap.c\<close>), the checkpoint that is kept of the positions in the files
  (\<open>upd_ckpt.c\<close>, \<open>sum.c\<close>), and opening the files at the start or the restart of the collector
  (\<open>open_logs.c\<close>, \<open>check_logs.c\<close>, \<open>open_file.c\<close>, \<open>rm_file.c\<close>, \<open>cls_file.c\<close>).

  The four logs are named by a datatype. A file on disk has its contents and its modification time. A file
  descriptor is \<open>None\<close> for \<open>-1\<close> and otherwise the position of the open file. What the system calls answer,
  and the times they leave in the files, are arguments. The diagnostics written to \<open>stderr\<close> are left out; the
  return codes, in which every function sets each of its bits at most once, are the sums of these bits.
  \<open>off_t\<close>, \<open>time_t\<close> and \<open>long\<close> are 8 bytes, stored with the lowest byte first.
\<close>

subsection \<open>Data\<close>

datatype logname = ERR_LOG | ERR_SAVE_LOG | MSG_LOG | MSG_SAVE_LOG

record ckpt =
  ck_thres :: "logname \<Rightarrow> int"
  ck_offset :: "logname \<Rightarrow> int"
  ck_mod_time :: "logname \<Rightarrow> int"
  ck_checksum :: int

record logfile =
  lf_data :: string
  lf_mtime :: int

record logs =
  l_file :: "logname \<Rightarrow> logfile option"
  l_fd :: "logname \<Rightarrow> nat option"
  l_ckpt_data :: "string option"
  l_ckpt_fd :: "nat option"
  l_checkpt :: ckpt
  l_log_dir :: cstring
  l_archive_sequence_count :: nat
  l_archives :: "(nat \<times> string) list"
  l_signals :: nat
  l_msgqid :: int
  l_queue :: "qmsg list"

text \<open>What the calls of one \<open>send_signal\<close> answer: the parent's process id, \<open>errno\<close> after opening
  \<open>.autostart\<close> (0: opened) and after \<open>kill\<close> (0: sent), the text of \<open>ctime\<close> (\<open>None\<close>: \<open>time\<close> returned 0),
  whether \<open>msgsnd\<close> works, and \<open>strerror\<close>.\<close>

record signal_io =
  g_ppid :: int
  g_autostart :: int
  g_kill :: int
  g_time :: "string option"
  g_sendok :: bool
  g_strerror :: "int \<Rightarrow> string"

text \<open>The same for one \<open>write_log\<close>. \<open>io_write\<close> is \<open>None\<close> for a failing write and otherwise the room there is
  for bytes.\<close>

record log_io =
  io_write :: "nat option"
  io_wtime :: int
  io_fsync :: bool
  io_lseek1 :: bool
  io_close :: bool
  io_signal :: signal_io
  io_trunc :: bool
  io_ttime :: int
  io_fsync2 :: bool
  io_cp :: bool
  io_lseek2 :: bool
  io_stat :: bool
  io_ck_lseek :: bool
  io_ck_write :: "nat option"
  io_ck_fsync :: bool

definition the_default :: "'a \<Rightarrow> 'a option \<Rightarrow> 'a" where
  "the_default d x = (case x of None \<Rightarrow> d | Some v \<Rightarrow> v)"

definition flag :: "bool \<Rightarrow> int \<Rightarrow> int" where
  "flag b n = (if b then n else 0)"

abbreviation (input) HTX_SYS_FINAL_MSG :: int where "HTX_SYS_FINAL_MSG \<equiv> 200"
abbreviation (input) SIGUSR1 :: int where "SIGUSR1 \<equiv> 10"
abbreviation (input) SIGTERM :: int where "SIGTERM \<equiv> 15"
abbreviation (input) SIGMAX :: int where "SIGMAX \<equiv> 32"
abbreviation (input) UBSIZE :: nat where "UBSIZE \<equiv> 512"

definition program_name :: cstring where
  "program_name = ''hxsmsg''"

subsection \<open>Messages and signals of the collector itself\<close>

definition message_time :: "string option \<Rightarrow> string" where
  "message_time t = (case t of None \<Rightarrow> ''gettimer() error'' | Some t \<Rightarrow> take 20 (drop 4 t))"

definition own_text :: "string option \<Rightarrow> cstring \<Rightarrow> int \<Rightarrow> int \<Rightarrow> string" where
  "own_text t text errno_val severity =
     (let m = pad_right 18 ''htx_messages'' @ pad_right 20 (message_time t) @ '' err='' @ fmt_8x errno_val @
              '' sev='' @ fmt_u severity @ [SP] @ pad_right 14 (take 31 program_name) @ [NL] @ text @ [NL]
      in if m ! (length m - 2) \<noteq> NL then m @ [NL] else m)"

definition send_message :: "signal_io \<Rightarrow> cstring \<Rightarrow> int \<Rightarrow> int \<Rightarrow> int \<Rightarrow> logs \<Rightarrow> int \<times> logs" where
  "send_message g text errno_val severity msg_type s =
     (if l_msgqid s = - 1 then (8, s)
      else
        (let e = flag (MAX_TEXT_MSG < length text) 1 + flag (g_time g = None) 2;
             m = \<lparr>q_type = msg_type, q_text = own_text (g_time g) (take MAX_TEXT_MSG text) errno_val severity,
                  q_sdev_id = ''htx_messages'', q_HE_name = take 31 program_name, q_severity = severity,
                  q_error = errno_val\<rparr>
         in if g_sendok g then (e, s\<lparr>l_queue := l_queue s @ [m]\<rparr>) else (e + 4, s)))"

text \<open>\<open>send_signal\<close>: for the process ids 0 to 2 it looks for \<open>.autostart\<close> and closes the stream it got,
  the null pointer too. The number of signals sent is kept for those that reach the parent.\<close>

definition send_signal :: "signal_io \<Rightarrow> int \<Rightarrow> int \<Rightarrow> logs \<Rightarrow> (int \<times> logs) fault" where
  "send_signal g pid signal_number s =
     (if pid \<le> 2 then
        (let text = program_name @ '' -- error in send_signal(),'' @ [NL] @ [CHR 0x09, CHR 0x09] @
               ''Passed process id = '' @ show_int pid @ '' (decimal).'' @ [NL]
         in if g_autostart g \<noteq> 0 then None
            else Some (0, snd (send_message g text 0 HTX_SYS_INFO HTX_SYS_MSG s)))
      else if signal_number \<le> 0 \<or> SIGMAX < signal_number then
        (let text = program_name @ '' -- error in send_signal(),'' @ [NL] @ [CHR 0x09, CHR 0x09] @
               ''Passed signal number = '' @ show_int signal_number @ '' (decimal).'' @ [NL]
         in Some (2, snd (send_message g text 0 HTX_SYS_HARD_ERROR HTX_SYS_MSG s)))
      else if g_kill g \<noteq> 0 then
        (let text = program_name @ '' -- error on kill() in send_signal()'' @ [NL] @ [CHR 0x09, CHR 0x09] @
               ''errno: '' @ show_int (g_kill g) @ '' ('' @ g_strerror g (g_kill g) @ '').'' @ [NL]
         in if length text < 128
            then Some (3, snd (send_message g text (g_kill g) HTX_SYS_HARD_ERROR HTX_SYS_MSG s)) else None)
      else Some (0, s\<lparr>l_signals := l_signals s + 1\<rparr>))"

subsection \<open>The checkpoint and its checksum\<close>

definition sum_step :: "nat \<Rightarrow> char \<Rightarrow> nat" where
  "sum_step checksum c =
     ((if checksum mod 2 \<noteq> 0 then checksum div 2 + 0x8000 else checksum div 2) + code c) mod 0x10000"

definition sum_bytes :: "string \<Rightarrow> nat" where
  "sum_bytes bs = foldl sum_step 0 bs"

fun bytes_le :: "nat \<Rightarrow> int \<Rightarrow> string" where
  "bytes_le 0 x = []"
| "bytes_le (Suc n) x = char_of (nat (x mod 256)) # bytes_le n (x div 256)"

fun of_bytes_le :: "string \<Rightarrow> int" where
  "of_bytes_le [] = 0"
| "of_bytes_le (c # cs) = int (code c) + 256 * of_bytes_le cs"

definition wrap64 :: "int \<Rightarrow> int" where
  "wrap64 i = (i + 2 ^ 63) mod 2 ^ 64 - 2 ^ 63"

definition log_names :: "logname list" where
  "log_names = [ERR_LOG, ERR_SAVE_LOG, MSG_LOG, MSG_SAVE_LOG]"

fun log_pos :: "logname \<Rightarrow> nat" where
  "log_pos ERR_LOG = 0"
| "log_pos ERR_SAVE_LOG = 1"
| "log_pos MSG_LOG = 2"
| "log_pos MSG_SAVE_LOG = 3"

definition ckpt_words :: "ckpt \<Rightarrow> int list" where
  "ckpt_words c = map (ck_thres c) log_names @ map (ck_offset c) log_names @ map (ck_mod_time c) log_names"

definition ckpt_bytes :: "ckpt \<Rightarrow> string" where
  "ckpt_bytes c = concat (map (bytes_le 8) (ckpt_words c))"

text \<open>The bytes of the structure in memory, and the structure such bytes are.\<close>

definition ckpt_image :: "ckpt \<Rightarrow> string" where
  "ckpt_image c = ckpt_bytes c @ bytes_le 8 (ck_checksum c)"

definition ckpt_word :: "string \<Rightarrow> nat \<Rightarrow> int" where
  "ckpt_word bs i = wrap64 (of_bytes_le (take 8 (drop (8 * i) bs)))"

definition ckpt_of :: "string \<Rightarrow> ckpt" where
  "ckpt_of bs =
     \<lparr>ck_thres = (\<lambda>l. ckpt_word bs (log_pos l)), ck_offset = (\<lambda>l. ckpt_word bs (4 + log_pos l)),
      ck_mod_time = (\<lambda>l. ckpt_word bs (8 + log_pos l)), ck_checksum = ckpt_word bs 12\<rparr>"

definition sizeof_ckpt :: nat where
  "sizeof_ckpt = 104"

definition set_checksum :: "ckpt \<Rightarrow> ckpt" where
  "set_checksum c = c\<lparr>ck_checksum := int (sum_bytes (ckpt_bytes c))\<rparr>"

subsection \<open>Files\<close>

text \<open>The contents after a write at a position, and after a truncation.\<close>

definition put_at :: "nat \<Rightarrow> string \<Rightarrow> string \<Rightarrow> string" where
  "put_at pos bs data =
     take pos (data @ replicate (pos - length data) NUL) @ bs @ drop (pos + length bs) data"

definition truncate_to :: "nat \<Rightarrow> string \<Rightarrow> string" where
  "truncate_to n data = take n (data @ replicate (n - length data) NUL)"

definition set_fd :: "logname \<Rightarrow> nat option \<Rightarrow> logs \<Rightarrow> logs" where
  "set_fd l p s = s\<lparr>l_fd := (l_fd s)(l := p)\<rparr>"

definition set_file :: "logname \<Rightarrow> logfile option \<Rightarrow> logs \<Rightarrow> logs" where
  "set_file l f s = s\<lparr>l_file := (l_file s)(l := f)\<rparr>"

definition change_file :: "logname \<Rightarrow> (string \<Rightarrow> string) \<Rightarrow> int \<Rightarrow> logs \<Rightarrow> logs" where
  "change_file l g t s =
     (case l_file s l of None \<Rightarrow> s | Some f \<Rightarrow> set_file l (Some \<lparr>lf_data = g (lf_data f), lf_mtime = t\<rparr>) s)"

definition close_file :: "bool \<Rightarrow> logname \<Rightarrow> logs \<Rightarrow> int \<times> logs" where
  "close_file ok l s =
     (case l_fd s l of None \<Rightarrow> (1, s) | Some _ \<Rightarrow> (flag (\<not> ok) 2, set_fd l None s))"

text \<open>\<open>update_ckpt\<close>, for an open checkpoint file. The offset is stored as an \<open>off_t\<close>.\<close>

definition update_ckpt :: "log_io \<Rightarrow> logname \<Rightarrow> int \<Rightarrow> logs \<Rightarrow> int \<times> logs" where
  "update_ckpt io l file_offset s =
     (let c = (l_checkpt s)\<lparr>ck_offset := (ck_offset (l_checkpt s))(l := wrap64 file_offset)\<rparr>;
          (e, c) = (case (if io_stat io then l_file s l else None) of
                      None \<Rightarrow> (if l_fd s l \<noteq> None then 1 else 2, c)
                    | Some f \<Rightarrow> (0, c\<lparr>ck_mod_time := (ck_mod_time c)(l := lf_mtime f)\<rparr>));
          c = set_checksum c;
          s = s\<lparr>l_checkpt := c\<rparr>
      in if \<not> io_ck_lseek io then (e + 4, s)
         else case io_ck_write io of
                None \<Rightarrow> (e + 8, s\<lparr>l_ckpt_fd := Some 0\<rparr>)
              | Some n \<Rightarrow>
                  (let bs = take n (ckpt_image c)
                   in (e + flag (length bs \<noteq> sizeof_ckpt) 0x10 + flag (\<not> io_ck_fsync io) 0x20,
                       s\<lparr>l_ckpt_fd := Some (length bs),
                         l_ckpt_data := map_option (put_at 0 bs) (l_ckpt_data s)\<rparr>)))"

subsection \<open>\<open>check_wrap\<close> and \<open>write_log\<close>\<close>

text \<open>The copy of the message log that is made when a log wraps: always of \<open>htxmsg\<close>, and numbered by one
  counter. The command is built in 100 bytes.\<close>

definition archive_command :: "cstring \<Rightarrow> nat \<Rightarrow> cstring" where
  "archive_command dir n = ''cp '' @ dir @ ''/htxmsg '' @ dir @ ''/htxmsg.'' @ dec_digits n"

definition archive :: "bool \<Rightarrow> logs \<Rightarrow> logs fault" where
  "archive ok s =
     (if length (archive_command (l_log_dir s) (l_archive_sequence_count s)) < 100
      then Some (s\<lparr>l_archives := l_archives s @
                     (case l_file s MSG_LOG of
                        Some f \<Rightarrow> if ok then [(l_archive_sequence_count s, lf_data f)] else []
                      | None \<Rightarrow> []),
                   l_archive_sequence_count := l_archive_sequence_count s + 1\<rparr>)
      else None)"

definition wrap_file :: "log_io \<Rightarrow> logname \<Rightarrow> nat \<Rightarrow> bool \<Rightarrow> logs \<Rightarrow> (int \<times> nat \<times> logs) fault" where
  "wrap_file io l off msg_archive_flag s =
     (let (e, s) = (if io_trunc io
                    then (flag (\<not> io_fsync2 io) 0x10, change_file l (truncate_to off) (io_ttime io) s)
                    else (8, s))
      in do { s \<leftarrow> (if msg_archive_flag then archive (io_cp io) s else Some s);
              if io_lseek2 io then Some (e, 0, set_fd l (Some 0) s) else Some (e + 0x20, off, s) })"

definition check_wrap ::
  "log_io \<Rightarrow> logname \<Rightarrow> nat \<Rightarrow> int \<Rightarrow> bool \<Rightarrow> bool \<Rightarrow> bool \<Rightarrow> logs \<Rightarrow> (int \<times> nat \<times> logs) fault" where
  "check_wrap io l bytes_last_write threshold wrap_flag signal_on_thres_flag msg_archive_flag s =
     (let ck = ck_offset (l_checkpt s) l;
          (e, off) = (case (if io_lseek1 io then l_fd s l else None) of
                        Some p \<Rightarrow> (0, p)
                      | None \<Rightarrow> (1, if ck \<le> 0 then bytes_last_write else nat ck + bytes_last_write))
      in if int (off div UBSIZE) \<ge> threshold then
           (if \<not> wrap_flag then
              (if \<not> signal_on_thres_flag then
                 (let (rc, s) = close_file (io_close io) l s
                  in Some (e + flag (rc \<noteq> 0) 2, off, set_fd l None s))
               else do { (rc, s) \<leftarrow> send_signal (io_signal io) (g_ppid (io_signal io)) SIGUSR1 s;
                         Some (e + flag (rc \<noteq> 0) 4, off, s) })
            else do { (e', off, s) \<leftarrow> wrap_file io l off msg_archive_flag s;
                      Some (e + e', off, s) })
         else Some (e, off, s))"

definition write_log ::
  "log_io \<Rightarrow> logname \<Rightarrow> string \<Rightarrow> int \<Rightarrow> bool \<Rightarrow> bool \<Rightarrow> bool \<Rightarrow> logs \<Rightarrow> (int \<times> logs) fault" where
  "write_log io l message threshold wrap_flag signal_on_thres_flag msg_archive_flag s =
     (case (l_fd s l, io_write io) of
        (Some pos, Some n) \<Rightarrow>
          (let bs = take n message;
               s = set_fd l (Some (pos + length bs)) (change_file l (put_at pos bs) (io_wtime io) s);
               e = flag (length bs \<noteq> length message) 2 + flag (\<not> io_fsync io) 4
           in do { (rc, off, s) \<leftarrow> check_wrap io l (length bs) threshold wrap_flag signal_on_thres_flag
                                    msg_archive_flag s;
                   let e = e + flag (rc \<noteq> 0) 8;
                   if l_ckpt_fd s \<noteq> None then
                     (let (rc, s) = update_ckpt io l (int off) s in Some (e + flag (rc \<noteq> 0) 0x10, s))
                   else Some (e, s) })
      | _ \<Rightarrow> Some (1, s))"

subsection \<open>Opening the logs\<close>

text \<open>What the system calls at the start of the collector answer.\<close>

record start_io =
  si_access :: "logname \<Rightarrow> bool"
  si_remove :: "logname \<Rightarrow> bool"
  si_open :: "logname \<Rightarrow> bool"
  si_otime :: "logname \<Rightarrow> int"
  si_stat :: "logname \<Rightarrow> bool"
  si_lseek :: "logname \<Rightarrow> bool"
  si_ck_access :: bool
  si_ck_remove :: bool
  si_ck_open :: bool
  si_ck_read :: bool
  si_ck_write :: "nat option"
  si_ck_trunc :: bool

definition rm_file :: "start_io \<Rightarrow> logname \<Rightarrow> logs \<Rightarrow> int \<times> logs" where
  "rm_file io l s =
     (case l_file s l of
        None \<Rightarrow> (0, s)
      | Some _ \<Rightarrow> if \<not> si_access io l then (2, s)
                  else if si_remove io l then (0, set_file l None s) else (1, s))"

definition rm_ckpt_file :: "start_io \<Rightarrow> logs \<Rightarrow> int \<times> logs" where
  "rm_ckpt_file io s =
     (case l_ckpt_data s of
        None \<Rightarrow> (0, s)
      | Some _ \<Rightarrow> if \<not> si_ck_access io then (2, s)
                  else if si_ck_remove io then (0, s\<lparr>l_ckpt_data := None\<rparr>) else (1, s))"

text \<open>\<open>open_file\<close> on a log, with and without \<open>O_EXCL\<close>: whether it worked.\<close>

definition open_file :: "start_io \<Rightarrow> bool \<Rightarrow> logname \<Rightarrow> logs \<Rightarrow> bool \<times> logs" where
  "open_file io excl l s =
     (if \<not> si_open io l \<or> (excl \<and> l_file s l \<noteq> None) then (False, set_fd l None s)
      else (True, set_fd l (Some 0)
                    (case l_file s l of
                       None \<Rightarrow> set_file l (Some \<lparr>lf_data = [], lf_mtime = si_otime io l\<rparr>) s
                     | Some _ \<Rightarrow> s)))"

definition clear_ckpt :: "logname \<Rightarrow> ckpt \<Rightarrow> ckpt" where
  "clear_ckpt l c = c\<lparr>ck_mod_time := (ck_mod_time c)(l := 0), ck_offset := (ck_offset c)(l := 0)\<rparr>"

definition check_time :: "start_io \<Rightarrow> logname \<Rightarrow> logs \<Rightarrow> int \<times> logs" where
  "check_time io l s =
     (if \<not> si_stat io l then (1, s)
      else case l_file s l of
             None \<Rightarrow> (0, s\<lparr>l_checkpt := clear_ckpt l (l_checkpt s)\<rparr>)
           | Some f \<Rightarrow>
               if lf_mtime f \<noteq> ck_mod_time (l_checkpt s) l then
                 (let (rc, s) = rm_file io l (s\<lparr>l_checkpt := clear_ckpt l (l_checkpt s)\<rparr>) in (flag (rc \<noteq> 0) 2, s))
               else (0, s))"

text \<open>The save logs are checked if they have a threshold, and removed if the threshold is 0.\<close>

definition check_save :: "start_io \<Rightarrow> (logname \<Rightarrow> int) \<Rightarrow> logname \<Rightarrow> logs \<Rightarrow> int \<times> logs" where
  "check_save io th l s = (if th l > 0 then check_time io l s else (0, s))"

definition rm_unused :: "start_io \<Rightarrow> (logname \<Rightarrow> int) \<Rightarrow> logname \<Rightarrow> logs \<Rightarrow> int \<times> logs" where
  "rm_unused io th l s = (if th l = 0 then rm_file io l s else (0, s))"

text \<open>A step that is only taken while the code is 0, and gives \<open>n\<close> when it fails.\<close>

definition also_step :: "int \<Rightarrow> (logs \<Rightarrow> int \<times> logs) \<Rightarrow> int \<times> logs \<Rightarrow> int \<times> logs" where
  "also_step n f p = (if fst p = 0 then (let (rc, s) = f (snd p) in (flag (rc \<noteq> 0) n, s)) else p)"

definition fresh_ckpt :: "(logname \<Rightarrow> int) \<Rightarrow> ckpt" where
  "fresh_ckpt th =
     set_checksum \<lparr>ck_thres = th, ck_offset = (\<lambda>_. 0), ck_mod_time = (\<lambda>_. 0), ck_checksum = 0\<rparr>"

definition check_ckpt :: "start_io \<Rightarrow> (logname \<Rightarrow> int) \<Rightarrow> nat \<Rightarrow> logs \<Rightarrow> int \<times> logs" where
  "check_ckpt io th num_bytes s =
     (let c = l_checkpt s
      in if num_bytes = 0 \<or> num_bytes \<noteq> sizeof_ckpt \<or> ck_checksum c \<noteq> int (sum_bytes (ckpt_bytes c)) \<or>
            ck_thres c ERR_LOG \<noteq> th ERR_LOG \<or> ck_thres c ERR_SAVE_LOG \<noteq> th ERR_SAVE_LOG \<or>
            ck_thres c MSG_LOG \<noteq> th MSG_LOG \<or> ck_thres c MSG_SAVE_LOG \<noteq> th MSG_SAVE_LOG
         then
           (let c = fresh_ckpt th; s = s\<lparr>l_checkpt := c\<rparr>
            in case (l_ckpt_fd s, si_ck_write io) of
                 (Some pos, Some n) \<Rightarrow>
                   (let bs = take n (ckpt_image c);
                        s = s\<lparr>l_ckpt_fd := Some (pos + length bs),
                              l_ckpt_data := map_option (put_at pos bs) (l_ckpt_data s)\<rparr>
                    in if length bs \<noteq> sizeof_ckpt then (8, s)
                       else if \<not> si_ck_trunc io then (0x10, s)
                       else (also_step 0x80 (rm_file io MSG_SAVE_LOG) \<circ> also_step 0x80 (rm_file io ERR_SAVE_LOG) \<circ>
                             also_step 0x40 (rm_file io MSG_LOG) \<circ> also_step 0x20 (rm_file io ERR_LOG))
                              (0, s\<lparr>l_ckpt_data := map_option (truncate_to sizeof_ckpt) (l_ckpt_data s)\<rparr>))
               | _ \<Rightarrow> (4, s))
         else (0, s))"

definition read_ckpt :: "logs \<Rightarrow> nat \<times> logs" where
  "read_ckpt s =
     (let bs = take sizeof_ckpt (the_default [] (l_ckpt_data s))
      in (length bs, s\<lparr>l_ckpt_fd := Some (length bs),
                       l_checkpt := ckpt_of (bs @ drop (length bs) (ckpt_image (l_checkpt s)))\<rparr>))"

text \<open>The end of \<open>check_logs\<close>: the times of the files.\<close>

definition check_times :: "start_io \<Rightarrow> (logname \<Rightarrow> int) \<Rightarrow> logs \<Rightarrow> int \<times> logs" where
  "check_times io th s =
     (also_step 0x100 (rm_unused io th MSG_SAVE_LOG) \<circ> also_step 0x80 (rm_unused io th ERR_SAVE_LOG) \<circ>
      also_step 0x800 (check_save io th MSG_SAVE_LOG) \<circ> also_step 0x800 (check_time io MSG_LOG) \<circ>
      also_step 0x400 (check_save io th ERR_SAVE_LOG) \<circ> also_step 0x200 (check_time io ERR_LOG)) (0, s)"

definition check_logs :: "start_io \<Rightarrow> (logname \<Rightarrow> int) \<Rightarrow> logs \<Rightarrow> int \<times> logs" where
  "check_logs io th s =
     (if \<not> si_ck_open io then (1, s\<lparr>l_ckpt_fd := None\<rparr>)
      else
        (let s = s\<lparr>l_ckpt_fd := Some 0, l_ckpt_data := Some (the_default [] (l_ckpt_data s))\<rparr>
         in if \<not> si_ck_read io then (2, s)
            else
              (let (num_bytes, s) = read_ckpt s;
                   (rc, s) = check_ckpt io th num_bytes s
               in if rc \<noteq> 0 then (rc, s) else check_times io th s)))"

text \<open>A step whose failure adds its bit to the code.\<close>

definition add_step :: "int \<Rightarrow> (logs \<Rightarrow> bool \<times> logs) \<Rightarrow> int \<times> logs \<Rightarrow> int \<times> logs" where
  "add_step n f p = (let (ok, s) = f (snd p) in (fst p + flag (\<not> ok) n, s))"

definition set_file_offset :: "start_io \<Rightarrow> logname \<Rightarrow> logs \<Rightarrow> bool \<times> logs" where
  "set_file_offset io l s =
     (if l_fd s l = None then (True, s)
      else if si_lseek io l \<and> 0 \<le> ck_offset (l_checkpt s) l
           then (True, set_fd l (Some (nat (ck_offset (l_checkpt s) l))) s)
           else (False, s))"

definition set_file_offsets :: "start_io \<Rightarrow> logs \<Rightarrow> int \<times> logs" where
  "set_file_offsets io s =
     (add_step 8 (set_file_offset io MSG_SAVE_LOG) \<circ> add_step 4 (set_file_offset io ERR_SAVE_LOG) \<circ>
      add_step 2 (set_file_offset io MSG_LOG) \<circ> add_step 1 (set_file_offset io ERR_LOG)) (0, s)"

definition open_save :: "start_io \<Rightarrow> bool \<Rightarrow> (logname \<Rightarrow> int) \<Rightarrow> logname \<Rightarrow> logs \<Rightarrow> bool \<times> logs" where
  "open_save io excl th l s =
     (if 0 < th l \<and> ck_offset (l_checkpt s) l < th l then open_file io excl l s else (True, s))"

definition remove_logs :: "start_io \<Rightarrow> logs \<Rightarrow> int \<times> logs" where
  "remove_logs io s =
     (let rm = (\<lambda>l s. let (rc, s) = rm_file io l s in (rc = 0, s))
      in (add_step 0x20 (rm MSG_SAVE_LOG) \<circ> add_step 0x10 (rm ERR_SAVE_LOG) \<circ> add_step 8 (rm MSG_LOG) \<circ>
          add_step 4 (rm ERR_LOG) \<circ> add_step 2 (\<lambda>s. let (rc, s) = rm_ckpt_file io s in (rc = 0, s))) (0, s))"

text \<open>The end of \<open>open_logs\<close>: the files are opened, and positioned if this is a restart.\<close>

definition seek_logs :: "start_io \<Rightarrow> bool \<Rightarrow> logs \<Rightarrow> bool \<times> logs" where
  "seek_logs io auto_start_flag s =
     (if auto_start_flag then (let (rc, s) = set_file_offsets io s in (rc = 0, s)) else (True, s))"

definition open_all :: "start_io \<Rightarrow> (logname \<Rightarrow> int) \<Rightarrow> bool \<Rightarrow> logs \<Rightarrow> int \<times> logs" where
  "open_all io th auto_start_flag s =
     (let excl = (\<not> auto_start_flag)
      in (add_step 0x400 (seek_logs io auto_start_flag) \<circ>
          add_step 0x200 (open_save io excl th MSG_SAVE_LOG) \<circ>
          add_step 0x100 (open_save io excl th ERR_SAVE_LOG) \<circ>
          add_step 0x80 (open_file io excl MSG_LOG) \<circ> add_step 0x40 (open_file io excl ERR_LOG)) (0, s))"

definition open_logs :: "start_io \<Rightarrow> (logname \<Rightarrow> int) \<Rightarrow> bool \<Rightarrow> logs \<Rightarrow> int \<times> logs" where
  "open_logs io th auto_start_flag s =
     (let (e, s) = (if auto_start_flag then (let (rc, s) = check_logs io th s in (flag (rc \<noteq> 0) 1, s))
                    else remove_logs io s)
      in if e \<noteq> 0 then (e, s) else open_all io th auto_start_flag s)"

subsection \<open>Lemmas on the checkpoint\<close>

lemma sum_step_less: "sum_step n c < 2 ^ 16"
  by (simp add: sum_step_def)

lemma sum_bytes_less: "sum_bytes bs < 2 ^ 16"
proof (cases bs rule: rev_cases)
  case (snoc ys y)
  then show ?thesis using sum_step_less [of _ y] by (simp add: sum_bytes_def)
qed (simp add: sum_bytes_def)

lemma wrap64_range: "- (2 ^ 63) \<le> wrap64 i" "wrap64 i < 2 ^ 63"
  by (simp_all add: wrap64_def)

lemma wrap64_id [simp]: "- (2 ^ 63) \<le> i \<Longrightarrow> i < 2 ^ 63 \<Longrightarrow> wrap64 i = i"
  by (simp add: wrap64_def)

lemma wrap64_mod [simp]: "wrap64 (i mod 2 ^ 64) = wrap64 i"
  by (simp add: wrap64_def mod_add_left_eq)

lemma length_bytes_le [simp]: "length (bytes_le n x) = n"
  by (induction n arbitrary: x) auto

lemma of_bytes_le_bytes_le: "of_bytes_le (bytes_le n x) = x mod 256 ^ n"
proof (induction n arbitrary: x)
  case (Suc n)
  have "code (char_of (nat (x mod 256))) = nat (x mod 256)"
    by (simp add: code_def nat_less_iff)
  then have "of_bytes_le (bytes_le (Suc n) x) = x mod 256 + 256 * (x div 256 mod 256 ^ n)"
    by (simp add: Suc.IH)
  also have "\<dots> = x mod 256 ^ Suc n"
    by (simp add: zmod_zmult2_eq)
  finally show ?case .
qed simp

lemma of_bytes_le_8 [simp]: "wrap64 (of_bytes_le (bytes_le 8 x)) = wrap64 x"
proof -
  have "of_bytes_le (bytes_le 8 x) = x mod 2 ^ 64" by (simp add: of_bytes_le_bytes_le)
  then show ?thesis by (simp only: wrap64_mod)
qed

lemma take_drop_concat:
  "i < length ws \<Longrightarrow> take 8 (drop (8 * i) (concat (map (bytes_le 8) ws) @ bs)) = bytes_le 8 (ws ! i)"
proof (induction ws arbitrary: i)
  case (Cons w ws)
  then show ?case by (cases i) (simp_all add: algebra_simps)
qed simp

lemma ckpt_image_words: "ckpt_image c = concat (map (bytes_le 8) (ckpt_words c @ [ck_checksum c]))"
  by (simp add: ckpt_image_def ckpt_bytes_def)

lemma length_ckpt_words [simp]: "length (ckpt_words c) = 12"
  by (simp add: ckpt_words_def log_names_def)

lemma length_ckpt_image [simp]: "length (ckpt_image c) = sizeof_ckpt"
  by (simp add: ckpt_image_def ckpt_bytes_def ckpt_words_def log_names_def sizeof_ckpt_def)

lemma ckpt_word_image:
  assumes "i < 13"
  shows "ckpt_word (ckpt_image c) i = wrap64 ((ckpt_words c @ [ck_checksum c]) ! i)"
proof -
  let ?ws = "ckpt_words c @ [ck_checksum c]"
  have "take 8 (drop (8 * i) (ckpt_image c)) = bytes_le 8 (?ws ! i)"
    using take_drop_concat [of i ?ws "[]"] assms by (simp add: ckpt_image_words)
  then show ?thesis by (simp only: ckpt_word_def of_bytes_le_8)
qed

text \<open>All the numbers of a checkpoint are values of their types.\<close>

definition fits64 :: "int \<Rightarrow> bool" where
  "fits64 i \<longleftrightarrow> - (2 ^ 63) \<le> i \<and> i < 2 ^ 63"

definition ckpt_fits :: "ckpt \<Rightarrow> bool" where
  "ckpt_fits c \<longleftrightarrow> (\<forall>l. fits64 (ck_thres c l) \<and> fits64 (ck_offset c l) \<and> fits64 (ck_mod_time c l)) \<and>
     fits64 (ck_checksum c)"

lemma fits64_wrap64 [simp]: "fits64 (wrap64 i)" "fits64 i \<Longrightarrow> wrap64 i = i" "fits64 0"
  using wrap64_range [of i] by (simp_all add: fits64_def)

lemma fits64_sum [simp]: "fits64 (int (sum_bytes bs))"
  using sum_bytes_less [of bs] by (simp add: fits64_def)

lemma ckpt_of_image:
  assumes "ckpt_fits c"
  shows "ckpt_of (ckpt_image c) = c"
proof -
  have t: "ckpt_word (ckpt_image c) (log_pos l) = ck_thres c l"
    and o: "ckpt_word (ckpt_image c) (4 + log_pos l) = ck_offset c l"
    and m: "ckpt_word (ckpt_image c) (8 + log_pos l) = ck_mod_time c l" for l
    using assms by (cases l; simp add: ckpt_word_image ckpt_words_def log_names_def ckpt_fits_def)+
  have "ckpt_word (ckpt_image c) 12 = ck_checksum c"
    using assms by (simp add: ckpt_word_image nth_append ckpt_fits_def)
  then show ?thesis by (simp add: ckpt_of_def t o m)
qed

subsection \<open>What a log holds\<close>

text \<open>The abstract log: the text of the previous round that is still in the file behind the current one, the
  text of the current round, and whether the log is open. A text is appended; when the current round reaches
  the threshold, a new round begins (\<open>wrap\<close>), or the log goes on (\<open>sig\<close>), or it is closed.\<close>

record alog =
  a_old :: string
  a_new :: string
  a_open :: bool

definition a_view :: "alog \<Rightarrow> string" where
  "a_view a = a_new a @ drop (length (a_new a)) (a_old a)"

definition a_full :: "bool \<Rightarrow> bool \<Rightarrow> int \<Rightarrow> alog \<Rightarrow> alog" where
  "a_full wrap sig thr a =
     (if thr \<le> int (length (a_new a) div UBSIZE) then
        (if wrap then \<lparr>a_old = a_new a, a_new = [], a_open = True\<rparr> else a\<lparr>a_open := sig\<rparr>)
      else a)"

definition a_put :: "bool \<Rightarrow> bool \<Rightarrow> int \<Rightarrow> string \<Rightarrow> alog \<Rightarrow> alog" where
  "a_put wrap sig thr m a = (if a_open a then a_full wrap sig thr (a\<lparr>a_new := a_new a @ m\<rparr>) else a)"

definition empty_log :: alog where
  "empty_log = \<lparr>a_old = [], a_new = [], a_open = True\<rparr>"

text \<open>The log \<open>l\<close> of a state, and what the checkpoint says about it.\<close>

definition holds_log :: "logs \<Rightarrow> logname \<Rightarrow> alog \<Rightarrow> bool" where
  "holds_log s l a \<longleftrightarrow> map_option lf_data (l_file s l) = Some (a_view a) \<and>
     l_fd s l = (if a_open a then Some (length (a_new a)) else None)"

definition ckpt_rel :: "logs \<Rightarrow> logname \<Rightarrow> alog \<Rightarrow> bool" where
  "ckpt_rel s l a \<longleftrightarrow> ck_offset (l_checkpt s) l = wrap64 (int (length (a_new a))) \<and>
     (case l_file s l of None \<Rightarrow> False
      | Some f \<Rightarrow> fits64 (lf_mtime f) \<and> ck_mod_time (l_checkpt s) l = lf_mtime f)"

definition saved :: "logs \<Rightarrow> bool" where
  "saved s \<longleftrightarrow> l_ckpt_data s = Some (ckpt_image (l_checkpt s)) \<and>
     ck_checksum (l_checkpt s) = int (sum_bytes (ckpt_bytes (l_checkpt s)))"

text \<open>System calls that do their work; a failing \<open>fsync\<close>, \<open>close\<close> or \<open>cp\<close> changes no log.\<close>

definition io_works :: "log_io \<Rightarrow> string \<Rightarrow> bool" where
  "io_works io m \<longleftrightarrow> (case io_write io of None \<Rightarrow> False | Some n \<Rightarrow> length m \<le> n) \<and>
     io_lseek1 io \<and> io_trunc io \<and> io_lseek2 io \<and> io_stat io \<and> io_ck_lseek io \<and>
     (case io_ck_write io of None \<Rightarrow> False | Some n \<Rightarrow> sizeof_ckpt \<le> n) \<and>
     2 < g_ppid (io_signal io) \<and> g_kill (io_signal io) = 0 \<and> fits64 (io_wtime io) \<and> fits64 (io_ttime io)"

definition archive_fits :: "logs \<Rightarrow> bool" where
  "archive_fits s \<longleftrightarrow> length (archive_command (l_log_dir s) (l_archive_sequence_count s)) < 100"

text \<open>What a call on one log leaves alone.\<close>

definition same_rest :: "logname \<Rightarrow> logs \<Rightarrow> logs \<Rightarrow> bool" where
  "same_rest l s t \<longleftrightarrow> (\<forall>k. k \<noteq> l \<longrightarrow> l_file t k = l_file s k \<and> l_fd t k = l_fd s k) \<and>
     l_log_dir t = l_log_dir s \<and> l_queue t = l_queue s \<and> l_msgqid t = l_msgqid s \<and>
     (l_ckpt_fd t = None \<longleftrightarrow> l_ckpt_fd s = None)"

definition same_ckpt :: "logs \<Rightarrow> logs \<Rightarrow> bool" where
  "same_ckpt s t \<longleftrightarrow> l_checkpt t = l_checkpt s \<and> l_ckpt_data t = l_ckpt_data s \<and> l_ckpt_fd t = l_ckpt_fd s"

lemmas files_simps = set_fd_def set_file_def change_file_def close_file_def

lemma put_at_view:
  "put_at (length n) m (n @ drop (length n) p) = (n @ m) @ drop (length (n @ m)) p"
  by (simp add: put_at_def add.commute)

lemma truncate_view: "truncate_to (length n) (n @ p) = n"
  by (simp add: truncate_to_def)

lemma append_step:
  assumes "holds_log s l a" "a_open a"
  shows "holds_log (set_fd l (Some (length (a_new a) + length m)) (change_file l (put_at (length (a_new a)) m) t s)) l
           (a\<lparr>a_new := a_new a @ m\<rparr>)"
  using assms by (auto simp: holds_log_def files_simps a_view_def put_at_view split: option.splits)

lemma wrap_file_good:
  assumes "holds_log s l a" "a_open a" "io_trunc io" "io_lseek2 io" "arch \<longrightarrow> archive_fits s"
  shows "\<exists>e s'. wrap_file io l (length (a_new a)) arch s = Some (e, 0, s') \<and>
    holds_log s' l \<lparr>a_old = a_new a, a_new = [], a_open = True\<rparr> \<and> same_rest l s s' \<and> same_ckpt s s' \<and>
    (\<exists>f. l_file s' l = Some f \<and> lf_mtime f = io_ttime io)"
proof -
  obtain f where f: "l_file s l = Some f" "lf_data f = a_view a" using assms(1) by (auto simp: holds_log_def)
  show ?thesis using assms(2-) f
    by (auto simp: wrap_file_def archive_def archive_fits_def holds_log_def files_simps a_view_def truncate_view
        same_rest_def same_ckpt_def)
qed

lemma send_signal_good:
  "2 < g_ppid g \<Longrightarrow> g_kill g = 0 \<Longrightarrow> send_signal g (g_ppid g) SIGUSR1 s = Some (0, s\<lparr>l_signals := l_signals s + 1\<rparr>)"
  by (simp add: send_signal_def)

lemma check_wrap_good:
  assumes "holds_log s l a" "a_open a" "io_works io m" "wrap \<and> arch \<longrightarrow> archive_fits s"
    "\<exists>f. l_file s l = Some f \<and> fits64 (lf_mtime f)"
  shows "\<exists>e s'. check_wrap io l n thr wrap sig arch s = Some (e, length (a_new (a_full wrap sig thr a)), s') \<and>
    holds_log s' l (a_full wrap sig thr a) \<and> same_rest l s s' \<and> same_ckpt s s' \<and>
    (\<exists>f. l_file s' l = Some f \<and> fits64 (lf_mtime f))"
proof (cases "thr \<le> int (length (a_new a) div UBSIZE)")
  case True
  have fd: "l_fd s l = Some (length (a_new a))" using assms(1,2) by (simp add: holds_log_def)
  show ?thesis
  proof (cases wrap)
    case w: True
    obtain e s' where "wrap_file io l (length (a_new a)) arch s = Some (e, 0, s')"
      "holds_log s' l \<lparr>a_old = a_new a, a_new = [], a_open = True\<rparr>" "same_rest l s s'" "same_ckpt s s'"
      "\<exists>f. l_file s' l = Some f \<and> lf_mtime f = io_ttime io"
      using wrap_file_good [of s l a io arch] assms w by (auto simp: io_works_def)
    then show ?thesis using True w fd assms(3) by (auto simp: check_wrap_def io_works_def a_full_def)
  next
    case w: False
    have g: "2 < g_ppid (io_signal io)" "g_kill (io_signal io) = 0" using assms(3) by (simp_all add: io_works_def)
    show ?thesis
      using True w fd assms(1,3,5) send_signal_good [OF g]
      by (cases sig) (auto simp: check_wrap_def io_works_def a_full_def holds_log_def a_view_def files_simps
          same_rest_def same_ckpt_def)
  qed
next
  case False
  have fd: "l_fd s l = Some (length (a_new a))" using assms(1,2) by (simp add: holds_log_def)
  show ?thesis using False fd assms(1,3,5)
    by (auto simp: check_wrap_def io_works_def a_full_def same_rest_def same_ckpt_def)
qed

lemma ckpt_bytes_checksum [simp]: "ckpt_bytes (c\<lparr>ck_checksum := n\<rparr>) = ckpt_bytes c"
  by (simp add: ckpt_bytes_def ckpt_words_def)

text \<open>The checkpoint file is open and holds no more than a checkpoint.\<close>

definition ckpt_open :: "logs \<Rightarrow> bool" where
  "ckpt_open s \<longleftrightarrow> l_ckpt_fd s \<noteq> None \<and>
     (case l_ckpt_data s of None \<Rightarrow> False | Some d \<Rightarrow> length d \<le> sizeof_ckpt)"

definition same_others :: "logname \<Rightarrow> logs \<Rightarrow> logs \<Rightarrow> bool" where
  "same_others l s t \<longleftrightarrow> ck_thres (l_checkpt t) = ck_thres (l_checkpt s) \<and>
     (\<forall>k. k \<noteq> l \<longrightarrow> ck_offset (l_checkpt t) k = ck_offset (l_checkpt s) k \<and>
        ck_mod_time (l_checkpt t) k = ck_mod_time (l_checkpt s) k) \<and>
     (ckpt_fits (l_checkpt s) \<longrightarrow> ckpt_fits (l_checkpt t))"

lemma saved_open: "saved s \<Longrightarrow> l_ckpt_fd s \<noteq> None \<Longrightarrow> ckpt_open s"
  by (auto simp: saved_def ckpt_open_def)

lemma update_ckpt_good:
  assumes "io_works io m" "ckpt_open s" "l_file s l = Some f" "fits64 (lf_mtime f)"
  shows "\<exists>e s'. update_ckpt io l off s = (e, s') \<and> saved s' \<and> l_ckpt_fd s' \<noteq> None \<and> l_file s' = l_file s \<and>
    l_fd s' = l_fd s \<and> same_rest l s s' \<and> ck_offset (l_checkpt s') l = wrap64 off \<and>
    ck_mod_time (l_checkpt s') l = lf_mtime f \<and> same_others l s s'"
proof -
  obtain d where d: "l_ckpt_data s = Some d" "length d \<le> sizeof_ckpt"
    using assms(2) by (auto simp: ckpt_open_def split: option.splits)
  obtain k where k: "io_ck_write io = Some k" "sizeof_ckpt \<le> k"
    using assms(1) by (auto simp: io_works_def split: option.splits)
  have p: "put_at 0 bs d = bs" if "length bs = sizeof_ckpt" for bs
    using that d(2) by (simp add: put_at_def)
  show ?thesis using assms d k
    by (auto simp: update_ckpt_def Let_def io_works_def p saved_def set_checksum_def same_rest_def same_others_def
        ckpt_fits_def ckpt_open_def)
qed

lemma update_ckpt_files:
  "l_file (snd (update_ckpt io l off s)) = l_file s" "l_fd (snd (update_ckpt io l off s)) = l_fd s"
  "l_ckpt_fd s \<noteq> None \<Longrightarrow> same_rest l s (snd (update_ckpt io l off s))"
  by (auto simp: update_ckpt_def Let_def same_rest_def split: option.split)

lemma same_rest_trans: "same_rest l s t \<Longrightarrow> same_rest l t u \<Longrightarrow> same_rest l s u"
  by (simp add: same_rest_def)

lemma append_rest: "same_rest l s (set_fd l p (change_file l g t s))"
  "same_ckpt s (set_fd l p (change_file l g t s))"
  by (auto simp: same_rest_def same_ckpt_def files_simps split: option.splits)

lemma holds_log_same: "l_file t l = l_file s l \<Longrightarrow> l_fd t l = l_fd s l \<Longrightarrow> holds_log t l a = holds_log s l a"
  by (simp add: holds_log_def)

lemma write_log_cases:
  assumes "l_fd s l = Some pos" "io_write io = Some n" "length m \<le> n"
    "check_wrap io l (length m) thr wrap sig arch
       (set_fd l (Some (pos + length m)) (change_file l (put_at pos m) (io_wtime io) s)) = Some (e, off, s1)"
  shows "\<exists>e'. write_log io l m thr wrap sig arch s =
    Some (if l_ckpt_fd s1 \<noteq> None then (e' + flag (fst (update_ckpt io l (int off) s1) \<noteq> 0) 0x10, snd (update_ckpt io l (int off) s1))
          else (e', s1))"
  using assms by (auto simp: write_log_def Let_def split: prod.split)

text \<open>A text written to a log by calls that work: the log holds what the abstract log holds, and if a
  checkpoint is kept, it is valid, saved, and says where the log is.\<close>

lemma write_log_good:
  assumes "holds_log s l a" "a_open a" "io_works io m" "wrap \<and> arch \<longrightarrow> archive_fits s"
  shows "\<exists>e s'. write_log io l m thr wrap sig arch s = Some (e, s') \<and> holds_log s' l (a_put wrap sig thr m a) \<and>
    same_rest l s s' \<and>
    (ckpt_open s \<longrightarrow> saved s' \<and> ckpt_rel s' l (a_put wrap sig thr m a) \<and> same_others l s s')"
proof -
  obtain n where n: "io_write io = Some n" "length m \<le> n" using assms(3) by (auto simp: io_works_def split: option.splits)
  have fd: "l_fd s l = Some (length (a_new a))" using assms(1,2) by (simp add: holds_log_def)
  let ?a = "a\<lparr>a_new := a_new a @ m\<rparr>"
  define s0 where "s0 = set_fd l (Some (length (a_new a) + length m))
     (change_file l (put_at (length (a_new a)) m) (io_wtime io) s)"
  have r0: "holds_log s0 l ?a" using append_step [OF assms(1,2)] by (simp add: s0_def)
  have a0: "same_rest l s s0" "same_ckpt s s0" by (simp_all add: s0_def append_rest)
  have af: "archive_fits s0 = archive_fits s"
    by (auto simp: s0_def archive_fits_def files_simps split: option.splits)
  have o0: "a_open ?a" using assms(2) by simp
  have f0: "wrap \<and> arch \<longrightarrow> archive_fits s0" using assms(4) af by simp
  have t0: "\<exists>f. l_file s0 l = Some f \<and> fits64 (lf_mtime f)"
    using assms(1,3) by (auto simp: s0_def files_simps holds_log_def io_works_def)
  obtain e s1 where w: "check_wrap io l (length m) thr wrap sig arch s0 =
        Some (e, length (a_new (a_full wrap sig thr ?a)), s1)"
      "holds_log s1 l (a_full wrap sig thr ?a)" "same_rest l s0 s1" "same_ckpt s0 s1"
      and f1: "\<exists>f. l_file s1 l = Some f \<and> fits64 (lf_mtime f)"
    using check_wrap_good [OF r0 o0 assms(3) f0 t0, of "length m" thr sig] by blast
  have put: "a_put wrap sig thr m a = a_full wrap sig thr ?a" using assms(2) by (simp add: a_put_def)
  obtain e' where wl: "write_log io l m thr wrap sig arch s =
    Some (if l_ckpt_fd s1 \<noteq> None
          then (e' + flag (fst (update_ckpt io l (int (length (a_new (a_full wrap sig thr ?a)))) s1) \<noteq> 0) 0x10,
                snd (update_ckpt io l (int (length (a_new (a_full wrap sig thr ?a)))) s1))
          else (e', s1))"
    using write_log_cases [OF fd n w(1) [unfolded s0_def]] by blast
  have r1: "same_rest l s s1" using same_rest_trans a0(1) w(3) by blast
  show ?thesis
  proof (cases "l_ckpt_fd s1 = None")
    case True
    then show ?thesis using wl w(2) r1 by (auto simp: put ckpt_open_def same_rest_def)
  next
    case False
    obtain f where f: "l_file s1 l = Some f" "fits64 (lf_mtime f)" using f1 by blast
    have ck: "ckpt_open s1 = ckpt_open s" "same_others l s s1"
      using a0(2) w(4) by (auto simp: ckpt_open_def same_ckpt_def same_others_def)
    show ?thesis
    proof (cases "ckpt_open s")
      case True
      obtain e2 s2 where u: "update_ckpt io l (int (length (a_new (a_full wrap sig thr ?a)))) s1 = (e2, s2)"
        "saved s2" "l_file s2 = l_file s1" "l_fd s2 = l_fd s1" "same_rest l s1 s2"
        "ck_offset (l_checkpt s2) l = wrap64 (int (length (a_new (a_full wrap sig thr ?a))))"
        "ck_mod_time (l_checkpt s2) l = lf_mtime f" "same_others l s1 s2"
        using update_ckpt_good [OF assms(3) _ f] ck(1) True by blast
      have "same_others l s s2" using ck(2) u(8) by (simp add: same_others_def)
      then show ?thesis using wl w(2) r1 u f False
        by (auto simp: put holds_log_def ckpt_rel_def intro: same_rest_trans)
    next
      case no: False
      let ?s2 = "snd (update_ckpt io l (int (length (a_new (a_full wrap sig thr ?a)))) s1)"
      have "holds_log ?s2 l (a_full wrap sig thr ?a)" using w(2) by (simp add: holds_log_def update_ckpt_files)
      moreover have "same_rest l s ?s2" using same_rest_trans [OF r1 update_ckpt_files(3)] False by blast
      ultimately show ?thesis using wl False no by (simp add: put)
    qed
  qed
qed

subsection \<open>Steps that follow an abstract one\<close>

fun run_steps :: "('x \<Rightarrow> 's \<Rightarrow> 's fault) \<Rightarrow> 'x list \<Rightarrow> 's \<Rightarrow> 's fault" where
  "run_steps step [] s = Some s"
| "run_steps step (x # xs) s = do { s \<leftarrow> step x s; run_steps step xs s }"

text \<open>What a user of the logs relies on: a step that is \<open>ok\<close> succeeds and does what its abstract counterpart does.\<close>

locale log_contract =
  fixes step :: "'x \<Rightarrow> 's \<Rightarrow> 's fault"
    and rel :: "'s \<Rightarrow> 'a \<Rightarrow> bool"
    and put :: "'x \<Rightarrow> 'a \<Rightarrow> 'a"
    and ok :: "'x \<Rightarrow> bool"
  assumes step_rel: "ok x \<Longrightarrow> rel s a \<Longrightarrow> \<exists>s'. step x s = Some s' \<and> rel s' (put x a)"
begin

lemma run_rel:
  "\<forall>x\<in>set xs. ok x \<Longrightarrow> rel s a \<Longrightarrow> \<exists>s'. run_steps step xs s = Some s' \<and> rel s' (fold put xs a)"
proof (induction xs arbitrary: s a)
  case (Cons x xs)
  then obtain s' where "step x s = Some s'" "rel s' (put x a)" using step_rel by fastforce
  then show ?case using Cons by simp
qed simp

end

subsection \<open>Restarting\<close>

text \<open>The collector is killed and started again: what is on disk, and the queue, stay.\<close>

definition zero_ckpt :: ckpt where
  "zero_ckpt = \<lparr>ck_thres = (\<lambda>_. 0), ck_offset = (\<lambda>_. 0), ck_mod_time = (\<lambda>_. 0), ck_checksum = 0\<rparr>"

definition new_process :: "logs \<Rightarrow> logs" where
  "new_process s = s\<lparr>l_fd := (\<lambda>_. None), l_ckpt_fd := None, l_checkpt := zero_ckpt, l_archive_sequence_count := 0,
     l_msgqid := - 1\<rparr>"

definition good_start :: "start_io \<Rightarrow> bool" where
  "good_start io \<longleftrightarrow> (\<forall>l. si_access io l \<and> si_remove io l \<and> si_open io l \<and> si_stat io l \<and> si_lseek io l \<and>
       fits64 (si_otime io l)) \<and>
     si_ck_access io \<and> si_ck_remove io \<and> si_ck_open io \<and> si_ck_read io \<and> si_ck_trunc io \<and>
     (case si_ck_write io of None \<Rightarrow> False | Some n \<Rightarrow> sizeof_ckpt \<le> n)"

fun is_save :: "logname \<Rightarrow> bool" where
  "is_save ERR_LOG = False"
| "is_save ERR_SAVE_LOG = True"
| "is_save MSG_LOG = False"
| "is_save MSG_SAVE_LOG = True"

definition used :: "(logname \<Rightarrow> int) \<Rightarrow> logname \<Rightarrow> bool" where
  "used th l \<longleftrightarrow> \<not> is_save l \<or> 0 < th l"

text \<open>The checkpoint knows the file: its time is the time of the file, or nothing was written yet.\<close>

definition in_sync :: "logs \<Rightarrow> logname \<Rightarrow> bool" where
  "in_sync s l \<longleftrightarrow>
     (case l_file s l of
        None \<Rightarrow> ck_mod_time (l_checkpt s) l = 0 \<and> ck_offset (l_checkpt s) l = 0
      | Some f \<Rightarrow> fits64 (lf_mtime f) \<and>
          (ck_mod_time (l_checkpt s) l = lf_mtime f \<or>
           ck_mod_time (l_checkpt s) l = 0 \<and> ck_offset (l_checkpt s) l = 0 \<and> lf_data f = []))"

definition resumable :: "(logname \<Rightarrow> int) \<Rightarrow> logs \<Rightarrow> bool" where
  "resumable th s \<longleftrightarrow> saved s \<and> ckpt_fits (l_checkpt s) \<and> ck_thres (l_checkpt s) = th \<and>
     (\<forall>l. in_sync s l \<and> 0 \<le> th l \<and> 0 \<le> ck_offset (l_checkpt s) l \<and> (\<not> used th l \<longrightarrow> l_file s l = None))"

definition reopened :: "(logname \<Rightarrow> int) \<Rightarrow> logs \<Rightarrow> logname \<Rightarrow> bool" where
  "reopened th s l \<longleftrightarrow> (is_save l \<longrightarrow> 0 < th l \<and> ck_offset (l_checkpt s) l < th l)"

text \<open>What the restart finds of the file \<open>l\<close>, and what it leaves.\<close>

definition kept_file :: "logs \<Rightarrow> logname \<Rightarrow> logfile option" where
  "kept_file s l =
     (case l_file s l of None \<Rightarrow> None
      | Some f \<Rightarrow> if lf_mtime f = ck_mod_time (l_checkpt s) l then Some f else None)"

definition opened_file :: "start_io \<Rightarrow> (logname \<Rightarrow> int) \<Rightarrow> logs \<Rightarrow> logname \<Rightarrow> logfile option" where
  "opened_file io th s l =
     (case l_file s l of
        Some f \<Rightarrow> Some f
      | None \<Rightarrow> if reopened th s l then Some \<lparr>lf_data = [], lf_mtime = si_otime io l\<rparr> else None)"

lemma clear_ckpt_triv: "ck_mod_time c l = 0 \<Longrightarrow> ck_offset c l = 0 \<Longrightarrow> clear_ckpt l c = c"
  by (simp add: clear_ckpt_def fun_upd_idem)

lemma check_time_sync:
  assumes "good_start io" "in_sync s l"
  shows "check_time io l s = (0, set_file l (kept_file s l) s)"
  using assms
  by (auto simp: check_time_def good_start_def in_sync_def kept_file_def rm_file_def clear_ckpt_triv flag_def set_file_def
      fun_upd_idem split: option.splits)

lemma in_sync_set_file: "k \<noteq> l \<Longrightarrow> in_sync (set_file k f s) l = in_sync s l"
  "k \<noteq> l \<Longrightarrow> kept_file (set_file k f s) l = kept_file s l"
  by (simp_all add: set_file_def in_sync_def kept_file_def split: option.split)

lemma in_sync_cong:
  "l_file t l = l_file s l \<Longrightarrow> l_checkpt t = l_checkpt s \<Longrightarrow> in_sync t l = in_sync s l"
  "l_file t l = l_file s l \<Longrightarrow> l_checkpt t = l_checkpt s \<Longrightarrow> kept_file t l = kept_file s l"
  by (simp_all add: in_sync_def kept_file_def split: option.split)

lemma read_ckpt_saved:
  assumes "l_ckpt_data s = Some (ckpt_image c)" "ckpt_fits c"
  shows "read_ckpt s = (sizeof_ckpt, s\<lparr>l_ckpt_fd := Some sizeof_ckpt, l_checkpt := c\<rparr>)"
proof -
  have "drop sizeof_ckpt (ckpt_image d) = []" for d by simp
  then show ?thesis using assms by (simp add: read_ckpt_def the_default_def ckpt_of_image)
qed

lemma also_step_ok: "f s = (0, s') \<Longrightarrow> also_step n f (0, s) = (0, s')"
  by (simp add: also_step_def flag_def)

lemma add_step_ok: "f s = (True, s') \<Longrightarrow> add_step n f (e, s) = (e, s')"
  by (simp add: add_step_def flag_def)

lemma check_times_sync:
  assumes "good_start io" "\<And>l. in_sync s l" "\<And>l. 0 \<le> th l" "\<And>l. \<not> used th l \<Longrightarrow> l_file s l = None"
  shows "check_times io th s = (0, s\<lparr>l_file := kept_file s\<rparr>)"
proof -
  have un: "kept_file s l = None" "l_file s l = None" if "\<not> 0 < th l" "is_save l" for l
    using assms(4) [of l] that by (simp_all add: kept_file_def used_def)
  let ?f1 = "set_file ERR_LOG (kept_file s ERR_LOG) s"
  let ?f2 = "set_file ERR_SAVE_LOG (kept_file s ERR_SAVE_LOG) ?f1"
  let ?f3 = "set_file MSG_LOG (kept_file s MSG_LOG) ?f2"
  let ?f4 = "set_file MSG_SAVE_LOG (kept_file s MSG_SAVE_LOG) ?f3"
  have save: "check_save io th l s' = (0, set_file l (kept_file s l) s')"
    if "is_save l" "in_sync s' l" "kept_file s' l = kept_file s l" "l_file s' l = l_file s l" for l s'
    using that check_time_sync [OF assms(1), of s' l] un [of l]
    by (cases "0 < th l") (simp_all add: check_save_def set_file_def fun_upd_idem)
  have rm: "rm_unused io th l s' = (0, s')" if "is_save l" "l_file s' l = kept_file s l" for l s'
    using that un [of l] by (simp add: rm_unused_def rm_file_def)
  have 1: "check_time io ERR_LOG s = (0, ?f1)" using check_time_sync [OF assms(1,2)] by simp
  have 2: "check_save io th ERR_SAVE_LOG ?f1 = (0, ?f2)"
    by (rule save) (simp_all add: in_sync_set_file assms(2), simp add: set_file_def)
  have 3: "check_time io MSG_LOG ?f2 = (0, ?f3)"
    using check_time_sync [OF assms(1), of ?f2 MSG_LOG] by (simp add: in_sync_set_file assms(2))
  have 4: "check_save io th MSG_SAVE_LOG ?f3 = (0, ?f4)"
    by (rule save) (simp_all add: in_sync_set_file assms(2), simp add: set_file_def)
  have 5: "rm_unused io th ERR_SAVE_LOG ?f4 = (0, ?f4)" "rm_unused io th MSG_SAVE_LOG ?f4 = (0, ?f4)"
    by (rule rm; simp add: set_file_def)+
  have "l_file ?f4 = kept_file s"
  proof
    fix l show "l_file ?f4 l = kept_file s l" by (cases l) (simp_all add: set_file_def)
  qed
  then have "?f4 = s\<lparr>l_file := kept_file s\<rparr>" by (simp add: set_file_def)
  moreover have "check_times io th s = (0, ?f4)"
    unfolding check_times_def
    by (simp add: also_step_ok [of "check_time io ERR_LOG", OF 1] also_step_ok [of "check_save io th ERR_SAVE_LOG", OF 2]
        also_step_ok [of "check_time io MSG_LOG", OF 3] also_step_ok [of "check_save io th MSG_SAVE_LOG", OF 4]
        also_step_ok [of "rm_unused io th ERR_SAVE_LOG", OF 5(1)] also_step_ok [of "rm_unused io th MSG_SAVE_LOG", OF 5(2)])
  ultimately show ?thesis by simp
qed

lemma open_all_good:
  assumes "good_start io" "l_fd s = (\<lambda>_. None)" "auto \<Longrightarrow> \<forall>l. 0 \<le> ck_offset (l_checkpt s) l"
    "\<not> auto \<Longrightarrow> l_file s = (\<lambda>_. None)"
  shows "open_all io th auto s = (0, s\<lparr>l_file := opened_file io th s,
    l_fd := (\<lambda>l. if reopened th s l then Some (if auto then nat (ck_offset (l_checkpt s) l) else 0) else None)\<rparr>)"
proof -
  define put where "put = (\<lambda>l (s' :: logs). if reopened th s l then set_fd l (Some 0) (set_file l (opened_file io th s l) s') else s')"
  define seek where "seek = (\<lambda>l (s' :: logs). if auto \<and> reopened th s l then set_fd l (Some (nat (ck_offset (l_checkpt s) l))) s' else s')"
  have op: "open_file io (\<not> auto) l s' = (True, set_fd l (Some 0) (set_file l (opened_file io th s l) s'))"
    if "l_file s' l = l_file s l" "reopened th s l" for l s'
    using that assms(1,4) by (cases auto) (auto simp: open_file_def good_start_def opened_file_def set_file_def fun_upd_idem split: option.splits)
  have sv: "open_save io (\<not> auto) th l s' = (True, put l s')"
    if "l_file s' l = l_file s l" "l_checkpt s' = l_checkpt s" "is_save l" for l s'
    using that op by (auto simp: open_save_def put_def reopened_def)
  have nr: "reopened th s ERR_LOG" "reopened th s MSG_LOG" by (simp_all add: reopened_def)
  have op': "open_file io (\<not> auto) l s' = (True, put l s')"
    if "l_file s' l = l_file s l" "l \<in> {ERR_LOG, MSG_LOG}" for l s'
    using that op nr by (auto simp: put_def)
  have pf: "l_file (put l s') k = l_file s' k" "l_fd (put l s') k = l_fd s' k" "l_fd (seek l s') k = l_fd s' k"
    if "k \<noteq> l" for k l s' using that by (simp_all add: put_def seek_def set_fd_def set_file_def)
  have pc: "l_checkpt (put l s') = l_checkpt s'" "l_checkpt (seek l s') = l_checkpt s'" for l s'
    by (simp_all add: put_def seek_def set_fd_def set_file_def)
  have fd: "l_fd (put l s') l = (if reopened th s l then Some 0 else None)" if "l_fd s' l = None" for l s'
    using that by (simp add: put_def set_fd_def set_file_def)
  have sk: "set_file_offset io l s' = (True, seek l s')"
    if "auto" "l_checkpt s' = l_checkpt s" "l_fd s' l = (if reopened th s l then Some 0 else None)" for l s'
    using that assms(1,3) by (simp add: set_file_offset_def good_start_def seek_def)
  let ?p = "put MSG_SAVE_LOG (put ERR_SAVE_LOG (put MSG_LOG (put ERR_LOG s)))"
  let ?q = "seek MSG_SAVE_LOG (seek ERR_SAVE_LOG (seek MSG_LOG (seek ERR_LOG ?p)))"
  have "set_file_offsets io ?p = (0, ?q)" if auto
    using that by (simp add: set_file_offsets_def add_step_ok [OF sk] fd pf pc assms(2))
  moreover have "?q = ?p" if "\<not> auto" using that by (simp add: seek_def)
  ultimately have last: "seek_logs io auto ?p = (True, ?q)" by (simp add: seek_logs_def)
  have opn: "open_all io th auto s = (0, ?q)"
    using add_step_ok [of "seek_logs io auto", OF last, where n = "0x400" and e = 0]
    by (simp add: open_all_def add_step_ok [OF op'] add_step_ok [OF sv] pf pc)
  have "l_file ?q = opened_file io th s"
  proof
    fix l
    have "\<not> reopened th s l \<Longrightarrow> opened_file io th s l = l_file s l"
      by (simp add: opened_file_def split: option.split)
    then show "l_file ?q l = opened_file io th s l"
      by (cases l) (auto simp: put_def seek_def set_fd_def set_file_def)
  qed
  moreover have "l_fd ?q = (\<lambda>l. if reopened th s l then Some (if auto then nat (ck_offset (l_checkpt s) l) else 0) else None)"
    (is "_ = ?fd")
  proof
    fix l show "l_fd ?q l = ?fd l"
      by (cases l) (simp_all add: put_def seek_def set_fd_def set_file_def assms(2))
  qed
  moreover have "l_ckpt_data (f l s') = l_ckpt_data s'" "l_ckpt_fd (f l s') = l_ckpt_fd s'" "l_checkpt (f l s') = l_checkpt s'"
      "l_log_dir (f l s') = l_log_dir s'" "l_archive_sequence_count (f l s') = l_archive_sequence_count s'"
      "l_archives (f l s') = l_archives s'" "l_signals (f l s') = l_signals s'" "l_msgqid (f l s') = l_msgqid s'"
      "l_queue (f l s') = l_queue s'" if "f = put \<or> f = seek" for f l s'
    using that by (auto simp: put_def seek_def set_fd_def set_file_def)
  ultimately have "?q = s\<lparr>l_file := opened_file io th s,
      l_fd := (\<lambda>l. if reopened th s l then Some (if auto then nat (ck_offset (l_checkpt s) l) else 0) else None)\<rparr>"
    by (intro logs.equality) simp_all
  then show ?thesis unfolding opn by simp
qed

text \<open>After a restart the same checkpoint is in force; a log is open again, at the position it had, unless it
  is a save log whose position (in bytes) has reached the threshold (in blocks).\<close>

lemma open_logs_resumes:
  assumes "resumable th s" "good_start io"
  shows "\<exists>s'. open_logs io th True (new_process s) = (0, s') \<and> l_checkpt s' = l_checkpt s \<and> saved s' \<and> l_ckpt_fd s' \<noteq> None \<and>
    (\<forall>l. l_fd s' l = (if reopened th s l then Some (nat (ck_offset (l_checkpt s) l)) else None)) \<and>
    (\<forall>l. used th l \<longrightarrow> map_option lf_data (l_file s' l) = Some (case l_file s l of None \<Rightarrow> [] | Some f \<Rightarrow> lf_data f)) \<and>
    resumable th s' \<and> l_log_dir s' = l_log_dir s \<and> l_queue s' = l_queue s"
proof -
  define c where "c = l_checkpt s"
  define s0 where "s0 = (new_process s)\<lparr>l_ckpt_fd := Some sizeof_ckpt, l_checkpt := c\<rparr>"
  have d: "l_ckpt_data s = Some (ckpt_image c)" "ckpt_fits c" "ck_checksum c = int (sum_bytes (ckpt_bytes c))" "ck_thres c = th"
    using assms(1) by (auto simp: resumable_def saved_def c_def)
  have o: "(new_process s)\<lparr>l_ckpt_fd := Some 0, l_ckpt_data := Some (the_default [] (l_ckpt_data (new_process s)))\<rparr>
      = (new_process s)\<lparr>l_ckpt_fd := Some 0\<rparr>"
    by (simp add: new_process_def d the_default_def)
  have r: "read_ckpt ((new_process s)\<lparr>l_ckpt_fd := Some 0\<rparr>) = (sizeof_ckpt, s0)"
    by (subst read_ckpt_saved [OF _ d(2)]) (simp_all add: new_process_def d s0_def)
  have k: "check_ckpt io th sizeof_ckpt s0 = (0, s0)" by (simp add: check_ckpt_def d sizeof_ckpt_def s0_def)
  have sy: "in_sync s0 l" "kept_file s0 l = kept_file s l" for l
    using assms(1) in_sync_cong [of s0 l s] by (simp_all add: resumable_def new_process_def c_def s0_def)
  have "check_times io th s0 = (0, s0\<lparr>l_file := kept_file s0\<rparr>)"
    using assms sy by (intro check_times_sync) (auto simp: resumable_def s0_def new_process_def)
  then have cl: "check_logs io th (new_process s) = (0, s0\<lparr>l_file := kept_file s0\<rparr>)"
    using assms(2) unfolding check_logs_def o by (simp add: r k good_start_def)
  define s1 where "s1 = s0\<lparr>l_file := kept_file s0\<rparr>"
  have ck: "\<forall>l. 0 \<le> ck_offset (l_checkpt s1) l" using assms(1) by (simp add: s1_def s0_def c_def resumable_def)
  define s2 where "s2 = s1\<lparr>l_file := opened_file io th s1,
    l_fd := (\<lambda>l. if reopened th s1 l then Some (nat (ck_offset (l_checkpt s1) l)) else None)\<rparr>"
  have "open_all io th True s1 = (0, s2)"
  proof -
    have fd: "l_fd s1 = (\<lambda>_. None)" by (simp add: s1_def s0_def new_process_def)
    show ?thesis unfolding s2_def by (subst open_all_good [OF assms(2) fd]) (simp_all add: ck cong: if_cong)
  qed
  then have op: "open_logs io th True (new_process s) = (0, s2)"
    by (simp add: open_logs_def cl s1_def flag_def)
  have re: "reopened th s1 l = reopened th s l" for l by (simp add: reopened_def s1_def s0_def c_def)
  have ck2: "l_checkpt s2 = l_checkpt s" by (simp add: s2_def s1_def s0_def c_def)
  have fl: "l_file s2 l = (case kept_file s l of Some f \<Rightarrow> Some f
      | None \<Rightarrow> if reopened th s l then Some \<lparr>lf_data = [], lf_mtime = si_otime io l\<rparr> else None)" for l
    by (simp add: s2_def opened_file_def re) (simp add: s1_def sy)
  have sync: "in_sync s l" "\<not> used th l \<longrightarrow> l_file s l = None" for l using assms(1) by (simp_all add: resumable_def)
  have zero: "ck_mod_time (l_checkpt s) l = 0 \<and> ck_offset (l_checkpt s) l = 0 \<and>
      (case l_file s l of None \<Rightarrow> [] | Some f \<Rightarrow> lf_data f) = []" if "kept_file s l = None" for l
    using that sync(1) [of l] by (cases "l_file s l") (simp_all add: kept_file_def in_sync_def split: if_splits)
  have kept: "l_file s l = Some f \<and> lf_mtime f = ck_mod_time (l_checkpt s) l" if "kept_file s l = Some f" for l f
    using that by (cases "l_file s l") (simp_all add: kept_file_def split: if_splits)
  have data: "map_option lf_data (l_file s2 l) = Some (case l_file s l of None \<Rightarrow> [] | Some f \<Rightarrow> lf_data f)"
    if "used th l" for l
  proof (cases "kept_file s l")
    case None
    then have "reopened th s l" using zero that by (simp add: reopened_def used_def)
    then show ?thesis using None zero by (simp add: fl)
  qed (simp add: fl kept)
  have "in_sync s2 l" for l
  proof (cases "kept_file s l")
    case None
    then show ?thesis using zero [of l] assms(2) by (simp add: in_sync_def fl ck2 good_start_def)
  next
    case (Some f)
    then show ?thesis using kept [OF Some] sync(1) [of l] by (simp add: in_sync_def fl ck2)
  qed
  moreover have "l_file s2 l = None" if "\<not> used th l" for l
    using that sync(2) [of l] by (simp add: fl kept_file_def reopened_def used_def)
  moreover have "saved s2" using assms(1) by (simp add: saved_def ck2 resumable_def) (simp add: s2_def s1_def s0_def new_process_def)
  ultimately have "resumable th s2" using assms(1) by (simp add: resumable_def ck2)
  moreover have "l_fd s2 l = (if reopened th s l then Some (nat (ck_offset (l_checkpt s) l)) else None)" for l
    unfolding s2_def by (simp add: re) (simp add: s1_def s0_def c_def)
  moreover have "l_ckpt_fd s2 \<noteq> None" "l_log_dir s2 = l_log_dir s" "l_queue s2 = l_queue s"
    by (simp_all add: s2_def s1_def s0_def new_process_def)
  ultimately show ?thesis using op ck2 data \<open>saved s2\<close> by (intro exI [of _ s2]) simp
qed

text \<open>The first start: whatever logs there are, they are removed and opened empty. A checkpoint is kept only
  with \<open>auto_start_flag\<close>.\<close>

lemma rm_file_good: "good_start io \<Longrightarrow> rm_file io l s = (0, set_file l None s)"
  by (auto simp: rm_file_def good_start_def set_file_def fun_upd_idem split: option.split)

lemma rm_all: "set_file MSG_SAVE_LOG None (set_file ERR_SAVE_LOG None (set_file MSG_LOG None (set_file ERR_LOG None s)))
    = s\<lparr>l_file := (\<lambda>_. None)\<rparr>"
proof -
  have "(\<lambda>l. if l = MSG_SAVE_LOG then None else if l = ERR_SAVE_LOG then None else if l = MSG_LOG then None
      else if l = ERR_LOG then None else l_file s l) = (\<lambda>_. None)"
  proof
    fix l show "(if l = MSG_SAVE_LOG then None else if l = ERR_SAVE_LOG then None else if l = MSG_LOG then None
      else if l = ERR_LOG then None else l_file s l) = None" by (cases l) simp_all
  qed
  then show ?thesis by (simp add: set_file_def fun_upd_def)
qed

lemma fresh_ckpt_fits: "\<forall>l. fits64 (th l) \<Longrightarrow> ckpt_fits (fresh_ckpt th)"
  by (simp add: ckpt_fits_def fresh_ckpt_def set_checksum_def)

lemma check_ckpt_fresh:
  assumes "good_start io" "l_ckpt_fd s = Some 0" "l_ckpt_data s = Some []"
  shows "check_ckpt io th 0 s = (0, s\<lparr>l_checkpt := fresh_ckpt th, l_ckpt_fd := Some sizeof_ckpt,
    l_ckpt_data := Some (ckpt_image (fresh_ckpt th)), l_file := (\<lambda>_. None)\<rparr>)"
proof -
  obtain n where n: "si_ck_write io = Some n" "sizeof_ckpt \<le> n" using assms(1) by (auto simp: good_start_def split: option.splits)
  have p: "put_at 0 bs [] = bs" "truncate_to sizeof_ckpt (ckpt_image c) = ckpt_image c" for bs c
    by (simp_all add: put_at_def truncate_to_def)
  have rm: "also_step k (rm_file io l) (0, s') = (0, set_file l None s')" for k l s'
    by (simp add: also_step_def rm_file_good [OF assms(1)] flag_def)
  show ?thesis using assms n by (simp add: check_ckpt_def Let_def p rm rm_all good_start_def)
qed

lemma used_reopened: "ck_offset (l_checkpt s) l = 0 \<Longrightarrow> reopened th s l = used th l"
  by (auto simp: reopened_def used_def)

lemma open_logs_first:
  assumes "good_start io" "l_ckpt_data s = None" "\<forall>l. 0 \<le> th l \<and> fits64 (th l)"
  shows "\<exists>s'. open_logs io th auto (new_process s) = (0, s') \<and> (l_ckpt_fd s' \<noteq> None \<longleftrightarrow> auto) \<and>
    (auto \<longrightarrow> resumable th s' \<and> (\<forall>l. ck_offset (l_checkpt s') l = 0)) \<and>
    (\<forall>l. used th l \<longrightarrow> holds_log s' l empty_log) \<and> (\<forall>l. \<not> used th l \<longrightarrow> l_fd s' l = None) \<and>
    l_log_dir s' = l_log_dir s \<and> l_queue s' = l_queue s"
proof (cases auto)
  case True
  let ?c = "fresh_ckpt th"
  define s1 where "s1 = (new_process s)\<lparr>l_checkpt := ?c, l_ckpt_fd := Some sizeof_ckpt,
    l_ckpt_data := Some (ckpt_image ?c), l_file := (\<lambda>_. None)\<rparr>"
  have z: "ckpt_of (ckpt_image zero_ckpt) = zero_ckpt" by (rule ckpt_of_image) (simp add: ckpt_fits_def zero_ckpt_def)
  have r: "read_ckpt ((new_process s)\<lparr>l_ckpt_fd := Some 0, l_ckpt_data := Some []\<rparr>) =
      (0, (new_process s)\<lparr>l_ckpt_fd := Some 0, l_ckpt_data := Some []\<rparr>)"
    by (simp add: read_ckpt_def the_default_def new_process_def z)
  have c: "check_ckpt io th 0 ((new_process s)\<lparr>l_ckpt_fd := Some 0, l_ckpt_data := Some []\<rparr>) = (0, s1)"
    by (subst check_ckpt_fresh [OF assms(1)]) (simp_all add: s1_def new_process_def)
  have ck: "ck_offset ?c = (\<lambda>_. 0)" "ck_mod_time ?c = (\<lambda>_. 0)" "ck_thres ?c = th"
    "ck_checksum ?c = int (sum_bytes (ckpt_bytes ?c))"
    by (simp_all add: fresh_ckpt_def set_checksum_def ckpt_bytes_def ckpt_words_def)
  have sy: "in_sync s1 l" "kept_file s1 = (\<lambda>_. None)" for l by (simp_all add: in_sync_def s1_def ck kept_file_def fun_eq_iff)
  have "check_times io th s1 = (0, s1\<lparr>l_file := kept_file s1\<rparr>)"
    using assms(3) by (intro check_times_sync [OF assms(1) sy(1)]) (simp_all add: s1_def)
  then have t: "check_times io th s1 = (0, s1)" unfolding sy(2) by (simp add: s1_def)
  have nd: "l_ckpt_data (new_process s) = None" using assms(2) by (simp add: new_process_def)
  have cl: "check_logs io th (new_process s) = (0, s1)"
    using assms(1) by (simp add: check_logs_def nd the_default_def r c t good_start_def)
  define s2 where "s2 = s1\<lparr>l_file := opened_file io th s1, l_fd := (\<lambda>l. if reopened th s1 l then Some 0 else None)\<rparr>"
  have "open_all io th True s1 = (0, s2)"
    unfolding s2_def by (subst open_all_good [OF assms(1)]) (simp_all add: s1_def new_process_def ck cong: if_cong)
  then have op: "open_logs io th True (new_process s) = (0, s2)" by (simp add: open_logs_def cl flag_def)
  have re: "reopened th s1 l = used th l" for l by (rule used_reopened) (simp add: s1_def ck)
  have fl: "l_file s2 l = (if used th l then Some \<lparr>lf_data = [], lf_mtime = si_otime io l\<rparr> else None)" for l
    by (simp add: s2_def opened_file_def re) (simp add: s1_def)
  have ck2: "l_checkpt s2 = ?c" "l_ckpt_data s2 = Some (ckpt_image ?c)" by (simp_all add: s2_def s1_def)
  have "resumable th s2"
    using assms fresh_ckpt_fits [of th] by (simp add: resumable_def saved_def ck2 ck in_sync_def fl good_start_def)
  moreover have "l_fd s2 l = (if used th l then Some 0 else None)" for l by (simp add: s2_def re)
  moreover have "l_ckpt_fd s2 \<noteq> None" "l_log_dir s2 = l_log_dir s" "l_queue s2 = l_queue s"
    by (simp_all add: s2_def s1_def new_process_def)
  ultimately show ?thesis using True op
    by (intro exI [of _ s2]) (simp add: holds_log_def empty_log_def a_view_def fl ck2 ck)
next
  case False
  define s1 where "s1 = (new_process s)\<lparr>l_file := (\<lambda>_. None)\<rparr>"
  have rm: "add_step k (\<lambda>s. let (rc, s) = rm_file io l s in (rc = 0, s)) (0, s') = (0, set_file l None s')" for k l s'
    by (simp add: add_step_def rm_file_good [OF assms(1)] flag_def)
  have ck: "add_step k (\<lambda>s. let (rc, s) = rm_ckpt_file io s in (rc = 0, s)) (0, new_process s) = (0, new_process s)" for k
    using assms(2) by (simp add: add_step_def rm_ckpt_file_def flag_def new_process_def)
  have "remove_logs io (new_process s) = (0, s1)"
    by (simp add: remove_logs_def Let_def rm [unfolded Let_def] ck [unfolded Let_def] rm_all s1_def)
  define s2 where "s2 = s1\<lparr>l_file := opened_file io th s1, l_fd := (\<lambda>l. if reopened th s1 l then Some 0 else None)\<rparr>"
  have "open_all io th False s1 = (0, s2)"
    unfolding s2_def by (subst open_all_good [OF assms(1)]) (simp_all add: s1_def new_process_def cong: if_cong)
  then have op: "open_logs io th False (new_process s) = (0, s2)"
    by (simp add: open_logs_def \<open>remove_logs io (new_process s) = (0, s1)\<close>)
  have re: "reopened th s1 l = used th l" for l by (rule used_reopened) (simp add: s1_def new_process_def zero_ckpt_def)
  have fl: "l_file s2 l = (if used th l then Some \<lparr>lf_data = [], lf_mtime = si_otime io l\<rparr> else None)" for l
    by (simp add: s2_def opened_file_def re) (simp add: s1_def)
  have "l_fd s2 l = (if used th l then Some 0 else None)" for l by (simp add: s2_def re)
  moreover have "l_ckpt_fd s2 = None" "l_log_dir s2 = l_log_dir s" "l_queue s2 = l_queue s"
    by (simp_all add: s2_def s1_def new_process_def)
  ultimately show ?thesis using False op
    by (intro exI [of _ s2]) (simp add: holds_log_def empty_log_def a_view_def fl)
qed

end
