(* ===== verification/Hxs_Msg.thy ===== *)
theory Hxs_Msg
  imports Hxs_Log "HOL-Library.Multiset"
begin

text \<open>
  The message collector \<open>hxsmsg\<close>: its arguments (\<open>do_argv.c\<close>, \<open>ck_values.c\<close>, \<open>max_filesz.c\<close>), what it does with a
  message (\<open>copy_msg.c\<close>), taking messages from the queue (\<open>read_msg.c\<close>, \<open>open_ipc.c\<close>), its signal handlers
  (\<open>SIGTERM_h.c\<close>, \<open>SIGCHLD_h.c\<close>), the end (\<open>clean_up.c\<close>), and \<open>main\<close> (\<open>hxsmsg.c\<close>).

  The collector is driven by a list of events: messages arrive in its queue, a receive is attempted, a signal is
  delivered. A receive with no message to take waits, that is, changes nothing.
\<close>

unbundle bit_operations_syntax

record config =
  cf_thres :: "logname \<Rightarrow> int"
  cf_err_wrap :: bool
  cf_msg_wrap :: bool
  cf_archive :: bool
  cf_auto_start :: bool
  cf_heartbeat_dev :: cstring
  cf_heartbeat_cycle :: cstring

record hxsmsg =
  h_logs :: logs
  h_queue_id :: int
  h_display :: "(int \<times> string) list"
  h_pipe_dev :: "bool \<times> bool"
  h_pipe :: string
  h_hxsstress_PID :: int
  h_main_exit_code :: int

subsection \<open>Arguments\<close>

abbreviation (input) DISK_BUF_SIZE :: int where "DISK_BUF_SIZE \<equiv> 3912"

text \<open>The value of the digits before \<open>strtol\<close> saturates it; \<open>errno\<close> is set when it does.\<close>

definition strtol_exact :: "cstring \<Rightarrow> int" where
  "strtol_exact s =
     (let (neg, t) = strtol_sign (dropWhile isspace s); v = int (dec_val (takeWhile isdigit t))
      in if neg then - v else v)"

definition atol_errno :: "cstring \<Rightarrow> bool" where
  "atol_errno s = (clamp64 (strtol_exact s) \<noteq> strtol_exact s)"

text \<open>Division of C: towards zero.\<close>

definition cdiv :: "int \<Rightarrow> int \<Rightarrow> int" where
  "cdiv a b = (if a < 0 then - ((- a) div b) else a div b)"

definition get_max_filesize :: "int \<Rightarrow> int" where
  "get_max_filesize ulimit = (if ulimit \<le> - 1 then - 1 else ulimit)"

definition max_threshold :: "int \<Rightarrow> int" where
  "max_threshold ulimit =
     (let max_file_size = get_max_filesize ulimit
      in if max_file_size = - 1 then (2 ^ 63 - 1) - DISK_BUF_SIZE else max_file_size - DISK_BUF_SIZE)"

definition ck_threshold :: "int \<Rightarrow> cstring \<Rightarrow> int" where
  "ck_threshold max_thres thres_string =
     (let log_threshold = cdiv (fst (strtol thres_string)) 512
      in if atol_errno thres_string then - 1
         else if log_threshold < 0 then - 1
         else if log_threshold > max_thres then max_thres
         else log_threshold)"

definition ck_yn_flag :: "cstring \<Rightarrow> bool option" where
  "ck_yn_flag s =
     (if peek s = CHR ''y'' \<or> peek s = CHR ''Y'' then Some True
      else if peek s = CHR ''n'' \<or> peek s = CHR ''N'' then Some False else None)"

definition wrap16 :: "int \<Rightarrow> int" where
  "wrap16 i = (i + 2 ^ 15) mod 2 ^ 16 - 2 ^ 15"

text \<open>The code and the new contents of the string. \<open>atoi\<close> never sets \<open>errno\<close> to \<open>EBADF\<close>, so the code is 0.\<close>

definition ck_heartbeat_cycle :: "cstring \<Rightarrow> int \<times> cstring" where
  "ck_heartbeat_cycle cycle_string =
     (let heartbeat_cycle = wrap16 (atoi cycle_string)
      in if heartbeat_cycle < 1 then (0, ''1'')
         else if 3600 < heartbeat_cycle then (0, ''3600'')
         else (0, cycle_string))"

text \<open>\<open>do_argv\<close>: the code and the settings. \<open>writable\<close> is the answer of \<open>access\<close> for the heartbeat device. The
  cycle is copied to 31 of 32 uninitialised bytes: a longer text is not terminated.\<close>

definition do_argv :: "int \<Rightarrow> bool \<Rightarrow> cstring list \<Rightarrow> (int \<times> config option) fault" where
  "do_argv ulimit writable argv =
     (if length argv \<noteq> 11 then Some (0x200, None)
      else
        (let ck = ck_threshold (max_threshold ulimit);
             err = ck (argv ! 1); msg = ck (argv ! 2); err_save = ck (argv ! 3); msg_save = ck (argv ! 4);
             ew = ck_yn_flag (argv ! 5); mw = ck_yn_flag (argv ! 6); ar = ck_yn_flag (argv ! 7);
             au = ck_yn_flag (argv ! 8); dev = argv ! 9;
             null = (strcmp dev ''/dev/null'' = 0);
             e = flag (err = - 1) 1 + flag (msg = - 1) 2 + flag (err_save = - 1) 4 + flag (msg_save = - 1) 8 +
                 flag (ew = None) 0x10 + flag (mw = None \<or> ar = None) 0x20 + flag (au = None) 0x40 +
                 flag (\<not> null \<and> \<not> writable) 0x80;
             (hb, cycle) = (if null then (0, []) else ck_heartbeat_cycle (argv ! 10));
             e = e + flag (hb = - 1) 0x100
         in if \<not> null \<and> 31 \<le> length (argv ! 10) then None
            else if e \<noteq> 0 then Some (e, None)
            else Some (0, Some
                   \<lparr>cf_thres = (\<lambda>l. case l of ERR_LOG \<Rightarrow> err | ERR_SAVE_LOG \<Rightarrow> err_save | MSG_LOG \<Rightarrow> msg
                                          | MSG_SAVE_LOG \<Rightarrow> msg_save),
                    cf_err_wrap = the ew, cf_msg_wrap = the mw, cf_archive = the ar, cf_auto_start = the au,
                    cf_heartbeat_dev = dev, cf_heartbeat_cycle = cycle\<rparr>)))"

subsection \<open>Copying a message\<close>

record copy_io =
  ci_log :: "logname \<Rightarrow> log_io"
  ci_display :: bool
  ci_pipe :: "nat option"

abbreviation (input) HE_STATUS :: int where "HE_STATUS \<equiv> 20"

definition log_wrap :: "config \<Rightarrow> logname \<Rightarrow> bool" where
  "log_wrap cf l = (case l of ERR_LOG \<Rightarrow> cf_err_wrap cf | MSG_LOG \<Rightarrow> cf_msg_wrap cf | _ \<Rightarrow> False)"

text \<open>One of the four blocks of \<open>copy_message\<close>: a log that is open gets the text. The error log and the message
  log signal the parent when they are full and do not wrap; the save logs are closed.\<close>

definition copy_to :: "config \<Rightarrow> copy_io \<Rightarrow> string \<Rightarrow> int \<Rightarrow> logname \<Rightarrow> int \<times> logs \<Rightarrow> (int \<times> logs) fault" where
  "copy_to cf io text n l p =
     (let (e, s) = p
      in if l_fd s l = None then Some (e, s)
         else do { (rc, s) \<leftarrow> write_log (ci_log io l) l text (cf_thres cf l) (log_wrap cf l) (\<not> is_save l)
                                (cf_archive cf) s;
                   Some (e + flag (rc \<noteq> 0) n, s) })"

definition stress_msg :: "qmsg \<Rightarrow> string" where
  "stress_msg m = q_sdev_id m @ '':'' @ show_int (q_error m) @ [NL]"

definition write_pipe :: "copy_io \<Rightarrow> qmsg \<Rightarrow> hxsmsg \<Rightarrow> (int \<times> hxsmsg) fault" where
  "write_pipe io m h =
     (let text = stress_msg m
      in if 128 \<le> length text then None
         else case ci_pipe io of
                None \<Rightarrow> Some (1, h)
              | Some n \<Rightarrow> Some (flag (length (take n text) \<noteq> length text) 2, h\<lparr>h_pipe := h_pipe h @ take n text\<rparr>))"

definition copy_message :: "config \<Rightarrow> copy_io \<Rightarrow> qmsg \<Rightarrow> hxsmsg \<Rightarrow> (int \<times> hxsmsg) fault" where
  "copy_message cf io m h =
     (let text = q_text m
      in if q_severity m = HE_STATUS then
           (if 1000 \<le> length text then None
            else if ci_display io then Some (0, h\<lparr>h_display := h_display h @ [(q_type m, text)]\<rparr>)
            else Some (1, h))
         else
           do { p \<leftarrow> copy_to cf io text 1 MSG_LOG (0, h_logs h);
                p \<leftarrow> copy_to cf io text 2 MSG_SAVE_LOG p;
                if q_severity m < HTX_SYS_INFO then
                  do { p \<leftarrow> copy_to cf io text 4 ERR_LOG p;
                       (e, s) \<leftarrow> copy_to cf io text 8 ERR_SAVE_LOG p;
                       let h = h\<lparr>h_logs := s\<rparr>;
                       if snd (h_pipe_dev h) \<and> h_hxsstress_PID h \<noteq> - 1 then
                         do { (rc, h) \<leftarrow> write_pipe io m h; Some (e + flag (rc \<noteq> 0) 0x10, h) }
                       else Some (e, h) }
                else Some (fst p, h\<lparr>h_logs := snd p\<rparr>) })"

subsection \<open>The queue\<close>

text \<open>\<open>msgrcv (msgqid, ..., -HTX_SYS_FINAL_MSG, MSG_NOERROR)\<close>: the first message of the lowest type up to
  \<open>HTX_SYS_FINAL_MSG\<close>.\<close>

definition next_message :: "qmsg list \<Rightarrow> qmsg option" where
  "next_message q =
     (let c = filter (\<lambda>m. q_type m \<le> HTX_SYS_FINAL_MSG) q
      in if c = [] then None else find (\<lambda>m. q_type m = Min (set (map q_type c))) c)"

definition read_message :: "logs \<Rightarrow> (qmsg \<times> logs) option" where
  "read_message s =
     (case next_message (l_queue s) of
        None \<Rightarrow> None
      | Some m \<Rightarrow> Some (m, s\<lparr>l_queue := remove1 m (l_queue s)\<rparr>))"

definition open_ipc :: "int \<Rightarrow> int \<Rightarrow> hxsmsg \<Rightarrow> int \<times> hxsmsg" where
  "open_ipc msgqid queue_id h =
     (let exit_code = flag (msgqid = - 1) 1;
          exit_code = (if queue_id = - 1 then 1 else 0)
      in (exit_code, h\<lparr>h_logs := (h_logs h)\<lparr>l_msgqid := msgqid\<rparr>, h_queue_id := queue_id\<rparr>))"

subsection \<open>The end\<close>

record end_io =
  ei_msgctl :: bool
  ei_msgctl2 :: bool
  ei_ck_close :: bool
  ei_close :: "logname \<Rightarrow> bool"
  ei_sigaction :: bool
  ei_signal :: signal_io
  ei_close0 :: bool
  ei_close1 :: bool

text \<open>\<open>set_signal_hdl\<close>, with the answer of \<open>sigaction\<close>. Its diagnostics can only reach a queue that the program
  is about to remove.\<close>

abbreviation (input) SIGCHLD :: int where "SIGCHLD \<equiv> 17"

definition set_signal_hdl :: "int \<Rightarrow> bool \<Rightarrow> int" where
  "set_signal_hdl signal_number sigaction_ok =
     (if signal_number < 1 \<or> SIGMAX < signal_number then 1 else if \<not> sigaction_ok then 2 else 0)"

definition close_log :: "end_io \<Rightarrow> int \<Rightarrow> logname \<Rightarrow> int \<times> logs \<Rightarrow> int \<times> logs" where
  "close_log io n l p =
     (if l_fd (snd p) l = None then p
      else (let (rc, s) = close_file (ei_close io l) l (snd p) in (fst p + flag (rc \<noteq> 0) n, s)))"

definition clean_up :: "end_io \<Rightarrow> hxsmsg \<Rightarrow> (int \<times> hxsmsg) fault" where
  "clean_up io h =
     (let s = h_logs h;
          e = flag (l_msgqid s \<noteq> - 1 \<and> \<not> ei_msgctl io \<or> h_queue_id h \<noteq> - 1 \<and> \<not> ei_msgctl2 io) 1;
          s = (if l_msgqid s \<noteq> - 1 then s\<lparr>l_msgqid := - 1, l_queue := (if ei_msgctl io then [] else l_queue s)\<rparr> else s);
          h = h\<lparr>h_queue_id := - 1\<rparr>;
          e = e + flag (l_ckpt_fd s \<noteq> None \<and> \<not> ei_ck_close io) 2;
          s = s\<lparr>l_ckpt_fd := None\<rparr>;
          (e, s) = (close_log io 0x20 MSG_SAVE_LOG \<circ> close_log io 0x10 MSG_LOG \<circ> close_log io 8 ERR_SAVE_LOG \<circ>
                    close_log io 4 ERR_LOG) (e, s)
      in do { (e, s) \<leftarrow> (if h_hxsstress_PID h \<noteq> - 1 then
                            do { let e = e + flag (set_signal_hdl SIGCHLD (ei_sigaction io) \<noteq> 0) 0x200;
                                 (rc, s) \<leftarrow> send_signal (ei_signal io) (h_hxsstress_PID h) SIGTERM s;
                                 Some (e + flag (rc \<noteq> 0) 0x40, s) }
                          else Some (e, s));
              let e = e + flag (fst (h_pipe_dev h) \<and> \<not> ei_close0 io) 0x80 + flag (snd (h_pipe_dev h) \<and> \<not> ei_close1 io) 0x100;
              Some (e, h\<lparr>h_logs := s, h_pipe_dev := (False, False)\<rparr>) })"

definition or_exit :: "int \<Rightarrow> hxsmsg \<Rightarrow> hxsmsg" where
  "or_exit n h = h\<lparr>h_main_exit_code := (h_main_exit_code h) OR n\<rparr>"

definition exit_program :: "end_io \<Rightarrow> hxsmsg \<Rightarrow> (int \<times> hxsmsg) fault" where
  "exit_program io h =
     do { (rc, h) \<leftarrow> clean_up io h;
          let h = (if rc \<noteq> 0 then or_exit 0x20 h else h);
          Some (h_main_exit_code h, h) }"

subsection \<open>Signals\<close>

text \<open>What the calls of a handler answer: those of the first message and the signal, those of the last message, and
  those of the end of the program.\<close>

record hdl_io =
  hi_signal :: signal_io
  hi_final :: signal_io
  hi_end :: end_io

text \<open>Asking the supervisor to end the test; if that fails, a final message to the collector itself; if that fails too,
  the program ends: \<open>Inl\<close> its exit code.\<close>

definition signal_or_final :: "hdl_io \<Rightarrow> int \<Rightarrow> hxsmsg \<Rightarrow> ((int \<times> hxsmsg) + hxsmsg) fault" where
  "signal_or_final io severity h =
     do { (rc, s) \<leftarrow> send_signal (hi_signal io) (g_ppid (hi_signal io)) SIGUSR1 (h_logs h);
          let h = h\<lparr>h_logs := s\<rparr>;
          if rc = 0 then Some (Inr h)
          else
            (let text = program_name @ '' -- Error sending SIGUSR1 signal to the supervisor.'' @ [NL] @
                   ''Putting HTX_SYS_FINAL_MSG on IPC message queue to shut us down...'' @ [NL];
                 (rc, s) = send_message (hi_final io) text 0 severity HTX_SYS_FINAL_MSG s;
                 h = h\<lparr>h_logs := s\<rparr>
             in if rc = 0 then Some (Inr h)
                else do { r \<leftarrow> exit_program (hi_end io) h; Some (Inl r) }) }"

definition SIGTERM_hdl :: "hdl_io \<Rightarrow> hxsmsg \<Rightarrow> ((int \<times> hxsmsg) + hxsmsg) fault" where
  "SIGTERM_hdl io h =
     (let h = or_exit 0x40 h;
          text = program_name @ '' -- SIGTERM signal received.'' @ [NL] @
            ''Sending the SIGUSR1 signal to the supervisor to shut us down...'' @ [NL];
          h = h\<lparr>h_logs := snd (send_message (hi_signal io) text 0 HTX_SYS_INFO HTX_SYS_MSG (h_logs h))\<rparr>
      in signal_or_final io (if g_ppid (hi_signal io) = 1 then HTX_SYS_INFO else HTX_SYS_HARD_ERROR) h)"

abbreviation (input) HTX_SYS_SOFT_ERROR :: int where "HTX_SYS_SOFT_ERROR \<equiv> 0"

text \<open>The death of a child: \<open>child\<close> and \<open>status\<close> are the answer of \<open>wait3\<close>, and \<open>child = -1\<close> carries \<open>errno\<close> in
  \<open>status\<close>. A status that is neither an exit nor a signal leaves \<open>tag\<close> uninitialised. While \<open>system\<close> runs, the
  handler does nothing; the events of the model come between calls, so that is no event of it.\<close>

definition death_tag :: "int \<Rightarrow> string option" where
  "death_tag status =
     (if status AND 0xff = 0 then Some (''exit('' @ show_int (drop_bit 8 (status AND 0xff00)) @ '') call'')
      else if status AND 0xff00 = 0 then Some (''signal '' @ show_int (status AND 0x7f)) else None)"

definition SIGCHLD_hdl :: "hdl_io \<Rightarrow> int \<Rightarrow> int \<Rightarrow> hxsmsg \<Rightarrow> ((int \<times> hxsmsg) + hxsmsg) fault" where
  "SIGCHLD_hdl io child status h =
     (let say = (\<lambda>text err sev h. h\<lparr>h_logs := snd (send_message (hi_signal io) text err sev HTX_SYS_MSG (h_logs h))\<rparr>)
      in if child = - 1 then
           (let text = program_name @ '' -- Error on wait3() WNOHANG call in SIGCHLD_hdl().'' @ [NL] @ ''errno: '' @
                  show_int status @ '' ('' @ g_strerror (hi_signal io) status @ '').'' @ [NL]
            in if length text < 128 then Some (Inr (say text status HTX_SYS_HARD_ERROR h)) else None)
         else if child = 0 then
           Some (Inr (say (program_name @ '' -- wait3() WNOHANG call in SIGCHLD_hdl() returned 0.'' @ [NL] @
             ''No child processes have stopped or exited!'' @ [NL]) 0 HTX_SYS_SOFT_ERROR h))
         else if h_hxsstress_PID h \<noteq> - 1 \<and> child = h_hxsstress_PID h then
           do { tag \<leftarrow> death_tag status;
                let text = program_name @ '' -- hxsstress program has been terminated by a '' @ tag @ ''.'' @ [NL] @
                  ''Sending SIGUSR1 signal to hxssup to terminate test...'' @ [NL];
                if length text < 128 then
                  signal_or_final io HTX_SYS_HARD_ERROR (say text 0 HTX_SYS_INFO (h\<lparr>h_hxsstress_PID := - 1\<rparr>))
                else None }
         else
           (let text = program_name @ '' -- Error: Child process id ('' @ show_int child @ '') returned by the wait3()'' @
                  [NL] @ ''system call is not any child process that I recognize.'' @ [NL]
            in if length text < 128 then Some (Inr (say text 0 HTX_SYS_SOFT_ERROR h)) else None))"

subsection \<open>\<open>main\<close>\<close>

datatype event =
    Arrive "qmsg list"
  | Receive bool copy_io
  | Terminate hdl_io
  | Child hdl_io int int

text \<open>The loop of \<open>main\<close>: \<open>Inl\<close> for a program that has ended in a handler, \<open>Inr (final, h)\<close> for a loop that has
  taken the final message or is still going on.\<close>

fun main_loop :: "config \<Rightarrow> event list \<Rightarrow> hxsmsg \<Rightarrow> ((int \<times> hxsmsg) + (bool \<times> hxsmsg)) fault" where
  "main_loop cf [] h = Some (Inr (False, h))"
| "main_loop cf (Arrive ms # es) h =
     main_loop cf es (h\<lparr>h_logs := (h_logs h)\<lparr>l_queue := l_queue (h_logs h) @ ms\<rparr>\<rparr>)"
| "main_loop cf (Receive ok io # es) h =
     (if \<not> ok then main_loop cf es h
      else case read_message (h_logs h) of
             None \<Rightarrow> main_loop cf es h
           | Some (m, s) \<Rightarrow>
               do { (rc, h) \<leftarrow> copy_message cf io m (h\<lparr>h_logs := s\<rparr>);
                    if q_type m = HTX_SYS_FINAL_MSG then Some (Inr (True, h)) else main_loop cf es h })"
| "main_loop cf (Terminate io # es) h =
     do { r \<leftarrow> SIGTERM_hdl io h; case r of Inl x \<Rightarrow> Some (Inl x) | Inr h \<Rightarrow> main_loop cf es h }"
| "main_loop cf (Child io child status # es) h =
     do { r \<leftarrow> SIGCHLD_hdl io child status h; case r of Inl x \<Rightarrow> Some (Inl x) | Inr h \<Rightarrow> main_loop cf es h }"

text \<open>\<open>set_htx_home_log_path\<close>: the log directory, or the exit code.\<close>

definition set_htx_home_log_path :: "cstring option \<Rightarrow> cstring option \<Rightarrow> (int + cstring) fault" where
  "set_htx_home_log_path home log_dir =
     (case home of
        None \<Rightarrow> Some (Inl 11)
      | Some d \<Rightarrow>
          if length d = 0 then Some (Inl 12)
          else if 256 \<le> length d then None
          else (let l = (case log_dir of None \<Rightarrow> ''/tmp'' | Some l \<Rightarrow> if length l = 0 then ''/tmp'' else l)
                in if length (l @ ''/htxmsg_save'') < 256 then Some (Inr l) else None))"

text \<open>\<open>start_heart\<close> in the parent: whether \<open>pipe\<close> works, and the answer of \<open>fork\<close>.\<close>

definition start_heart :: "bool \<Rightarrow> int \<Rightarrow> hxsmsg \<Rightarrow> int \<times> hxsmsg" where
  "start_heart pipe_ok fork_pid h =
     (if \<not> pipe_ok then (- 1, h)
      else (fork_pid, h\<lparr>h_pipe_dev := (True, True)\<rparr>))"

record main_io =
  mi_home :: "cstring option"
  mi_log_dir :: "cstring option"
  mi_sigterm :: bool
  mi_ulimit :: int
  mi_writable :: bool
  mi_start :: start_io
  mi_msgqid :: int
  mi_queue_id :: int
  mi_pipe :: bool
  mi_fork :: int
  mi_sigchld :: bool
  mi_end :: end_io

text \<open>The start: the settings if everything worked.\<close>

definition start_program :: "main_io \<Rightarrow> cstring list \<Rightarrow> hxsmsg \<Rightarrow> (config option \<times> hxsmsg) fault" where
  "start_program io argv h =
     (if set_signal_hdl SIGTERM (mi_sigterm io) \<noteq> 0 then Some (None, or_exit 5 h)
      else
        do { (rc, cf) \<leftarrow> do_argv (mi_ulimit io) (mi_writable io) argv;
             case cf of
               None \<Rightarrow> Some (None, or_exit 1 h)
             | Some cf \<Rightarrow>
                 (let (rc, s) = open_logs (mi_start io) (cf_thres cf) (cf_auto_start cf) (h_logs h);
                      h = h\<lparr>h_logs := s\<rparr>
                  in if rc \<noteq> 0 then Some (None, or_exit 2 h)
                     else
                       (let (rc, h) = open_ipc (mi_msgqid io) (mi_queue_id io) h
                        in if rc \<noteq> 0 then Some (None, or_exit 3 h)
                           else if strcmp (cf_heartbeat_dev cf) ''/dev/null'' \<noteq> 0 then
                             (let (pid, h) = start_heart (mi_pipe io) (mi_fork io) h;
                                  h = h\<lparr>h_hxsstress_PID := pid\<rparr>
                              in if pid = - 1 then Some (None, or_exit 4 h)
                                 else if set_signal_hdl SIGCHLD (mi_sigchld io) \<noteq> 0 then Some (None, or_exit 6 h)
                                 else Some (Some cf, h))
                           else Some (Some cf, h))) })"

text \<open>\<open>main\<close>: \<open>Inl\<close> its exit code, or \<open>Inr\<close> the state of a loop that is still going on.\<close>

definition hxsmsg_main :: "main_io \<Rightarrow> cstring list \<Rightarrow> event list \<Rightarrow> hxsmsg \<Rightarrow> ((int \<times> hxsmsg) + hxsmsg) fault" where
  "hxsmsg_main io argv es h =
     do { d \<leftarrow> set_htx_home_log_path (mi_home io) (mi_log_dir io);
          case d of
            Inl rc \<Rightarrow> Some (Inl (rc, h))
          | Inr d \<Rightarrow>
              do { (cf, h) \<leftarrow> start_program io argv (h\<lparr>h_logs := (h_logs h)\<lparr>l_log_dir := d\<rparr>\<rparr>);
                   case cf of
                     None \<Rightarrow> do { r \<leftarrow> exit_program (mi_end io) h; Some (Inl r) }
                   | Some cf \<Rightarrow>
                       do { r \<leftarrow> main_loop cf es h;
                            case r of
                              Inl x \<Rightarrow> Some (Inl x)
                            | Inr (final, h) \<Rightarrow>
                                if final then do { r \<leftarrow> exit_program (mi_end io) h; Some (Inl r) }
                                else Some (Inr h) } } }"

subsection \<open>What the collector keeps\<close>

text \<open>Settings with which both logs wrap, no copies are archived, and the thresholds are in range.\<close>

definition wrapping :: "config \<Rightarrow> bool" where
  "wrapping cf \<longleftrightarrow> cf_err_wrap cf \<and> cf_msg_wrap cf \<and> \<not> cf_archive cf \<and> cf_auto_start cf \<and>
     strcmp (cf_heartbeat_dev cf) ''/dev/null'' = 0 \<and> (\<forall>l. 0 \<le> cf_thres cf l \<and> cf_thres cf l \<le> 2 ^ 50)"

definition log_ok :: "config \<Rightarrow> logs \<Rightarrow> logname \<Rightarrow> alog \<Rightarrow> bool" where
  "log_ok cf s l a \<longleftrightarrow> holds_log s l a \<and> ck_offset (l_checkpt s) l = int (length (a_new a)) \<and>
     (if a_open a then int (length (a_new a)) \<le> 512 * cf_thres cf l
      else is_save l \<and> cf_thres cf l \<le> int (length (a_new a))) \<and>
     int (length (a_new a)) \<le> 512 * cf_thres cf l + 4096"

definition collects :: "config \<Rightarrow> logs \<Rightarrow> (logname \<Rightarrow> alog) \<Rightarrow> bool" where
  "collects cf s A \<longleftrightarrow> resumable (cf_thres cf) s \<and> l_ckpt_fd s \<noteq> None \<and>
     (\<forall>l. if used (cf_thres cf) l then log_ok cf s l (A l) else l_fd s l = None)"

definition a_log :: "config \<Rightarrow> logname \<Rightarrow> string \<Rightarrow> alog \<Rightarrow> alog" where
  "a_log cf l m a = a_put (log_wrap cf l) (\<not> is_save l) (cf_thres cf l) m a"

lemma a_put_bounds:
  assumes "wrapping cf" "a_open a" "int (length (a_new a)) \<le> 512 * cf_thres cf l" "length m \<le> 4096" "b = a_log cf l m a"
  shows "(if a_open b then int (length (a_new b)) \<le> 512 * cf_thres cf l
      else is_save l \<and> cf_thres cf l \<le> int (length (a_new b))) \<and> int (length (a_new b)) \<le> 512 * cf_thres cf l + 4096"
proof -
  have th: "0 \<le> cf_thres cf l" using assms(1) by (simp add: wrapping_def)
  have w: "log_wrap cf l \<or> is_save l" using assms(1) by (cases l) (simp_all add: wrapping_def log_wrap_def)
  let ?n = "int (length (a_new a @ m))"
  have full: "cf_thres cf l \<le> int (length (a_new a @ m) div 512) \<Longrightarrow> cf_thres cf l \<le> ?n" by linarith
  have room: "\<not> cf_thres cf l \<le> int (length (a_new a @ m) div 512) \<Longrightarrow> ?n \<le> 512 * cf_thres cf l" by linarith
  show ?thesis using assms(2-5) th w full room by (auto simp: a_log_def a_put_def a_full_def)
qed

lemma in_sync_ckpt:
  assumes "ckpt_rel s l a"
  shows "in_sync s l"
  using assms by (cases "l_file s l") (simp_all add: ckpt_rel_def in_sync_def)

lemma collects_log: "collects cf s A \<Longrightarrow> if used (cf_thres cf) l then log_ok cf s l (A l) else l_fd s l = None"
  by (simp add: collects_def)

lemma copy_keeps:
  assumes "collects cf s A" "wrapping cf" "used (cf_thres cf) l" "io_works (ci_log io l) m" "length m \<le> 4096"
  shows "\<exists>e' s'. copy_to cf io m n l (e, s) = Some (e', s') \<and> collects cf s' (A(l := a_log cf l m (A l))) \<and>
    l_queue s' = l_queue s \<and> l_msgqid s' = l_msgqid s"
proof (cases "a_open (A l)")
  case True
  let ?b = "a_log cf l m (A l)"
  have ok: "log_ok cf s l (A l)" using assms(1,3) by (auto simp: collects_def split: if_splits)
  have fd: "l_fd s l \<noteq> None" using ok True by (simp add: log_ok_def holds_log_def)
  have r: "resumable (cf_thres cf) s" "l_ckpt_fd s \<noteq> None" using assms(1) by (simp_all add: collects_def)
  obtain e1 s1 where w: "write_log (ci_log io l) l m (cf_thres cf l) (log_wrap cf l) (\<not> is_save l) (cf_archive cf) s = Some (e1, s1)"
    "holds_log s1 l ?b" "same_rest l s s1" "saved s1" "ckpt_rel s1 l ?b" "same_others l s s1"
    using write_log_good [of s l "A l" "ci_log io l" m "log_wrap cf l" "cf_archive cf" "cf_thres cf l" "\<not> is_save l"] ok True assms(2,4)
      saved_open [of s] r by (auto simp: log_ok_def wrapping_def a_log_def resumable_def)
  have b: "(if a_open ?b then int (length (a_new ?b)) \<le> 512 * cf_thres cf l
      else is_save l \<and> cf_thres cf l \<le> int (length (a_new ?b)))" "int (length (a_new ?b)) \<le> 512 * cf_thres cf l + 4096"
    using a_put_bounds [OF assms(2) True _ assms(5) refl] ok True by (simp_all add: log_ok_def)
  have th: "cf_thres cf l \<le> 2 ^ 50" "0 \<le> cf_thres cf l" using assms(2) by (simp_all add: wrapping_def)
  have off: "ck_offset (l_checkpt s1) l = int (length (a_new ?b))"
    using w(5) b(2) th by (simp add: ckpt_rel_def)
  have same: "l_file s1 k = l_file s k" "l_fd s1 k = l_fd s k" "ck_offset (l_checkpt s1) k = ck_offset (l_checkpt s) k"
    "ck_mod_time (l_checkpt s1) k = ck_mod_time (l_checkpt s) k" if "k \<noteq> l" for k
    using w(3,6) that by (auto simp: same_rest_def same_others_def)
  have sync: "in_sync s1 k" for k
  proof (cases "k = l")
    case False
    moreover have "in_sync s k" using r(1) by (simp add: resumable_def)
    ultimately show ?thesis using same [of k] by (cases "l_file s k") (simp_all add: in_sync_def)
  qed (use w(5) in_sync_ckpt in blast)
  have "resumable (cf_thres cf) s1" unfolding resumable_def
  proof (intro conjI allI)
    show "ckpt_fits (l_checkpt s1)" "ck_thres (l_checkpt s1) = cf_thres cf"
      using w(6) r(1) by (simp_all add: same_others_def resumable_def)
    fix k
    show "0 \<le> cf_thres cf k" "0 \<le> ck_offset (l_checkpt s1) k" "\<not> used (cf_thres cf) k \<longrightarrow> l_file s1 k = None"
      using r(1) same [of k] off assms(3) by (cases "k = l"; simp add: resumable_def)+
  qed (use w(4) sync in auto)
  moreover have "if used (cf_thres cf) k then log_ok cf s1 k ((A(l := ?b)) k) else l_fd s1 k = None" for k
  proof (cases "k = l")
    case True
    then show ?thesis using w(2) off b assms(3) by (simp add: log_ok_def)
  next
    case False
    then show ?thesis using collects_log [OF assms(1), of k] same [of k]
      by (cases "used (cf_thres cf) k") (simp_all add: log_ok_def holds_log_def)
  qed
  moreover have "l_ckpt_fd s1 \<noteq> None" "l_queue s1 = l_queue s" "l_msgqid s1 = l_msgqid s"
    using w(3) r(2) by (simp_all add: same_rest_def)
  ultimately have "collects cf s1 (A(l := ?b))" "l_queue s1 = l_queue s" "l_msgqid s1 = l_msgqid s"
    unfolding collects_def by blast+
  then show ?thesis using w(1) fd by (auto simp: copy_to_def)
next
  case False
  then have "l_fd s l = None" "a_log cf l m (A l) = A l"
    using assms(1,3) by (auto simp: collects_def log_ok_def holds_log_def a_log_def a_put_def split: if_splits)
  then show ?thesis using assms(1) by (simp add: copy_to_def)
qed

lemma copy_any:
  assumes "collects cf s A" "wrapping cf" "io_works (ci_log io l) m" "length m \<le> 4096"
  shows "\<exists>e' s'. copy_to cf io m n l (e, s) = Some (e', s') \<and> l_queue s' = l_queue s \<and> l_msgqid s' = l_msgqid s \<and>
    collects cf s' (A(l := if used (cf_thres cf) l then a_log cf l m (A l) else A l))"
proof (cases "used (cf_thres cf) l")
  case False
  then have "l_fd s l = None" using assms(1) by (auto simp: collects_def split: if_splits)
  then show ?thesis using False assms(1) by (simp add: copy_to_def)
next
  case True
  then show ?thesis using copy_keeps [OF assms(1,2) True assms(3,4), of n e] by auto
qed

text \<open>Which logs a message goes to, and what it does to them.\<close>

definition takes :: "qmsg \<Rightarrow> logname \<Rightarrow> bool" where
  "takes m l \<longleftrightarrow> (case l of MSG_LOG \<Rightarrow> True | MSG_SAVE_LOG \<Rightarrow> True | _ \<Rightarrow> q_severity m < HTX_SYS_INFO)"

definition a_copy :: "config \<Rightarrow> qmsg \<Rightarrow> (logname \<Rightarrow> alog) \<Rightarrow> logname \<Rightarrow> alog" where
  "a_copy cf m A = (\<lambda>l. if used (cf_thres cf) l \<and> takes m l then a_log cf l (q_text m) (A l) else A l)"

definition copy_ok :: "copy_io \<Rightarrow> qmsg \<Rightarrow> bool" where
  "copy_ok io m \<longleftrightarrow> (\<forall>l\<in>set log_names. io_works (ci_log io l) (q_text m)) \<and> length (q_text m) \<le> 4096 \<and> q_severity m \<noteq> HE_STATUS"

lemma copy_message_keeps:
  assumes "collects cf (h_logs h) A" "wrapping cf" "copy_ok io m" "h_hxsstress_PID h = - 1"
  shows "\<exists>e s'. copy_message cf io m h = Some (e, h\<lparr>h_logs := s'\<rparr>) \<and> collects cf s' (a_copy cf m A) \<and>
    l_queue s' = l_queue (h_logs h) \<and> l_msgqid s' = l_msgqid (h_logs h)"
proof -
  have g: "io_works (ci_log io l) (q_text m)" for l using assms(3) by (cases l) (simp_all add: copy_ok_def log_names_def)
  have c: "length (q_text m) \<le> 4096" "q_severity m \<noteq> HE_STATUS" using assms(3) by (simp_all add: copy_ok_def)
  let ?u = "\<lambda>l B. B(l := if used (cf_thres cf) l then a_log cf l (q_text m) (B l) else B l)"
  obtain e1 s1 where 1: "copy_to cf io (q_text m) 1 MSG_LOG (0, h_logs h) = Some (e1, s1)" "collects cf s1 (?u MSG_LOG A)"
    "l_queue s1 = l_queue (h_logs h)" "l_msgqid s1 = l_msgqid (h_logs h)"
    using copy_any [OF assms(1,2) g c(1)] by blast
  obtain e2 s2 where 2: "copy_to cf io (q_text m) 2 MSG_SAVE_LOG (e1, s1) = Some (e2, s2)"
    "collects cf s2 (?u MSG_SAVE_LOG (?u MSG_LOG A))" "l_queue s2 = l_queue s1" "l_msgqid s2 = l_msgqid s1"
    using copy_any [OF 1(2) assms(2) g c(1)] by blast
  obtain e3 s3 where 3: "copy_to cf io (q_text m) 4 ERR_LOG (e2, s2) = Some (e3, s3)"
    "collects cf s3 (?u ERR_LOG (?u MSG_SAVE_LOG (?u MSG_LOG A)))" "l_queue s3 = l_queue s2" "l_msgqid s3 = l_msgqid s2"
    using copy_any [OF 2(2) assms(2) g c(1)] by blast
  obtain e4 s4 where 4: "copy_to cf io (q_text m) 8 ERR_SAVE_LOG (e3, s3) = Some (e4, s4)"
    "collects cf s4 (?u ERR_SAVE_LOG (?u ERR_LOG (?u MSG_SAVE_LOG (?u MSG_LOG A))))" "l_queue s4 = l_queue s3" "l_msgqid s4 = l_msgqid s3"
    using copy_any [OF 3(2) assms(2) g c(1)] by blast
  show ?thesis
  proof (cases "q_severity m < HTX_SYS_INFO")
    case True
    have eq: "?u ERR_SAVE_LOG (?u ERR_LOG (?u MSG_SAVE_LOG (?u MSG_LOG A))) = a_copy cf m A"
    proof
      fix l show "?u ERR_SAVE_LOG (?u ERR_LOG (?u MSG_SAVE_LOG (?u MSG_LOG A))) l = a_copy cf m A l"
        using True by (cases l) (simp_all add: a_copy_def takes_def)
    qed
    show ?thesis using 1(1,3,4) 2(1,3,4) 3(1,3,4) 4(1,3,4) 4(2) [unfolded eq] c(2) True assms(4)
      by (simp add: copy_message_def) blast
  next
    case False
    have eq: "?u MSG_SAVE_LOG (?u MSG_LOG A) = a_copy cf m A"
    proof
      fix l show "?u MSG_SAVE_LOG (?u MSG_LOG A) l = a_copy cf m A l"
        using False by (cases l) (simp_all add: a_copy_def takes_def)
    qed
    show ?thesis using 1(1,3,4) 2(1,3,4) 2(2) [unfolded eq] c(2) False
      by (simp add: copy_message_def) blast
  qed
qed

subsection \<open>Restarts\<close>

text \<open>The collector after it was killed and started again.\<close>

definition new_hxsmsg :: "hxsmsg \<Rightarrow> hxsmsg" where
  "new_hxsmsg h = \<lparr>h_logs = new_process (h_logs h), h_queue_id = - 1, h_display = h_display h, h_pipe_dev = (False, False),
     h_pipe = h_pipe h, h_hxsstress_PID = - 1, h_main_exit_code = 0\<rparr>"

definition start_ok :: "config \<Rightarrow> main_io \<Rightarrow> cstring list \<Rightarrow> bool" where
  "start_ok cf io argv \<longleftrightarrow> mi_sigterm io \<and> do_argv (mi_ulimit io) (mi_writable io) argv = Some (0, Some cf) \<and>
     good_start (mi_start io) \<and> mi_msgqid io \<noteq> - 1 \<and> mi_queue_id io \<noteq> - 1"

text \<open>A save log is opened again only if its position, in bytes, is below its threshold, in blocks.\<close>

definition a_restart :: "config \<Rightarrow> (logname \<Rightarrow> alog) \<Rightarrow> logname \<Rightarrow> alog" where
  "a_restart cf A = (\<lambda>l. if is_save l then (A l)\<lparr>a_open := int (length (a_new (A l))) < cf_thres cf l\<rparr> else A l)"

lemma start_program_logs:
  assumes "start_ok cf io argv" "wrapping cf" "open_logs (mi_start io) (cf_thres cf) True (h_logs h) = (0, s)"
  shows "start_program io argv h = Some (Some cf, h\<lparr>h_logs := s\<lparr>l_msgqid := mi_msgqid io\<rparr>, h_queue_id := mi_queue_id io\<rparr>)"
  using assms by (simp add: start_program_def start_ok_def wrapping_def open_ipc_def set_signal_hdl_def)

lemma collects_msgqid [simp]: "collects cf (s\<lparr>l_msgqid := i\<rparr>) A = collects cf s A"
proof -
  have "in_sync (s\<lparr>l_msgqid := i\<rparr>) l = in_sync s l" for l by (rule in_sync_cong) simp_all
  then show ?thesis by (simp add: collects_def resumable_def saved_def log_ok_def holds_log_def)
qed

lemma restart_keeps:
  assumes "collects cf (h_logs h) A" "wrapping cf" "start_ok cf io argv"
  shows "\<exists>h'. start_program io argv (new_hxsmsg h) = Some (Some cf, h') \<and> collects cf (h_logs h') (a_restart cf A) \<and>
    h_hxsstress_PID h' = - 1 \<and> h_main_exit_code h' = 0 \<and> l_queue (h_logs h') = l_queue (h_logs h) \<and> l_msgqid (h_logs h') \<noteq> - 1"
proof -
  let ?th = "cf_thres cf" and ?s = "h_logs h"
  have r: "resumable ?th ?s" using assms(1) by (simp add: collects_def)
  obtain s where s: "open_logs (mi_start io) ?th True (new_process ?s) = (0, s)" "l_checkpt s = l_checkpt ?s" "l_ckpt_fd s \<noteq> None"
    "\<And>l. l_fd s l = (if reopened ?th ?s l then Some (nat (ck_offset (l_checkpt ?s) l)) else None)"
    "\<And>l. used ?th l \<Longrightarrow> map_option lf_data (l_file s l) = Some (case l_file ?s l of None \<Rightarrow> [] | Some f \<Rightarrow> lf_data f)"
    "resumable ?th s" "l_queue s = l_queue ?s"
    using open_logs_resumes [OF r, of "mi_start io"] assms(3) unfolding start_ok_def by blast
  have "if used ?th l then log_ok cf s l (a_restart cf A l) else l_fd s l = None" for l
  proof (cases "used ?th l")
    case True
    then have ok: "log_ok cf ?s l (A l)" using assms(1) by (auto simp: collects_def split: if_splits)
    then have d: "map_option lf_data (l_file s l) = Some (a_view (A l))"
      using s(5) [OF True] by (auto simp: log_ok_def holds_log_def)
    have th: "0 \<le> ?th l" using assms(2) by (simp add: wrapping_def)
    have "reopened ?th ?s l \<longleftrightarrow> a_open (a_restart cf A l)"
      using True ok by (cases "is_save l") (auto simp: reopened_def used_def a_restart_def log_ok_def split: if_splits)
    moreover have "a_view (a_restart cf A l) = a_view (A l)" "a_new (a_restart cf A l) = a_new (A l)"
      by (simp_all add: a_restart_def a_view_def)
    ultimately have "holds_log s l (a_restart cf A l)" using ok d s(4) [of l] by (simp add: holds_log_def log_ok_def)
    moreover have "if a_open (a_restart cf A l) then int (length (a_new (A l))) \<le> 512 * ?th l
        else is_save l \<and> ?th l \<le> int (length (a_new (A l)))"
      using ok th by (auto simp: a_restart_def log_ok_def split: if_splits)
    ultimately show ?thesis using True ok s(2) \<open>a_new (a_restart cf A l) = a_new (A l)\<close> by (simp add: log_ok_def)
  next
    case False
    then show ?thesis using s(4) [of l] by (simp add: reopened_def used_def)
  qed
  then have "collects cf s (a_restart cf A)" using s(3,6) by (simp add: collects_def)
  moreover have "h_logs (new_hxsmsg h) = new_process ?s" by (simp add: new_hxsmsg_def)
  ultimately show ?thesis using start_program_logs [OF assms(3,2), of "new_hxsmsg h" s] s(1,7) assms(3)
    by (simp add: start_ok_def) (simp add: new_hxsmsg_def)
qed

lemma first_start:
  assumes "wrapping cf" "start_ok cf io argv" "l_ckpt_data (h_logs h) = None"
  shows "\<exists>h'. start_program io argv (new_hxsmsg h) = Some (Some cf, h') \<and> collects cf (h_logs h') (\<lambda>_. empty_log) \<and>
    h_hxsstress_PID h' = - 1 \<and> h_main_exit_code h' = 0 \<and> l_queue (h_logs h') = l_queue (h_logs h) \<and> l_msgqid (h_logs h') \<noteq> - 1"
proof -
  have th: "\<forall>l. 0 \<le> cf_thres cf l \<and> fits64 (cf_thres cf l)"
  proof
    fix l
    have "0 \<le> cf_thres cf l" "cf_thres cf l \<le> 2 ^ 50" using assms(1) by (simp_all add: wrapping_def)
    then show "0 \<le> cf_thres cf l \<and> fits64 (cf_thres cf l)" by (simp add: fits64_def)
  qed
  obtain s where s: "open_logs (mi_start io) (cf_thres cf) True (new_process (h_logs h)) = (0, s)" "l_ckpt_fd s \<noteq> None"
    "resumable (cf_thres cf) s" "\<And>l. ck_offset (l_checkpt s) l = 0" "\<And>l. used (cf_thres cf) l \<Longrightarrow> holds_log s l empty_log"
    "\<And>l. \<not> used (cf_thres cf) l \<Longrightarrow> l_fd s l = None" "l_queue s = l_queue (h_logs h)"
    using open_logs_first [of "mi_start io" "h_logs h" "cf_thres cf" True] assms(2,3) th unfolding start_ok_def by blast
  have "collects cf s (\<lambda>_. empty_log)" using s th by (simp add: collects_def log_ok_def) (simp add: empty_log_def)
  moreover have "h_logs (new_hxsmsg h) = new_process (h_logs h)" by (simp add: new_hxsmsg_def)
  ultimately show ?thesis using start_program_logs [OF assms(2,1), of "new_hxsmsg h" s] s(1,7) assms(2)
    by (simp add: start_ok_def) (simp add: new_hxsmsg_def)
qed

subsection \<open>The life of the collector\<close>

text \<open>Messages are copied, and the collector is killed and started again.\<close>

datatype life = Log copy_io qmsg | Restart main_io "cstring list"

definition life_step :: "config \<Rightarrow> life \<Rightarrow> hxsmsg \<Rightarrow> hxsmsg fault" where
  "life_step cf x h =
     (case x of
        Log io m \<Rightarrow> map_option snd (copy_message cf io m h)
      | Restart io argv \<Rightarrow>
          (case start_program io argv (new_hxsmsg h) of Some (Some _, h') \<Rightarrow> Some h' | _ \<Rightarrow> None))"

definition life_put :: "config \<Rightarrow> life \<Rightarrow> (logname \<Rightarrow> alog) \<Rightarrow> logname \<Rightarrow> alog" where
  "life_put cf x A = (case x of Log io m \<Rightarrow> a_copy cf m A | Restart _ _ \<Rightarrow> a_restart cf A)"

definition life_ok :: "config \<Rightarrow> life \<Rightarrow> bool" where
  "life_ok cf x = (case x of Log io m \<Rightarrow> copy_ok io m | Restart io argv \<Rightarrow> start_ok cf io argv)"

definition alive :: "config \<Rightarrow> hxsmsg \<Rightarrow> (logname \<Rightarrow> alog) \<Rightarrow> bool" where
  "alive cf h A \<longleftrightarrow> collects cf (h_logs h) A \<and> h_hxsstress_PID h = - 1 \<and> h_main_exit_code h = 0"

interpretation collector: log_contract "life_step cf" "alive cf" "life_put cf" "\<lambda>x. wrapping cf \<and> life_ok cf x" for cf
proof
  fix x h A
  assume a: "wrapping cf \<and> life_ok cf x" "alive cf h A"
  show "\<exists>h'. life_step cf x h = Some h' \<and> alive cf h' (life_put cf x A)"
  proof (cases x)
    case (Log io m)
    then show ?thesis using copy_message_keeps [of cf h A io m] a
      by (auto simp: life_ok_def alive_def life_step_def life_put_def)
  next
    case (Restart io argv)
    then show ?thesis using restart_keeps [of cf h A io argv] a
      by (auto simp: life_ok_def alive_def life_step_def life_put_def)
  qed
qed

text \<open>The texts that go to a log.\<close>

definition log_texts :: "logname \<Rightarrow> life list \<Rightarrow> string list" where
  "log_texts l xs = concat (map (\<lambda>x. case x of Log _ m \<Rightarrow> if takes m l then [q_text m] else [] | Restart _ _ \<Rightarrow> []) xs)"

lemma fold_life_put:
  assumes "\<not> is_save l"
  shows "fold (life_put cf) xs A l = fold (a_log cf l) (log_texts l xs) (A l)"
proof (induction xs arbitrary: A)
  case (Cons x xs)
  have "life_put cf x A l = fold (a_log cf l) (log_texts l [x]) (A l)"
    using assms by (cases x) (simp_all add: life_put_def a_copy_def a_restart_def log_texts_def used_def)
  then show ?case using Cons by (simp add: log_texts_def)
qed (simp add: log_texts_def)

text \<open>A wrapping log: the text of the last full round and the text of the current one are the end of what was
  logged.\<close>

definition history :: "nat \<Rightarrow> string \<Rightarrow> alog \<Rightarrow> bool" where
  "history n H a \<longleftrightarrow> a_open a \<and> length (a_new a) < n \<and>
     (if a_old a = [] then H = a_new a
      else (\<exists>pre. H = pre @ a_old a @ a_new a) \<and> n \<le> length (a_old a) \<and> length (a_old a) \<le> n + 4096)"

lemma history_step:
  assumes "history (512 * nat (cf_thres cf l)) H a" "log_wrap cf l" "length m \<le> 4096"
  shows "history (512 * nat (cf_thres cf l)) (H @ m) (a_log cf l m a)"
proof -
  let ?n = "512 * nat (cf_thres cf l)" and ?new = "a_new a @ m"
  have o: "a_open a" "length (a_new a) < ?n" using assms(1) by (simp_all add: history_def)
  have full: "cf_thres cf l \<le> int (length ?new div 512) \<longleftrightarrow> ?n \<le> length ?new" using o(2) by linarith
  show ?thesis
  proof (cases "?n \<le> length ?new")
    case True
    then have "?new \<noteq> []" using o(2) by auto
    then show ?thesis using True full assms o
      by (auto simp: a_log_def a_put_def a_full_def history_def split: if_splits)
  next
    case False
    then show ?thesis using full assms o
      by (auto simp: a_log_def a_put_def a_full_def history_def split: if_splits)
  qed
qed

lemma history_fold:
  assumes "\<forall>m\<in>set ms. length m \<le> 4096" "log_wrap cf l" "history (512 * nat (cf_thres cf l)) H a"
  shows "history (512 * nat (cf_thres cf l)) (H @ concat ms) (fold (a_log cf l) ms a)"
  using assms
proof (induction ms arbitrary: H a)
  case (Cons m ms)
  then show ?case using history_step [of cf l H a m] Cons.IH [of "H @ m" "a_log cf l m a"] by simp
qed simp

lemma history_view:
  assumes "history n H a"
  shows "\<exists>pre p. a_view a = a_new a @ p \<and> H = pre @ p @ a_new a \<and> (pre = [] \<or> n \<le> length (p @ a_new a)) \<and>
    length (p @ a_new a) \<le> n + 4096 \<and> (length H < n \<longrightarrow> a_view a = H)"
proof (cases "a_old a = []")
  case True
  then show ?thesis using assms by (intro exI [of _ "[]"]) (simp add: history_def a_view_def)
next
  case False
  then obtain pre where h: "H = pre @ a_old a @ a_new a" "n \<le> length (a_old a)" "length (a_old a) \<le> n + 4096" "length (a_new a) < n"
    using assms by (auto simp: history_def)
  let ?p = "drop (length (a_new a)) (a_old a)"
  have "H = (pre @ take (length (a_new a)) (a_old a)) @ ?p @ a_new a" using h(1) by simp
  moreover have "\<not> length H < n" using h by simp
  ultimately show ?thesis using h by (intro exI [of _ "pre @ take (length (a_new a)) (a_old a)"] exI [of _ ?p]) (simp add: a_view_def)
qed

lemma history_empty: "0 < n \<Longrightarrow> history n [] empty_log"
  by (simp add: history_def empty_log_def)

lemma life_texts: "\<forall>x\<in>set xs. life_ok cf x \<Longrightarrow> \<forall>m\<in>set (log_texts l xs). length m \<le> 4096"
  by (force simp: log_texts_def life_ok_def copy_ok_def split: life.splits if_splits)

lemma wrap_log: "wrapping cf \<Longrightarrow> l \<in> {ERR_LOG, MSG_LOG} \<Longrightarrow> log_wrap cf l \<and> \<not> is_save l \<and> used th l"
  by (auto simp: wrapping_def log_wrap_def used_def)


text \<open>A save log: the beginning of what was logged, until it is closed.\<close>

definition is_restart :: "life \<Rightarrow> bool" where
  "is_restart x = (case x of Restart _ _ \<Rightarrow> True | Log _ _ \<Rightarrow> False)"

definition beginning :: "int \<Rightarrow> bool \<Rightarrow> string list \<Rightarrow> alog \<Rightarrow> bool" where
  "beginning thr r ms a \<longleftrightarrow> a_old a = [] \<and>
     (\<exists>n\<le>length ms. a_new a = concat (take n ms) \<and>
        (if a_open a then n = length ms
         else thr \<le> int (length (a_new a)) \<and> (\<not> r \<longrightarrow> 512 * thr \<le> int (length (a_new a)))))"

lemma beginning_put:
  assumes "beginning thr r ms a"
  shows "beginning thr r (ms @ [m]) (a_put False False thr m a)"
proof (cases "a_open a")
  case True
  then have a: "a_old a = []" "a_new a = concat ms" using assms by (auto simp: beginning_def)
  have "thr \<le> int (length (concat ms @ m) div 512) \<Longrightarrow>
      thr \<le> int (length (concat ms @ m)) \<and> 512 * thr \<le> int (length (concat ms @ m))" by linarith
  then show ?thesis using True a
    by (auto simp: a_put_def a_full_def beginning_def intro!: exI [of _ "Suc (length ms)"])
next
  case False
  obtain n where "n \<le> length ms" "a_new a = concat (take n ms)" "a_old a = []"
    "if a_open a then n = length ms else thr \<le> int (length (a_new a)) \<and> (\<not> r \<longrightarrow> 512 * thr \<le> int (length (a_new a)))"
    using assms unfolding beginning_def by blast
  then show ?thesis using False by (auto simp: a_put_def beginning_def intro!: exI [of _ n])
qed

lemma beginning_restart:
  assumes "beginning thr r ms a"
  shows "beginning thr True ms (a\<lparr>a_open := int (length (a_new a)) < thr\<rparr>)"
proof -
  obtain n where "n \<le> length ms" "a_new a = concat (take n ms)" "a_old a = []"
    "if a_open a then n = length ms else thr \<le> int (length (a_new a)) \<and> (\<not> r \<longrightarrow> 512 * thr \<le> int (length (a_new a)))"
    using assms unfolding beginning_def by blast
  then show ?thesis by (cases "a_open a") (auto simp: beginning_def intro!: exI [of _ n])
qed

lemma log_texts_snoc: "log_texts l (xs @ [x]) = log_texts l xs @ log_texts l [x]"
  by (simp add: log_texts_def)

lemma beginning_fold:
  assumes "is_save l" "used (cf_thres cf) l"
  shows "beginning (cf_thres cf l) (\<exists>x\<in>set xs. is_restart x) (log_texts l xs) (fold (life_put cf) xs (\<lambda>_. empty_log) l)"
proof (induction xs rule: rev_induct)
  case Nil
  show ?case by (simp add: beginning_def empty_log_def log_texts_def)
next
  case (snoc x xs)
  let ?A = "fold (life_put cf) xs (\<lambda>_. empty_log)"
  show ?case
  proof (cases x)
    case (Log io m)
    have w: "log_wrap cf l = False" using assms(1) by (cases l) (simp_all add: log_wrap_def)
    show ?thesis
      using beginning_put [OF snoc, of "q_text m"] snoc assms Log w
      by (simp add: life_put_def a_copy_def a_log_def log_texts_snoc is_restart_def) (simp add: log_texts_def)
  next
    case (Restart io argv)
    then show ?thesis using beginning_restart [OF snoc] assms
      by (simp add: life_put_def a_restart_def log_texts_snoc is_restart_def) (simp add: log_texts_def)
  qed
qed


subsection \<open>An example\<close>

definition sample_signal :: signal_io where
  "sample_signal = \<lparr>g_ppid = 100, g_autostart = 2, g_kill = 0, g_time = Some ''Mon Nov 16 10:00:00 2026'', g_sendok = True,
     g_strerror = (\<lambda>_. ''error'')\<rparr>"

definition sample_log_io :: "int \<Rightarrow> log_io" where
  "sample_log_io t = \<lparr>io_write = Some 5000, io_wtime = t, io_fsync = True, io_lseek1 = True, io_close = True,
     io_signal = sample_signal, io_trunc = True, io_ttime = t, io_fsync2 = True, io_cp = True, io_lseek2 = True,
     io_stat = True, io_ck_lseek = True, io_ck_write = Some 200, io_ck_fsync = True\<rparr>"

definition sample_copy :: "int \<Rightarrow> copy_io" where
  "sample_copy t = \<lparr>ci_log = (\<lambda>_. sample_log_io t), ci_display = True, ci_pipe = None\<rparr>"

definition sample_start :: start_io where
  "sample_start = \<lparr>si_access = (\<lambda>_. True), si_remove = (\<lambda>_. True), si_open = (\<lambda>_. True), si_otime = (\<lambda>_. 1), si_stat = (\<lambda>_. True),
     si_lseek = (\<lambda>_. True), si_ck_access = True, si_ck_remove = True, si_ck_open = True, si_ck_read = True,
     si_ck_write = Some 200, si_ck_trunc = True\<rparr>"

definition sample_end :: end_io where
  "sample_end = \<lparr>ei_msgctl = True, ei_msgctl2 = True, ei_ck_close = True, ei_close = (\<lambda>_. True), ei_sigaction = True,
     ei_signal = sample_signal, ei_close0 = True, ei_close1 = True\<rparr>"

definition sample_main :: main_io where
  "sample_main = \<lparr>mi_home = Some ''/usr/lpp/htx'', mi_log_dir = None, mi_sigterm = True, mi_ulimit = 100000, mi_writable = True,
     mi_start = sample_start, mi_msgqid = 5, mi_queue_id = 6, mi_pipe = True, mi_fork = 7, mi_sigchld = True, mi_end = sample_end\<rparr>"

definition sample_argv :: "cstring list" where
  "sample_argv = [''hxsmsg'', ''5120'', ''5120'', ''1024'', ''1024'', ''yes'', ''yes'', ''no'', ''yes'', ''/dev/null'', ''0'']"

definition sample_config :: config where
  "sample_config = \<lparr>cf_thres = (\<lambda>l. case l of ERR_LOG \<Rightarrow> 10 | ERR_SAVE_LOG \<Rightarrow> 2 | MSG_LOG \<Rightarrow> 10 | MSG_SAVE_LOG \<Rightarrow> 2),
     cf_err_wrap = True, cf_msg_wrap = True, cf_archive = False, cf_auto_start = True,
     cf_heartbeat_dev = ''/dev/null'', cf_heartbeat_cycle = []\<rparr>"

definition sample_collector :: hxsmsg where
  "sample_collector = \<lparr>h_logs = \<lparr>l_file = (\<lambda>_. None), l_fd = (\<lambda>_. None), l_ckpt_data = None, l_ckpt_fd = None, l_checkpt = zero_ckpt,
       l_log_dir = ''/tmp'', l_archive_sequence_count = 0, l_archives = [], l_signals = 0, l_msgqid = - 1, l_queue = []\<rparr>,
     h_queue_id = - 1, h_display = [], h_pipe_dev = (False, False), h_pipe = [], h_hxsstress_PID = - 1, h_main_exit_code = 0\<rparr>"

definition sample_msg :: "int \<Rightarrow> int \<Rightarrow> string \<Rightarrow> qmsg" where
  "sample_msg ty sev text = \<lparr>q_type = ty, q_text = text, q_sdev_id = ''rmem0'', q_HE_name = ''hxemem64'', q_severity = sev, q_error = 22\<rparr>"

lemma sample_do_argv: "do_argv 100000 True sample_argv = Some (0, Some sample_config)"
proof -
  have "ck_threshold (max_threshold 100000) ''5120'' = 10" "ck_threshold (max_threshold 100000) ''1024'' = 2"
    by code_simp+
  then show ?thesis
    by (simp add: do_argv_def sample_argv_def sample_config_def ck_yn_flag_def flag_def fun_eq_iff split: logname.split)
qed

lemma sample_wrapping: "wrapping sample_config" "start_ok sample_config sample_main sample_argv"
  "0 < cf_thres sample_config ERR_LOG" "0 < cf_thres sample_config MSG_LOG"
  using sample_do_argv
  by (simp_all add: wrapping_def start_ok_def good_start_def fits64_def sizeof_ckpt_def sample_main_def sample_start_def)
    (simp_all add: sample_config_def split: logname.split)

lemma sample_copy_ok: "- (2 ^ 63) \<le> t \<Longrightarrow> t < 2 ^ 63 \<Longrightarrow> length text \<le> 4096 \<Longrightarrow> sev \<noteq> 20 \<Longrightarrow> copy_ok (sample_copy t) (sample_msg ty sev text)"
  by (simp add: copy_ok_def io_works_def fits64_def sizeof_ckpt_def sample_copy_def sample_log_io_def sample_signal_def sample_msg_def)



subsection \<open>Emptying the queue\<close>

text \<open>The messages in the order in which they are taken: those of a lower type first, and those of a type in the order
  of their arrival.\<close>

definition in_order :: "qmsg list \<Rightarrow> qmsg list" where
  "in_order q = sort_key q_type (filter (\<lambda>m. q_type m \<le> HTX_SYS_FINAL_MSG) q)"

lemma find_hd_filter: "find P xs = (case filter P xs of [] \<Rightarrow> None | x # _ \<Rightarrow> Some x)"
  by (induction xs) auto

lemma sort_key_hd:
  assumes "sort_key f xs = y # ys"
  shows "f y = Min (set (map f xs))" "filter (\<lambda>x. f x = f y) xs = y # filter (\<lambda>x. f x = f y) ys" "sort_key f (remove1 y xs) = ys"
proof -
  have s: "sorted (map f (y # ys))" using sorted_sort_key [of f xs] assms by simp
  have m: "mset (y # ys) = mset xs" using mset_sort [of f xs] assms by simp
  then have set: "set xs = insert y (set ys)" by (metis set_mset_mset list.set(2))
  show "f y = Min (set (map f xs))" using s set by (intro Min_eqI [symmetric]) auto
  have st: "filter (\<lambda>x. f x = k) xs = filter (\<lambda>x. f x = k) (y # ys)" for k
    using sort_key_stable [of f k xs] assms by simp
  show "filter (\<lambda>x. f x = f y) xs = y # filter (\<lambda>x. f x = f y) ys" using st [of "f y"] by simp
  show "sort_key f (remove1 y xs) = ys"
  proof (rule properties_for_sort_key)
    show "mset ys = mset (remove1 y xs)" using m by (metis add_mset_remove_trivial mset.simps(2) mset_remove1)
    show "sorted (map f ys)" using s by simp
    fix k
    show "filter (\<lambda>x. f k = f x) ys = filter (\<lambda>x. f k = f x) (remove1 y xs)"
      using st [of "f k"] by (auto simp: filter_remove1 eq_commute [of "f k"] split: if_splits)
  qed
qed

lemma next_message_order: "next_message q = (case in_order q of [] \<Rightarrow> None | m # _ \<Rightarrow> Some m)"
proof -
  let ?c = "filter (\<lambda>m. q_type m \<le> HTX_SYS_FINAL_MSG) q"
  show ?thesis
  proof (cases "sort_key q_type ?c")
    case Nil
    then have "?c = []" by (metis length_0_conv length_sort)
    then show ?thesis by (simp add: next_message_def in_order_def)
  next
    case (Cons m ms)
    then have "?c \<noteq> []" by auto
    then show ?thesis using sort_key_hd(1,2) [OF Cons] Cons
      by (simp add: next_message_def in_order_def find_hd_filter)
  qed
qed

lemma in_order_remove: "in_order q = m # ms \<Longrightarrow> in_order (remove1 m q) = ms"
  unfolding in_order_def by (simp add: filter_remove1 sort_key_hd(3))

text \<open>What is taken before the loop ends: the messages up to the first final one.\<close>

fun until_final :: "qmsg list \<Rightarrow> qmsg list" where
  "until_final [] = []"
| "until_final (m # ms) = (if q_type m = HTX_SYS_FINAL_MSG then [m] else m # until_final ms)"

lemma alive_queue: "alive cf (h\<lparr>h_logs := (h_logs h)\<lparr>l_queue := q\<rparr>\<rparr>) A = alive cf h A"
proof -
  have "in_sync ((h_logs h)\<lparr>l_queue := q\<rparr>) l = in_sync (h_logs h) l" for l by (rule in_sync_cong) simp_all
  then show ?thesis by (simp add: alive_def collects_def resumable_def saved_def log_ok_def holds_log_def)
qed

lemma main_loop_drains:
  assumes "alive cf h A" "wrapping cf" "\<forall>io\<in>set ios. \<forall>m\<in>set (l_queue (h_logs h)). copy_ok io m"
    "\<exists>m\<in>set (in_order (l_queue (h_logs h))). q_type m = HTX_SYS_FINAL_MSG" "length (in_order (l_queue (h_logs h))) \<le> length ios"
  shows "\<exists>h'. main_loop cf (map (Receive True) ios) h = Some (Inr (True, h')) \<and>
    alive cf h' (fold (a_copy cf) (until_final (in_order (l_queue (h_logs h)))) A)"
  using assms
proof (induction ios arbitrary: h A)
  case Nil
  then show ?case by auto
next
  case (Cons io ios)
  let ?q = "l_queue (h_logs h)"
  obtain m ms where o: "in_order ?q = m # ms" using Cons.prems(4) by (cases "in_order ?q") auto
  let ?h = "h\<lparr>h_logs := (h_logs h)\<lparr>l_queue := remove1 m ?q\<rparr>\<rparr>"
  have rd: "read_message (h_logs h) = Some (m, (h_logs h)\<lparr>l_queue := remove1 m ?q\<rparr>)"
    by (simp add: read_message_def next_message_order o)
  have "m \<in> set (in_order ?q)" using o by simp
  then have "m \<in> set ?q" by (simp add: in_order_def)
  then have ok: "copy_ok io m" using Cons.prems(3) by simp
  have al: "alive cf ?h A" using Cons.prems(1) by (simp add: alive_queue)
  obtain e s where c: "copy_message cf io m ?h = Some (e, ?h\<lparr>h_logs := s\<rparr>)" "collects cf s (a_copy cf m A)"
    "l_queue s = remove1 m ?q"
    using copy_message_keeps [of cf ?h A io m] al Cons.prems(2) ok unfolding alive_def by auto
  let ?h1 = "?h\<lparr>h_logs := s\<rparr>"
  have a1: "alive cf ?h1 (a_copy cf m A)" using c(2) al by (simp add: alive_def)
  show ?case
  proof (cases "q_type m = HTX_SYS_FINAL_MSG")
    case True
    then show ?thesis using rd c a1 o by simp
  next
    case False
    have q1: "in_order (l_queue (h_logs ?h1)) = ms" using c(3) in_order_remove [OF o] by simp
    have "\<forall>io\<in>set ios. \<forall>m\<in>set (l_queue (h_logs ?h1)). copy_ok io m"
      using Cons.prems(3) c(3) set_remove1_subset [of m ?q] by auto
    moreover have "\<exists>m\<in>set ms. q_type m = HTX_SYS_FINAL_MSG" "length ms \<le> length ios"
      using Cons.prems(4,5) o False by auto
    ultimately obtain h' where "main_loop cf (map (Receive True) ios) ?h1 = Some (Inr (True, h'))"
      "alive cf h' (fold (a_copy cf) (until_final ms) (a_copy cf m A))"
      using Cons.IH [OF a1 Cons.prems(2)] unfolding q1 by blast
    then show ?thesis using rd c(1) False o by simp
  qed
qed

text \<open>The whole order: system messages, exerciser messages, then the final one.\<close>

definition logged_order :: "qmsg list \<Rightarrow> qmsg list" where
  "logged_order q = sort_key q_type (filter (\<lambda>m. q_type m < HTX_SYS_FINAL_MSG) q) @
     take 1 (filter (\<lambda>m. q_type m = HTX_SYS_FINAL_MSG) q)"

lemma in_order_split:
  "in_order q = sort_key q_type (filter (\<lambda>m. q_type m < HTX_SYS_FINAL_MSG) q) @ filter (\<lambda>m. q_type m = HTX_SYS_FINAL_MSG) q"
  unfolding in_order_def
proof (rule properties_for_sort_key)
  let ?a = "filter (\<lambda>m. q_type m < HTX_SYS_FINAL_MSG) q" and ?b = "filter (\<lambda>m. q_type m = HTX_SYS_FINAL_MSG) q"
  let ?c = "filter (\<lambda>m. q_type m \<le> HTX_SYS_FINAL_MSG) q"
  have "mset ?c = mset ?a + mset ?b" by (induction q) auto
  then show "mset (sort_key q_type ?a @ ?b) = mset ?c" by simp
  have "map q_type ?b = replicate (length ?b) HTX_SYS_FINAL_MSG" by (induction q) auto
  then have "sorted (map q_type ?b)" by (simp only: sorted_replicate)
  then show "sorted (map q_type (sort_key q_type ?a @ ?b))" by (auto simp: sorted_append)
  fix k :: qmsg
  have eq: "(\<lambda>m. q_type k = q_type m) = (\<lambda>m. q_type m = q_type k)" by auto
  have "filter (\<lambda>m. q_type m = q_type k) ?a @ filter (\<lambda>m. q_type m = q_type k) ?b = filter (\<lambda>m. q_type m = q_type k) ?c"
    by (cases "q_type k < HTX_SYS_FINAL_MSG"; cases "q_type k = HTX_SYS_FINAL_MSG") (auto simp: filter_empty_conv intro!: filter_cong)
  then show "filter (\<lambda>m. q_type k = q_type m) (sort_key q_type ?a @ ?b) = filter (\<lambda>m. q_type k = q_type m) ?c"
    unfolding eq by (simp add: sort_key_stable)
qed

lemma until_final_append:
  "\<forall>m\<in>set ms. q_type m \<noteq> HTX_SYS_FINAL_MSG \<Longrightarrow> until_final (ms @ ns) = ms @ until_final ns"
  by (induction ms) auto

lemma until_final_order: "until_final (in_order q) = logged_order q"
proof -
  have "until_final (filter (\<lambda>m. q_type m = HTX_SYS_FINAL_MSG) q) = take 1 (filter (\<lambda>m. q_type m = HTX_SYS_FINAL_MSG) q)"
    by (induction q) auto
  then show ?thesis unfolding in_order_split logged_order_def by (subst until_final_append) auto
qed

text \<open>The end of the program leaves the files alone.\<close>

definition end_ok :: "end_io \<Rightarrow> bool" where
  "end_ok io \<longleftrightarrow> ei_msgctl io \<and> ei_msgctl2 io \<and> ei_ck_close io \<and> (\<forall>l\<in>set log_names. ei_close io l) \<and> ei_close0 io \<and> ei_close1 io"

lemma close_log_good:
  assumes "end_ok io"
  shows "close_log io n l (e, s) = (e, set_fd l None s)"
proof -
  have "ei_close io l" using assms by (cases l) (simp_all add: end_ok_def log_names_def)
  then show ?thesis by (cases "l_fd s l") (simp_all add: close_log_def close_file_def flag_def set_fd_def fun_upd_idem)
qed

lemma exit_program_good:
  assumes "end_ok io" "h_hxsstress_PID h = - 1" "h_main_exit_code h = 0"
  shows "\<exists>h'. exit_program io h = Some (0, h') \<and> l_file (h_logs h') = l_file (h_logs h) \<and> l_fd (h_logs h') = (\<lambda>_. None) \<and>
    l_ckpt_data (h_logs h') = l_ckpt_data (h_logs h)"
proof -
  have o: "ei_msgctl io" "ei_msgctl2 io" "ei_ck_close io" "ei_close0 io" "ei_close1 io" using assms(1) by (simp_all add: end_ok_def)
  have fd: "(l_fd s)(ERR_LOG := None, ERR_SAVE_LOG := None, MSG_LOG := None, MSG_SAVE_LOG := None) = (\<lambda>_. None)" for s
  proof
    fix l show "((l_fd s)(ERR_LOG := None, ERR_SAVE_LOG := None, MSG_LOG := None, MSG_SAVE_LOG := None)) l = None" by (cases l) simp_all
  qed
  show ?thesis using assms(2,3) o
    by (simp add: exit_program_def clean_up_def Let_def close_log_good [OF assms(1)] flag_def) (simp add: set_fd_def fd)
qed

lemma fold_a_copy:
  assumes "\<not> is_save l"
  shows "fold (a_copy cf) ms A l = fold (a_log cf l) (map q_text (filter (\<lambda>m. takes m l) ms)) (A l)"
  using assms by (induction ms arbitrary: A) (simp_all add: a_copy_def used_def)

lemma set_logged_order: "set (logged_order q) \<subseteq> set q"
  by (auto simp: logged_order_def dest: in_set_takeD)

lemma queue_logged:
  assumes "wrapping cf" "start_ok cf io argv" "l_ckpt_data (h_logs h) = None" "end_ok (mi_end io)"
    and "set_htx_home_log_path (mi_home io) (mi_log_dir io) = Some (Inr d)"
    and "\<forall>c\<in>set ios. \<forall>m\<in>set (l_queue (h_logs h)). copy_ok c m" "\<exists>m\<in>set (l_queue (h_logs h)). q_type m = HTX_SYS_FINAL_MSG"
    and "length (l_queue (h_logs h)) \<le> length ios" "l \<in> {ERR_LOG, MSG_LOG}" "0 < cf_thres cf l"
    and "texts = concat (map q_text (filter (\<lambda>m. takes m l) (logged_order (l_queue (h_logs h)))))"
  shows "\<exists>h' f pre p q. hxsmsg_main io argv (map (Receive True) ios) (new_hxsmsg h) = Some (Inl (0, h')) \<and>
    l_file (h_logs h') l = Some f \<and> lf_data f = q @ p \<and> texts = pre @ p @ q \<and>
    (pre = [] \<or> 512 * cf_thres cf l \<le> int (length (lf_data f))) \<and>
    (int (length texts) < 512 * cf_thres cf l \<longrightarrow> lf_data f = texts)"
proof -
  let ?n = "512 * nat (cf_thres cf l)" and ?q = "l_queue (h_logs h)"
  have n: "int ?n = 512 * cf_thres cf l" "0 < ?n" using assms(10) by simp_all
  let ?h = "h\<lparr>h_logs := (h_logs h)\<lparr>l_log_dir := d\<rparr>\<rparr>"
  have dir: "(new_hxsmsg h)\<lparr>h_logs := (h_logs (new_hxsmsg h))\<lparr>l_log_dir := d\<rparr>\<rparr> = new_hxsmsg ?h"
    by (simp add: new_hxsmsg_def new_process_def)
  obtain h0 where h0: "start_program io argv (new_hxsmsg ?h) = Some (Some cf, h0)" "alive cf h0 (\<lambda>_. empty_log)"
      "l_queue (h_logs h0) = ?q"
    using first_start [OF assms(1,2), of ?h] assms(3) by (auto simp: alive_def)
  have len: "length (in_order ?q) \<le> length ios"
    unfolding in_order_def length_sort by (rule le_trans [OF length_filter_le assms(8)])
  have fin: "\<exists>m\<in>set (in_order ?q). q_type m = HTX_SYS_FINAL_MSG" using assms(7) by (auto simp: in_order_def)
  let ?A = "fold (a_copy cf) (logged_order ?q) (\<lambda>_. empty_log)"
  obtain h1 where h1: "main_loop cf (map (Receive True) ios) h0 = Some (Inr (True, h1))" "alive cf h1 ?A"
    using main_loop_drains [OF h0(2) assms(1), of ios] assms(6) fin len unfolding h0(3) until_final_order by blast
  obtain h2 where h2: "exit_program (mi_end io) h1 = Some (0, h2)" "l_file (h_logs h2) = l_file (h_logs h1)"
    using exit_program_good [OF assms(4), of h1] h1(2) by (auto simp: alive_def)
  have main: "hxsmsg_main io argv (map (Receive True) ios) (new_hxsmsg h) = Some (Inl (0, h2))"
    by (simp add: hxsmsg_main_def assms(5) dir h0(1) h1(1) h2(1))
  have w: "log_wrap cf l" "\<not> is_save l" "used (cf_thres cf) l" using wrap_log [OF assms(1,9)] by simp_all
  let ?ts = "map q_text (filter (\<lambda>m. takes m l) (logged_order ?q))"
  let ?a = "fold (a_log cf l) ?ts empty_log"
  have rel: "holds_log (h_logs h1) l ?a"
    using h1(2) collects_log [of cf "h_logs h1" ?A l] w fold_a_copy [OF w(2), of cf "logged_order ?q" "\<lambda>_. empty_log"]
    by (simp add: alive_def log_ok_def)
  have "\<forall>m\<in>set ?q. length (q_text m) \<le> 4096"
    using assms(6,7,8) by (cases ios) (auto simp: copy_ok_def)
  then have "\<forall>m\<in>set ?ts. length m \<le> 4096" using set_logged_order [of ?q] by auto
  then have "history ?n texts ?a" using history_fold [OF _ w(1) history_empty [OF n(2)]] assms(11) by simp
  then obtain pre p where v: "a_view ?a = a_new ?a @ p" "texts = pre @ p @ a_new ?a"
    "pre = [] \<or> ?n \<le> length (p @ a_new ?a)" "length texts < ?n \<longrightarrow> a_view ?a = texts"
    using history_view by blast
  obtain f where f: "l_file (h_logs h2) l = Some f" "lf_data f = a_view ?a" using rel h2(2) by (auto simp: holds_log_def)
  have len: "length (lf_data f) = length (p @ a_new ?a)" using f(2) v(1) by simp
  have "pre = [] \<or> 512 * cf_thres cf l \<le> int (length (lf_data f))" using v(3) n(1) unfolding len by linarith
  moreover have "int (length texts) < 512 * cf_thres cf l \<longrightarrow> lf_data f = texts" using v(4) f(2) unfolding n(1) [symmetric] by simp
  ultimately show ?thesis using main f(1) f(2) [unfolded v(1)] v(2) by blast
qed

text \<open>C20: When the collector ends, every message that was in its queue is in its logs. Started on a queue that holds a
  final message, and with system calls that work, the program takes the system messages, then the exerciser
  messages, each kind in the order of arrival, and then the final one; it exits with the code 0; and the message log (the
  error log: of the errors) then holds the end of exactly these texts, the whole of them if they are
  shorter than the threshold.\<close>

theorem queue_is_logged:
  assumes "wrapping cf" "start_ok cf io argv" "l_ckpt_data (h_logs h) = None" "end_ok (mi_end io)"
    and "set_htx_home_log_path (mi_home io) (mi_log_dir io) = Some (Inr d)"
    and "\<forall>c\<in>set ios. \<forall>m\<in>set (l_queue (h_logs h)). copy_ok c m" "\<exists>m\<in>set (l_queue (h_logs h)). q_type m = HTX_SYS_FINAL_MSG"
    and "length (l_queue (h_logs h)) \<le> length ios" "l \<in> {ERR_LOG, MSG_LOG}" "0 < cf_thres cf l"
    and "texts = concat (map q_text (filter (\<lambda>m. takes m l) (logged_order (l_queue (h_logs h)))))"
  shows "\<exists>h' f pre p q. hxsmsg_main io argv (map (Receive True) ios) (new_hxsmsg h) = Some (Inl (0, h')) \<and>
    l_file (h_logs h') l = Some f \<and> lf_data f = q @ p \<and> texts = pre @ p @ q \<and>
    (pre = [] \<or> 512 * cf_thres cf l \<le> int (length (lf_data f))) \<and>
    (int (length texts) < 512 * cf_thres cf l \<longrightarrow> lf_data f = texts)"
  using queue_logged [OF assms(1-10)] assms(11) by simp

text \<open>C31: Failing to get the message queue goes unnoticed, and the collector then never ends. \<open>open_ipc\<close> asks for two queues and
  returns the success of the second, so the start succeeds without the first; every receive then fails, and the loop
  goes on for ever: for every number of receives it is still running, and no log has changed.\<close>

theorem lost_queue_never_ends:
  assumes "wrapping cf" "start_ok cf (io\<lparr>mi_msgqid := 0\<rparr>) argv" "l_ckpt_data (h_logs h) = None" "mi_msgqid io = - 1"
    and "set_htx_home_log_path (mi_home io) (mi_log_dir io) = Some (Inr d)"
  shows "\<exists>h'. (\<forall>ios. hxsmsg_main io argv (map (Receive False) ios) (new_hxsmsg h) = Some (Inr h')) \<and>
    h_main_exit_code h' = 0 \<and> l_msgqid (h_logs h') = - 1 \<and> l_queue (h_logs h') = l_queue (h_logs h)"
proof -
  let ?h = "h\<lparr>h_logs := (h_logs h)\<lparr>l_log_dir := d\<rparr>\<rparr>"
  have dir: "(new_hxsmsg h)\<lparr>h_logs := (h_logs (new_hxsmsg h))\<lparr>l_log_dir := d\<rparr>\<rparr> = new_hxsmsg ?h"
    by (simp add: new_hxsmsg_def new_process_def)
  have th: "\<forall>l. 0 \<le> cf_thres cf l \<and> fits64 (cf_thres cf l)"
  proof
    fix l
    have "0 \<le> cf_thres cf l" "cf_thres cf l \<le> 2 ^ 50" using assms(1) by (simp_all add: wrapping_def)
    then show "0 \<le> cf_thres cf l \<and> fits64 (cf_thres cf l)" by (simp add: fits64_def)
  qed
  obtain s where s: "open_logs (mi_start io) (cf_thres cf) True (new_process (h_logs ?h)) = (0, s)" "l_queue s = l_queue (h_logs h)"
    using open_logs_first [of "mi_start io" "h_logs ?h" "cf_thres cf" True] assms(2,3) th by (auto simp: start_ok_def)
  let ?h1 = "(new_hxsmsg ?h)\<lparr>h_logs := s\<lparr>l_msgqid := - 1\<rparr>, h_queue_id := mi_queue_id io\<rparr>"
  have st: "start_program io argv (new_hxsmsg ?h) = Some (Some cf, ?h1)"
    using assms(1,2,4) s(1) by (simp add: start_program_def start_ok_def wrapping_def open_ipc_def new_hxsmsg_def set_signal_hdl_def)
  have loop: "main_loop cf (map (Receive False) ios) h' = Some (Inr (False, h'))" for ios h'
    by (induction ios) simp_all
  have "hxsmsg_main io argv (map (Receive False) ios) (new_hxsmsg h) = Some (Inr ?h1)" for ios
    by (simp add: hxsmsg_main_def assms(5) dir st loop)
  then show ?thesis using s(2) by (intro exI [of _ ?h1]) (simp add: new_hxsmsg_def)
qed

definition sample_queue :: "qmsg list" where
  "sample_queue = [sample_msg 100 1 ''bad;'', sample_msg 200 6 ''end;'', sample_msg 50 6 ''up;'']"

definition sample_waiting :: hxsmsg where
  "sample_waiting = sample_collector\<lparr>h_logs := (h_logs sample_collector)\<lparr>l_queue := sample_queue\<rparr>\<rparr>"

lemma sample_order: "logged_order sample_queue = [sample_msg 50 6 ''up;'', sample_msg 100 1 ''bad;'', sample_msg 200 6 ''end;'']"
  by (simp add: logged_order_def sample_queue_def sample_msg_def)

lemma sample_path: "set_htx_home_log_path (mi_home sample_main) (mi_log_dir sample_main) = Some (Inr ''/tmp'')"
  by (simp add: set_htx_home_log_path_def sample_main_def)

lemma sample_end_ok: "end_ok (mi_end sample_main)"
  by (simp add: end_ok_def sample_main_def sample_end_def)

theorem queue_is_logged_witness:
  "\<exists>h' f. hxsmsg_main sample_main sample_argv (map (Receive True) [sample_copy 3, sample_copy 4, sample_copy 5]) (new_hxsmsg sample_waiting)
      = Some (Inl (0, h')) \<and> l_file (h_logs h') MSG_LOG = Some f \<and> lf_data f = ''up;bad;end;''"
proof -
  let ?ios = "[sample_copy 3, sample_copy 4, sample_copy 5]"
  have q: "l_queue (h_logs sample_waiting) = sample_queue" "l_ckpt_data (h_logs sample_waiting) = None"
    by (simp_all add: sample_waiting_def sample_collector_def)
  have c: "\<forall>c\<in>set ?ios. \<forall>m\<in>set (l_queue (h_logs sample_waiting)). copy_ok c m"
    unfolding q sample_queue_def by (simp add: sample_copy_ok)
  have f: "\<exists>m\<in>set (l_queue (h_logs sample_waiting)). q_type m = HTX_SYS_FINAL_MSG" "length (l_queue (h_logs sample_waiting)) \<le> length ?ios"
    unfolding q by (simp_all add: sample_queue_def sample_msg_def)
  have t: "''up;bad;end;'' = concat (map q_text (filter (\<lambda>m. takes m MSG_LOG) (logged_order (l_queue (h_logs sample_waiting)))))"
    unfolding q sample_order by (simp add: takes_def sample_msg_def)
  have th: "512 * cf_thres sample_config MSG_LOG = 5120" by (simp add: sample_config_def)
  have m: "MSG_LOG \<in> {ERR_LOG, MSG_LOG}" by simp
  from queue_is_logged [OF sample_wrapping(1,2) q(2) sample_end_ok sample_path c f m sample_wrapping(4) t]
  show ?thesis unfolding th
  proof (elim exE conjE)
    fix h' g pre p q
    assume r: "hxsmsg_main sample_main sample_argv (map (Receive True) ?ios) (new_hxsmsg sample_waiting) = Some (Inl (0, h'))"
      "l_file (h_logs h') MSG_LOG = Some g" "int (length ''up;bad;end;'') < 5120 \<longrightarrow> lf_data g = ''up;bad;end;''"
    have d: "lf_data g = ''up;bad;end;''" using r(3) by simp
    show ?thesis by (intro exI conjI) (rule r(1) r(2) d)+
  qed
qed

theorem lost_queue_never_ends_witness:
  "\<exists>h'. (\<forall>ios. hxsmsg_main (sample_main\<lparr>mi_msgqid := - 1\<rparr>) sample_argv (map (Receive False) ios) (new_hxsmsg sample_waiting) = Some (Inr h')) \<and>
    h_main_exit_code h' = 0 \<and> length (l_queue (h_logs h')) = 3"
proof -
  have 1: "(sample_main\<lparr>mi_msgqid := - 1\<rparr>)\<lparr>mi_msgqid := 0\<rparr> = sample_main\<lparr>mi_msgqid := 0\<rparr>" by simp
  have 2: "start_ok sample_config ((sample_main\<lparr>mi_msgqid := - 1\<rparr>)\<lparr>mi_msgqid := 0\<rparr>) sample_argv"
    using sample_wrapping(2) unfolding 1 by (simp add: start_ok_def)
  have 3: "l_ckpt_data (h_logs sample_waiting) = None" "l_queue (h_logs sample_waiting) = sample_queue"
    by (simp_all add: sample_waiting_def sample_collector_def)
  have 4: "set_htx_home_log_path (mi_home (sample_main\<lparr>mi_msgqid := - 1\<rparr>)) (mi_log_dir (sample_main\<lparr>mi_msgqid := - 1\<rparr>)) = Some (Inr ''/tmp'')"
    using sample_path by simp
  have 5: "mi_msgqid (sample_main\<lparr>mi_msgqid := - 1\<rparr>) = - 1" by simp
  have 6: "length sample_queue = 3" by (simp add: sample_queue_def)
  show ?thesis using lost_queue_never_ends [OF sample_wrapping(1) 2 3(1) 5 4] unfolding 3(2) using 6 by metis
qed

end
