(* ===== verification/Spec2Isabelle.thy ===== *)
theory Spec2Isabelle
  imports Rule_File Htx_Buffers Htx_Memory Htxd_Dispatch Hxs_Msg
begin

text \<open>
  HTX, the Hardware Test eXecutive.
\<close>

section \<open>From the client to the daemon and back\<close>

lemma handler_serves:
  assumes "handler_command (y_home (w_sys w)) ps = Some (Some c, ps')" "htxd_process_command w c d = Some (rc, t, d')"
  shows "htxd_command_thraead_handler w past err ps d =
    Some (Some (htxd_send_response (command_type (option_list ! nat (c_index c))) past t rc), d')"
  using assms by (auto simp: handler_command_def htxd_command_thraead_handler_def split: bind_splits option.splits if_splits)

text \<open>C4: A command typed at the client is carried out by the daemon on the MDT and the devices that were typed, and the client
  gets exactly the return code and the text of its result: for every command with parameters that is meant for the
  command line, for all pieces in which the bytes of the command and of the answer may arrive, and for whatever the
  command does to the daemon.\<close>

theorem client_gets_answer:
  assumes "i < length option_list" "parameter_flag (option_list ! i)" "command_type (option_list ! i) = HTXCMDLINE_COMMAND"
    and "\<forall>d\<in>set devs. plain d \<and> peek d \<noteq> CHR ''-''" "plain mdt" "peek mdt \<noteq> CHR ''-''" "CHR '':'' \<notin> set mdt"
    and "length (full_ecg_name (y_home (w_sys w)) mdt) < 512" "length mdt < 512" "length (concat (map (\<lambda>d. d @ '' '') devs)) < 511"
    and "htxd_process_command w \<lparr>c_index = int i, c_ecg_name = full_ecg_name (y_home (w_sys w)) mdt,
           c_option_list = butlast (concat (map (\<lambda>d. d @ '' '') devs))\<rparr> d = Some (rc, t, d')"
    and "- (10 ^ 9) < rc" "rc < 2 ^ 31" "int (length t) < 2 ^ 31 - 1"
  shows "\<exists>c. htxcmd_extract_command_details (option_string (option_list ! i) # devs @ [''-mdt'', mdt])
      initialize_command_object = Some (Inr c) \<and>
    (\<forall>ps. sound ps \<and> bytes ps = htxcmd_prepare_command_string (command_index c) (cmd_ecg_name c) (cmd_option_list c) \<longrightarrow>
      (\<exists>r. htxd_command_thraead_handler w past err ps d = Some (Some r, d') \<and>
        (\<forall>qs. sound qs \<and> bytes qs = r \<longrightarrow> (\<exists>qs'. htxcmd_receive_response qs = Some (Some (rc, t), qs') \<and> bytes qs' = []))))"
proof -
  have "i \<notin> {32, 33}" using assms(3) by (auto simp: option_list_def opt_def)
  with command_line_reaches_daemon [of i devs mdt "y_home (w_sys w)"] assms(1-10)
  obtain c where c: "htxcmd_extract_command_details (option_string (option_list ! i) # devs @ [''-mdt'', mdt])
      initialize_command_object = Some (Inr c)"
    "\<And>ps. sound ps \<Longrightarrow> bytes ps = htxcmd_prepare_command_string (command_index c) (cmd_ecg_name c) (cmd_option_list c) \<Longrightarrow>
       \<exists>ps'. handler_command (y_home (w_sys w)) ps =
          Some (Some \<lparr>c_index = int i, c_ecg_name = full_ecg_name (y_home (w_sys w)) mdt,
                      c_option_list = butlast (concat (map (\<lambda>d. d @ '' '') devs))\<rparr>, ps')"
    by blast
  have "htxd_command_thraead_handler w past err ps d = Some (Some (htxd_send_response HTXCMDLINE_COMMAND past t rc), d')"
    if "sound ps" "bytes ps = htxcmd_prepare_command_string (command_index c) (cmd_ecg_name c) (cmd_option_list c)" for ps
    using c(2) [OF that] handler_serves assms(3,11) by fastforce
  then show ?thesis using c(1) response_round_trip assms(12-14) by blast
qed

theorem client_gets_answer_witness:
  "\<exists>c d' t. htxcmd_extract_command_details [''-run'', ''-mdt'', ''mdt.bu''] initialize_command_object = Some (Inr c) \<and>
     d_state d' = RUNNING_MDT \<and>
     (\<exists>r. htxd_command_thraead_handler (sample_world sample_sys) [] 0
          [Bytes (htxcmd_prepare_command_string (command_index c) (cmd_ecg_name c) (cmd_option_list c))] sample_daemon = Some (Some r, d') \<and>
        (\<exists>qs'. htxcmd_receive_response [Bytes r] = Some (Some (0, t), qs')))"
proof -
  let ?name = "''/usr/lpp/htx/mdt/mdt.bu''"
  obtain d' where d': "htxd_option_method_run_mdt sample_sys ?name sample_daemon = Some (0, ''ECG ('' @ ?name @ '') Activated.'', d')"
      "runs sample_sys sample_entries [(''mem0'', [(''port'', ''8'')])] ?name d'"
    using run_mdt_file [OF sample_mdt, of sample_daemon ?name] by (auto simp: sample_daemon_def)
  have "full_ecg_name (y_home (w_sys (sample_world sample_sys))) ''mdt.bu'' = ?name"
    by (simp add: full_ecg_name_def strchr_def sample_world_def sample_sys_def)
  moreover have "htxd_process_command (sample_world sample_sys) \<lparr>c_index = int 2, c_ecg_name = ?name, c_option_list = []\<rparr> sample_daemon =
      Some (0, ''ECG ('' @ ?name @ '') Activated.'', d')"
    using d'(1) by (simp add: htxd_process_command_def run_option opt_def option_method_def sample_world_def sample_daemon_def)
  ultimately have "\<exists>c. htxcmd_extract_command_details (option_string (option_list ! 2) # [] @ [''-mdt'', ''mdt.bu''])
      initialize_command_object = Some (Inr c) \<and>
    (\<forall>ps. sound ps \<and> bytes ps = htxcmd_prepare_command_string (command_index c) (cmd_ecg_name c) (cmd_option_list c) \<longrightarrow>
      (\<exists>r. htxd_command_thraead_handler (sample_world sample_sys) [] 0 ps sample_daemon = Some (Some r, d') \<and>
        (\<forall>qs. sound qs \<and> bytes qs = r \<longrightarrow>
          (\<exists>qs'. htxcmd_receive_response qs = Some (Some (0, ''ECG ('' @ ?name @ '') Activated.''), qs') \<and> bytes qs' = []))))"
    by (intro client_gets_answer) (simp_all add: run_option opt_def plain_def peek_def)
  then obtain c where c: "htxcmd_extract_command_details [''-run'', ''-mdt'', ''mdt.bu''] initialize_command_object = Some (Inr c)"
    "\<And>ps. sound ps \<Longrightarrow> bytes ps = htxcmd_prepare_command_string (command_index c) (cmd_ecg_name c) (cmd_option_list c) \<Longrightarrow>
      \<exists>r. htxd_command_thraead_handler (sample_world sample_sys) [] 0 ps sample_daemon = Some (Some r, d') \<and>
        (\<forall>qs. sound qs \<and> bytes qs = r \<longrightarrow>
          (\<exists>qs'. htxcmd_receive_response qs = Some (Some (0, ''ECG ('' @ ?name @ '') Activated.''), qs')))"
    unfolding run_option by (simp add: opt_def) blast
  from c(2) [of "[Bytes (htxcmd_prepare_command_string (command_index c) (cmd_ecg_name c) (cmd_option_list c))]"]
  obtain r where r: "htxd_command_thraead_handler (sample_world sample_sys) [] 0
        [Bytes (htxcmd_prepare_command_string (command_index c) (cmd_ecg_name c) (cmd_option_list c))] sample_daemon = Some (Some r, d')"
      "\<forall>qs. sound qs \<and> bytes qs = r \<longrightarrow>
          (\<exists>qs'. htxcmd_receive_response qs = Some (Some (0, ''ECG ('' @ ?name @ '') Activated.''), qs'))"
    by auto
  have "\<exists>qs'. htxcmd_receive_response [Bytes r] = Some (Some (0, ''ECG ('' @ ?name @ '') Activated.''), qs')"
    using r(2) by simp
  moreover have "d_state d' = RUNNING_MDT" using d'(2) by (auto simp: runs_def)
  ultimately show ?thesis using c(1) r(1) by blast
qed

section \<open>From the daemon to the exercisers\<close>

lemma init_key_offset:
  assumes "htxd_init_ecg_info y name off m = Some (rc, off', m')" "0 \<le> off" "off \<le> KEY_OFFSET_LIMIT"
  shows "0 \<le> off' \<and> off' \<le> KEY_OFFSET_LIMIT"
proof -
  obtain keys where "off' = htxd_get_next_key_offset keys off"
    using assms(1) by (auto simp: htxd_init_ecg_info_def Let_def split: bind_splits if_splits)
  then show ?thesis using next_key_offset_ge [of off keys] assms(2,3) by simp
qed

lemma run_loaded_key_off: "run_loaded y name m d = Some (rc, t, d') \<Longrightarrow> d_key_off d' = d_key_off d"
  by (auto simp: run_loaded_def Let_def reply_Some dest!: load_hxstats_frame split: bind_splits if_splits)

lemma run_key_off:
  assumes "htxd_option_method_run_mdt y name d = Some (rc, t, d')" "0 \<le> d_key_off d" "d_key_off d \<le> KEY_OFFSET_LIMIT"
  shows "0 \<le> d_key_off d' \<and> d_key_off d' \<le> KEY_OFFSET_LIMIT"
  using assms
  by (auto simp: htxd_option_method_run_mdt_def Let_def reply_Some split: bind_splits if_splits
      dest!: run_loaded_key_off dest: init_key_offset)

lemma strtok_paren_none: "n \<noteq> [] \<Longrightarrow> CHR ''('' \<notin> set n \<Longrightarrow> strtok_paren n = Some n"
  by (cases n) (auto simp: strtok_paren_def Let_def takeWhile_eq_all_conv)

text \<open>The view of an exerciser that runs as process \<open>pid\<close>: it finds the table and the entries of the daemon, and all its
  system calls succeed.\<close>

definition sees :: "texer_list list \<Rightarrow> htxshm_HE list \<Rightarrow> nat \<Rightarrow> int \<Rightarrow> start_env \<Rightarrow> bool" where
  "sees tbl hs n pid e \<longleftrightarrow>
     (\<forall>k. s_errno e k = 0) \<and> start_env.s_table e = tbl \<and> length tbl \<le> s_max_exer e \<and> s_entries e = hs \<and>
     n \<le> s_max_entries e \<and> s_pid e = pid"

text \<open>The exerciser started for the entry \<open>h\<close>, at position \<open>j\<close>: when it reports its start under its device argument, and the
  clock gets past the start delay, it is attached to the position with all counters at zero.\<close>

definition attaches :: "string \<Rightarrow> bool \<Rightarrow> texer_list list \<Rightarrow> htxshm_HE list \<Rightarrow> nat \<Rightarrow> nat \<Rightarrow> bool" where
  "attaches home emc tbl hs n j \<longleftrightarrow>
     (let h = hs ! j
      in \<forall>path args w e u k.
           exerciser_command home emc h = Some (path, args) \<and> sdev_id (u_data u) = args ! 1 \<and> sees tbl hs n (he_PID h) e \<and>
           mono (w_time w) \<and> w_time w (Suc (u_calls u)) + he_test_start_delay h \<le> w_time w k \<longrightarrow>
           (\<exists>u' now. htx_start w e u = Some (int j + 1, u', now) \<and> he_counters (u_HE u') = replicate 7 0 \<and>
              data_counters (u_data u') = replicate 7 0 \<and>
              (now + he_test_start_delay h \<le> he_test_started_time (u_HE u') \<or> (\<exists>k. s_shutdown e k))))"

text \<open>C5: Every exerciser that a run starts finds itself: the daemon starts one process per device of the MDT, with the device
  as its argument, and when the exerciser of the \<open>j\<close>-th device reports its start under the process id it was given, the
  library looks it up in the table and the shared memory that the daemon has filled and attaches it to the \<open>j\<close>-th entry,
  with all its counters at zero, once its start delay is over.\<close>

theorem started_exercisers_attach:
  assumes "mdt_file ds sts" "sys_ok ds sts y" "d_state d \<noteq> SELECTED_MDT" "d_mgr d = None" "name \<noteq> []" "length name < 900"
    and "0 \<le> d_key_off d" "d_key_off d \<le> KEY_OFFSET_LIMIT"
    and "inj_on (y_fork y) {..<length sts}" "\<forall>st\<in>set sts. CHR ''('' \<notin> set (fst st)"
  shows "\<exists>d' m node hdr hs. htxd_option_method_run_mdt y name d = Some (0, ''ECG ('' @ name @ '') Activated.'', d') \<and>
    d_mgr d' = Some m \<and> m_heap m (y_addr y) = Some node \<and> ei_shm (n_info node) = Some (hdr, hs) \<and>
    (\<forall>j<length sts. hs ! j = (device_entry ds (sts ! j) zero_HE)\<lparr>he_PID := y_fork y j\<rparr> \<and>
       attaches (y_home y) emc (m_table m) hs (hdr_num_entries hdr) j)"
proof -
  obtain d' where d': "htxd_option_method_run_mdt y name d = Some (0, ''ECG ('' @ name @ '') Activated.'', d')"
      "runs y ds sts name d'" using run_mdt_file [OF assms(1-6)] by blast
  have off: "0 \<le> d_key_off d'" using run_key_off [OF d'(1)] assms(7,8) by simp
  obtain m node hdr hs where r: "d_mgr d' = Some m" "m_heap m (y_addr y) = Some node"
      "ei_shm_key (n_info node) = ECG_SHMKEY_START + d_key_off d'" "ei_shm (n_info node) = Some (hdr, hs)"
      "hdr_num_entries hdr = length sts" "length sts \<le> length hs"
      "\<forall>j<length sts. hs ! j = (device_entry ds (sts ! j) zero_HE)\<lparr>he_PID := y_fork y j\<rparr>"
      "m_table m = map (\<lambda>j. (table_entry (keys_of (n_info node)) (fst (sts ! j)) j)\<lparr>exer_pid := y_fork y j\<rparr>) [0..<length sts]"
    using d'(2) by (auto simp: runs_def)
  have "attaches (y_home y) emc (m_table m) hs (hdr_num_entries hdr) j" if j: "j < length sts" for j
    unfolding attaches_def Let_def
  proof (intro allI impI, elim conjE)
    fix path args e k and w :: Htx_Update.world and u :: upd
    assume c: "exerciser_command (y_home y) emc (hs ! j) = Some (path, args)" "sdev_id (u_data u) = args ! 1"
      and e: "sees (m_table m) hs (hdr_num_entries hdr) (he_PID (hs ! j)) e"
      and w: "mono (w_time w)" "w_time w (Suc (u_calls u)) + he_test_start_delay (hs ! j) \<le> w_time w k"
    have st: "device_ok ds (sts ! j)" "CHR ''('' \<notin> set (fst (sts ! j))" using assms(1,10) j by (auto simp: mdt_file_def)
    then have n: "strtok_paren (fst (sts ! j)) = Some (fst (sts ! j))" "fst (sts ! j) \<noteq> []"
      by (auto simp: device_ok_def name_ok_def intro: strtok_paren_none)
    have s: "sdev_id (u_data u) = ''/dev/'' @ fst (sts ! j)"
      using c r(7) j by (auto simp: exerciser_command_def Let_def split: bind_splits)
    let ?t = "m_table m ! j"
    have t: "?t \<in> set (m_table m)" "dupdev_cmp (y_fork y j) ?t (fst (sts ! j))"
      "\<forall>t\<in>set (m_table m). ecg_shm_key t \<noteq> - 1"
      using j n off r(3,8) by (auto simp: dupdev_cmp_def table_entry_def keys_of_def)
    have p: "he_PID (hs ! i) \<noteq> y_fork y j" if "i < j" for i
      using that j assms(9) r(7) by (auto simp: inj_on_def)
    show "\<exists>u' now. htx_start w e u = Some (int j + 1, u', now) \<and> he_counters (u_HE u') = replicate 7 0 \<and>
        data_counters (u_data u') = replicate 7 0 \<and>
        (now + he_test_start_delay (hs ! j) \<le> he_test_started_time (u_HE u') \<or> (\<exists>k. s_shutdown e k))"
      using start_attaches [of e u ?t j w k] e t s n r(5-7) j w p by (auto simp: sees_def)
  qed
  then show ?thesis using d'(1) r(1,2,4,7) by blast
qed

theorem started_exercisers_attach_witness:
  "\<exists>d' m hs e u' now. htxd_option_method_run_mdt sample_sys ''mdt.bu'' sample_daemon = Some (0, ''ECG (mdt.bu) Activated.'', d') \<and>
     d_mgr d' = Some m \<and> sees (m_table m) hs 1 100 e \<and> htx_start calm_world e start_upd = Some (1, u', now) \<and>
     he_counters (u_HE u') = replicate 7 0"
proof -
  let ?sts = "[(''mem0'', [(''port'', ''8'')])]"
  let ?h = "(device_entry sample_entries (''mem0'', [(''port'', ''8'')]) zero_HE)\<lparr>he_PID := y_fork sample_sys 0\<rparr>"
  let ?args = "[''7'', ''/dev/mem0'', ''REG'', ''/usr/lpp/htx/rules/reg/7'']"
  have uq: "uq (vmap sample_entries ++ vmap [(''port'', ''8'')]) k = ''7''" if "k \<in> {''HE_name'', ''reg_rules''}" for k
    using that by (auto simp: uq_def map_of_sample map_add_def sample_keys_def string_keys_def value_keys_def)
  have c: "exerciser_command (y_home sample_sys) False ?h = Some (''/usr/lpp/htx/bin/7'', ?args)"
    by (simp add: exerciser_command_def device_entry_def entry_of_def uq sample_sys_def fits_def peek_def Let_def)
  have "\<exists>d' m node hdr hs. htxd_option_method_run_mdt sample_sys ''mdt.bu'' sample_daemon =
      Some (0, ''ECG ('' @ ''mdt.bu'' @ '') Activated.'', d') \<and>
    d_mgr d' = Some m \<and> m_heap m (y_addr sample_sys) = Some node \<and> ei_shm (n_info node) = Some (hdr, hs) \<and>
    (\<forall>j<length ?sts. hs ! j = (device_entry sample_entries (?sts ! j) zero_HE)\<lparr>he_PID := y_fork sample_sys j\<rparr> \<and>
       attaches (y_home sample_sys) False (m_table m) hs (hdr_num_entries hdr) j)"
    by (rule started_exercisers_attach [OF sample_mdt]) (simp_all add: sample_daemon_def sample_sys_def inj_on_def)
  then obtain d' m hs and hdr :: htxshm_hdr where d': "htxd_option_method_run_mdt sample_sys ''mdt.bu'' sample_daemon =
      Some (0, ''ECG ('' @ ''mdt.bu'' @ '') Activated.'', d')" "d_mgr d' = Some m" "hs ! 0 = ?h"
    and a: "attaches (y_home sample_sys) False (m_table m) hs (hdr_num_entries hdr) 0"
    by auto
  let ?e = "(c_start sample_env)\<lparr>s_max_exer := length (m_table m), s_pid := 100, start_env.s_table := m_table m,
     s_max_entries := hdr_num_entries hdr + 1, s_entries := hs\<rparr>"
  have e: "sees (m_table m) hs 1 100 ?e" "sees (m_table m) hs (hdr_num_entries hdr) (he_PID ?h) ?e"
    by (simp_all add: sees_def sample_env_def sample_sys_def)
  have w: "mono (w_time calm_world)" "sdev_id (u_data start_upd) = ?args ! 1"
      "w_time calm_world (Suc (u_calls start_upd)) + t \<le> w_time calm_world (nat t + 5)" for t
    by (simp_all add: upd_eval mono_def)
  have "\<exists>u' now. htx_start calm_world ?e start_upd = Some (int 0 + 1, u', now) \<and> he_counters (u_HE u') = replicate 7 0"
    using a [unfolded attaches_def Let_def d'(3)] c e(2) w by blast
  then show ?thesis using d'(1,2) e(1) by auto
qed

section \<open>From the exerciser to the error log\<close>

lemma htx_message_queued:
  assumes "htx_message w msg_send u = Some (rc, text, u')" "system_run (u_data u)" "severity_code (u_data u) < HTX_SYS_INFO"
    and "\<forall>n. w_lock w n = 0" "\<forall>n. w_sendok w n"
  shows "u_queue u' = u_queue u @ [qmsg_of HTX_HE_MSG (u_data u) text]"
  using assms
  by (auto simp: htx_message_def msgsnd_def tick_def Let_def split: bind_splits if_splits)

lemma length_concat_filter: "length (concat (map f (filter P xs))) \<le> length (concat (map f xs))"
  by (induction xs) auto

text \<open>C7: An error that an exerciser reports is in the message log and in the error log when the collector has ended. The
  exerciser's \<open>htx_message\<close> formats the error and puts it in the queue; the collector is started on a queue that
  contains it and, somewhere, a final message, takes everything, and exits with the code 0; the text is then in both
  files, provided the texts of the queue fit within the threshold of the log.\<close>

theorem reported_error_logged:
  assumes "htx_message w msg_send u = Some (rc, text, u')" "system_run (u_data u)" "severity_code (u_data u) < HTX_SYS_INFO"
    and "\<forall>n. w_lock w n = 0" "\<forall>n. w_sendok w n"
    and "l_queue (h_logs h) = u_queue u' @ later" "\<exists>m\<in>set later. q_type m = HTX_SYS_FINAL_MSG"
    and "wrapping cf" "start_ok cf io argv" "l_ckpt_data (h_logs h) = None" "end_ok (mi_end io)"
    and "set_htx_home_log_path (mi_home io) (mi_log_dir io) = Some (Inr d)"
    and "\<forall>c\<in>set ios. \<forall>m\<in>set (l_queue (h_logs h)). copy_ok c m" "length (l_queue (h_logs h)) \<le> length ios"
    and "\<forall>l\<in>{ERR_LOG, MSG_LOG}. int (length (concat (map q_text (logged_order (l_queue (h_logs h)))))) < 512 * cf_thres cf l"
  shows "\<exists>h'. hxsmsg_main io argv (map (Receive True) ios) (new_hxsmsg h) = Some (Inl (0, h')) \<and>
    (\<forall>l\<in>{ERR_LOG, MSG_LOG}. \<exists>f x y. l_file (h_logs h') l = Some f \<and> lf_data f = x @ text @ y)"
proof -
  let ?m = "qmsg_of HTX_HE_MSG (u_data u) text" and ?q = "l_queue (h_logs h)"
  have m: "?m \<in> set ?q" using htx_message_queued [OF assms(1-5)] assms(6) by simp
  have o: "?m \<in> set (filter (\<lambda>m. takes m l) (logged_order ?q))" for l
    using m assms(3) by (cases l) (simp_all add: logged_order_def takes_def qmsg_of_def)
  have fin: "\<exists>m\<in>set ?q. q_type m = HTX_SYS_FINAL_MSG" using assms(6,7) by auto
  have fl: "\<exists>h' f x y. hxsmsg_main io argv (map (Receive True) ios) (new_hxsmsg h) = Some (Inl (0, h')) \<and>
      l_file (h_logs h') l = Some f \<and> lf_data f = x @ text @ y" if l: "l \<in> {ERR_LOG, MSG_LOG}" for l
  proof -
    let ?t = "concat (map q_text (filter (\<lambda>m. takes m l) (logged_order ?q)))"
    obtain a b where "filter (\<lambda>m. takes m l) (logged_order ?q) = a @ ?m # b" using split_list [OF o] by blast
    then have t: "?t = concat (map q_text a) @ text @ concat (map q_text b)" by (simp add: qmsg_of_def)
    have s: "int (length ?t) < 512 * cf_thres cf l"
      using assms(15) l length_concat_filter [of q_text "\<lambda>m. takes m l" "logged_order ?q"] by fastforce
    then have "0 < cf_thres cf l" by linarith
    from queue_logged [OF assms(8-13) fin assms(14) l this refl] s t show ?thesis by metis
  qed
  obtain h' where h': "hxsmsg_main io argv (map (Receive True) ios) (new_hxsmsg h) = Some (Inl (0, h'))"
    using fl [of ERR_LOG] by blast
  then show ?thesis using fl by (intro exI [of _ h']) fastforce
qed

definition error_upd :: upd where
  "error_upd = start_upd\<lparr>u_data := reg_data\<lparr>severity_code := 1, error_code := 5, msg_text := ''miscompare''\<rparr>\<rparr>"

definition error_text :: string where
  "error_text = [NL] @ ''/dev/mem0         Jan  1 00:16:40 1970 err=00000005 sev=1 hxemem64      '' @ [NL] @ ''miscompare'' @ [NL]"

lemma error_reported:
  "\<exists>u'. htx_message calm_world ''error'' error_upd = Some (0, error_text, u') \<and>
     u_queue u' = [\<lparr>q_type = HTX_HE_MSG, q_text = error_text, q_sdev_id = ''/dev/mem0'', q_HE_name = ''hxemem64'',
                    q_severity = 1, q_error = 5\<rparr>]"
proof -
  have "map_option (\<lambda>(rc, text, u'). (rc, text, u_queue u')) (htx_message calm_world ''error'' error_upd) =
      Some (0, error_text, [\<lparr>q_type = HTX_HE_MSG, q_text = error_text, q_sdev_id = ''/dev/mem0'', q_HE_name = ''hxemem64'',
                    q_severity = 1, q_error = 5\<rparr>])"
    by code_simp
  then show ?thesis by auto
qed

theorem reported_error_logged_witness:
  "\<exists>h h'. hxsmsg_main sample_main sample_argv (map (Receive True) [sample_copy 3, sample_copy 4]) (new_hxsmsg h) = Some (Inl (0, h')) \<and>
    (\<forall>l\<in>{ERR_LOG, MSG_LOG}. \<exists>f x y. l_file (h_logs h') l = Some f \<and> lf_data f = x @ error_text @ y)"
proof -
  obtain u' where u': "htx_message calm_world ''error'' error_upd = Some (0, error_text, u')"
    "u_queue u' = [\<lparr>q_type = HTX_HE_MSG, q_text = error_text, q_sdev_id = ''/dev/mem0'', q_HE_name = ''hxemem64'',
                    q_severity = 1, q_error = 5\<rparr>]" using error_reported by blast
  let ?later = "[sample_msg HTX_SYS_FINAL_MSG 6 ''end'']" and ?ios = "[sample_copy 3, sample_copy 4]"
  define h where "h = sample_collector\<lparr>h_logs := (h_logs sample_collector)\<lparr>l_queue := u_queue u' @ ?later\<rparr>\<rparr>"
  have q: "l_queue (h_logs h) = u_queue u' @ ?later" "l_ckpt_data (h_logs h) = None" by (simp_all add: h_def sample_collector_def)
  have d: "system_run (u_data error_upd)" "severity_code (u_data error_upd) < HTX_SYS_INFO"
    "\<forall>n. w_lock calm_world n = 0" "\<forall>n. w_sendok calm_world n"
    by (simp_all add: error_upd_def upd_eval system_run_def)
  have len: "length error_text = 85" by (simp add: error_text_def)
  have ok: "\<forall>c\<in>set ?ios. \<forall>m\<in>set (l_queue (h_logs h)). copy_ok c m"
    using len unfolding q u'(2)
    by (simp add: copy_ok_def io_works_def fits64_def sizeof_ckpt_def sample_copy_def sample_log_io_def sample_signal_def sample_msg_def)
  have order: "logged_order (l_queue (h_logs h)) = l_queue (h_logs h)"
    unfolding q u'(2) by (simp add: logged_order_def sample_msg_def)
  have small: "\<forall>l\<in>{ERR_LOG, MSG_LOG}. int (length (concat (map q_text (logged_order (l_queue (h_logs h)))))) < 512 * cf_thres sample_config l"
    unfolding order using len unfolding q u'(2) by (simp add: sample_msg_def sample_config_def)
  have fin: "\<exists>m\<in>set ?later. q_type m = HTX_SYS_FINAL_MSG" "length (l_queue (h_logs h)) \<le> length ?ios"
    unfolding q u'(2) by (simp_all add: sample_msg_def)
  show ?thesis
    using reported_error_logged [OF u'(1) d q(1) fin(1) sample_wrapping(1,2) q(2) sample_end_ok sample_path ok fin(2) small] by blast
qed

end
